(* ===== verification/Go_Prelude.thy ===== *)
theory Go_Prelude
  imports Main
begin

text \<open>
  Vocabulary shared by every component of the development.

  \<^item> \<open>outcome\<close>: what a Go call does to its caller, a return or a panic.
  \<^item> \<open>reach\<close> and the locale \<open>transition_invariant\<close>: the states a step relation
    reaches, and the one induction by which a component's invariant holds in all of them.
  \<^item> \<open>dec\<close>: the decimal numerals that \<open>fmt.Sprintf("%d")\<close> and \<open>strconv\<close> print.
  \<^item> lemmas on lists and maps that several components use.
\<close>

named_theorems comp_defs "definitions unfolded by the proofs about one operation"

section \<open>Outcomes of Go calls\<close>

datatype 'a outcome = Return 'a | Panic string

fun bind_outcome :: "'a outcome \<Rightarrow> ('a \<Rightarrow> 'b outcome) \<Rightarrow> 'b outcome" where
  "bind_outcome (Return a) f = f a"
| "bind_outcome (Panic msg) f = Panic msg"

lemma bind_outcome_Return_iff:
  "bind_outcome m f = Return b \<longleftrightarrow> (\<exists>a. m = Return a \<and> f a = Return b)"
  by (cases m) auto

section \<open>Reachable states and invariants\<close>

inductive reach :: "('s \<Rightarrow> bool) \<Rightarrow> ('s \<Rightarrow> 's \<Rightarrow> bool) \<Rightarrow> 's \<Rightarrow> bool"
  for init :: "'s \<Rightarrow> bool" and step :: "'s \<Rightarrow> 's \<Rightarrow> bool" where
  reach_init: "init s \<Longrightarrow> reach init step s"
| reach_step: "reach init step s \<Longrightarrow> step s t \<Longrightarrow> reach init step t"

text \<open>
  The contract between a component and its runs: the initial states satisfy the invariant and
  every step keeps it.
\<close>

locale transition_invariant =
  fixes init :: "'s \<Rightarrow> bool"
    and step :: "'s \<Rightarrow> 's \<Rightarrow> bool"
    and inv :: "'s \<Rightarrow> bool"
  assumes inv_init: "init s \<Longrightarrow> inv s"
    and inv_step: "inv s \<Longrightarrow> step s t \<Longrightarrow> inv t"
begin

lemma inv_reach: "reach init step s \<Longrightarrow> inv s"
  by (induction rule: reach.induct) (auto intro: inv_init inv_step)

lemma inv_steps: "step\<^sup>*\<^sup>* s t \<Longrightarrow> inv s \<Longrightarrow> inv t"
  by (induction rule: rtranclp_induct) (auto intro: inv_step)

end

lemma reach_rtranclp: "reach init step s \<Longrightarrow> step\<^sup>*\<^sup>* s t \<Longrightarrow> reach init step t"
proof -
  assume r: "reach init step s"
  assume "step\<^sup>*\<^sup>* s t"
  then show "reach init step t"
    by (induction rule: rtranclp_induct) (auto intro: r reach_step)
qed

section \<open>Decimal numerals\<close>

definition digit_char :: "nat \<Rightarrow> char" where
  "digit_char d = char_of (48 + d)"

fun dec :: "nat \<Rightarrow> string" where
  "dec n = (if n < 10 then [digit_char n] else dec (n div 10) @ [digit_char (n mod 10)])"

declare dec.simps [simp del]

definition is_digit :: "char \<Rightarrow> bool" where
  "is_digit c \<longleftrightarrow> 48 \<le> (of_char c :: nat) \<and> (of_char c :: nat) \<le> 57"

fun read_dec :: "nat \<Rightarrow> string \<Rightarrow> nat" where
  "read_dec acc [] = acc"
| "read_dec acc (c # cs) = read_dec (10 * acc + (of_char c - 48)) cs"

lemma of_char_digit_char [simp]: "d < 10 \<Longrightarrow> (of_char (digit_char d) :: nat) = 48 + d"
  by (simp add: digit_char_def)

lemma is_digit_digit_char [simp]: "d < 10 \<Longrightarrow> is_digit (digit_char d)"
  by (simp add: is_digit_def)

lemma dec_not_Nil [simp]: "dec n \<noteq> []"
  by (subst dec.simps) simp

lemma dec_digits: "c \<in> set (dec n) \<Longrightarrow> is_digit c"
proof (induction n rule: dec.induct)
  case (1 n)
  then show ?case by (cases "n < 10") (auto simp: dec.simps [of n])
qed

lemma read_dec_append: "read_dec a (xs @ ys) = read_dec (read_dec a xs) ys"
  by (induction xs arbitrary: a) auto

lemma read_dec_dec [simp]: "read_dec 0 (dec n) = n"
proof (induction n rule: dec.induct)
  case (1 n)
  then show ?case
    by (cases "n < 10") (auto simp: dec.simps [of n] read_dec_append)
qed

lemma dec_inject [simp]: "dec m = dec n \<longleftrightarrow> m = n"
  by (metis read_dec_dec)

section \<open>Lists and maps\<close>

lemma map_upd_case_sum_Inl [simp]:
  "case_sum (f(k \<mapsto> v)) g = (case_sum f g)(Inl k \<mapsto> v)"
  by (auto simp: fun_eq_iff split: sum.splits)

lemma map_upd_case_sum_Inr [simp]:
  "case_sum f (g(k \<mapsto> v)) = (case_sum f g)(Inr k \<mapsto> v)"
  by (auto simp: fun_eq_iff split: sum.splits)

lemma map_del_case_sum_Inl [simp]:
  "case_sum (f(k := None)) g = (case_sum f g)(Inl k := None)"
  by (auto simp: fun_eq_iff split: sum.splits)

end
