(* ===== verification/Go_Slice.thy ===== *)
theory Go_Slice
  imports Go_Prelude
begin

text \<open>
  Go slices over an explicit heap of backing arrays.

  The program keeps slices in maps, hands them out while it holds a lock and goes on mutating
  their backing arrays in place (\<open>append(xs[:i], xs[i+1:]...)\<close>), so aliasing matters and a
  slice is not just its elements. A slice is a backing array and a length (every slice of the
  program starts at the array's first element). The array's length is the capacity.
  \<open>append\<close> writes in place while there is room and otherwise copies to a new array; how much
  room a new array has beyond what is needed is the runtime's choice, so it is the argument
  \<open>spare\<close>, any function of the needed length; \<open>z\<close> is the element type's zero value,
  which fills the room.

  The locale \<open>slice_ops\<close> is the contract that clients use: what each operation does to the
  elements of its own slice, and that slices of other arrays keep theirs. Its lemmas about
  tables of slices (a map from keys to slices, no two of which share an array) are proved from
  the contract alone.
\<close>

section \<open>The heap of backing arrays\<close>

record 'a heap =
  mem :: "nat \<Rightarrow> 'a list"
  fresh :: nat

record slice =
  arr :: nat
  len :: nat

definition empty_heap :: "'a heap" where
  "empty_heap = \<lparr>mem = (\<lambda>_. []), fresh = 1\<rparr>"

definition nil_slice :: slice where
  "nil_slice = \<lparr>arr = 0, len = 0\<rparr>"

definition elems :: "'a heap \<Rightarrow> slice \<Rightarrow> 'a list" where
  "elems h s = take (len s) (mem h (arr s))"

definition read_at :: "'a heap \<Rightarrow> slice \<Rightarrow> nat \<Rightarrow> 'a" where
  "read_at h s i = mem h (arr s) ! i"

definition go_append :: "'a \<Rightarrow> (nat \<Rightarrow> nat) \<Rightarrow> 'a heap \<Rightarrow> slice \<Rightarrow> 'a \<Rightarrow> 'a heap \<times> slice" where
  "go_append z spare h s x =
     (if len s < length (mem h (arr s))
      then (h\<lparr>mem := (mem h)(arr s := (mem h (arr s))[len s := x])\<rparr>, s\<lparr>len := len s + 1\<rparr>)
      else (\<lparr>mem = (mem h)(fresh h := elems h s @ [x] @ replicate (spare (len s + 1)) z),
             fresh = fresh h + 1\<rparr>,
            \<lparr>arr = fresh h, len = len s + 1\<rparr>))"

text \<open>\<open>append(xs[:i], xs[i+1:]...)\<close>: the tail moves one place down, the last element stays
  where it was beyond the new length.\<close>

definition delete_at :: "'a heap \<Rightarrow> slice \<Rightarrow> nat \<Rightarrow> 'a heap \<times> slice" where
  "delete_at h s i =
     (let a = mem h (arr s) in
      (h\<lparr>mem := (mem h)(arr s :=
           take i a @ take (len s - 1 - i) (drop (i + 1) a) @ drop (len s - 1) a)\<rparr>,
       s\<lparr>len := len s - 1\<rparr>))"

text \<open>The search loop \<open>for i, v := range xs { if v == x { ...; break } }\<close>.\<close>

fun find_index :: "'a \<Rightarrow> 'a list \<Rightarrow> nat option" where
  "find_index x [] = None"
| "find_index x (y # ys) = (if y = x then Some 0 else map_option Suc (find_index x ys))"

definition remove_first :: "'a heap \<Rightarrow> slice \<Rightarrow> 'a \<Rightarrow> ('a heap \<times> slice) option" where
  "remove_first h s x = map_option (delete_at h s) (find_index x (elems h s))"

definition heap_ok :: "'a heap \<Rightarrow> bool" where
  "heap_ok h \<longleftrightarrow> 0 < fresh h \<and> mem h 0 = []"

definition slice_ok :: "'a heap \<Rightarrow> slice \<Rightarrow> bool" where
  "slice_ok h s \<longleftrightarrow> 0 < arr s \<and> arr s < fresh h \<and> len s \<le> length (mem h (arr s))"

definition apart :: "slice \<Rightarrow> slice \<Rightarrow> bool" where
  "apart s t \<longleftrightarrow> arr s \<noteq> arr t"

lemmas slice_defs = elems_def go_append_def delete_at_def heap_ok_def slice_ok_def
  apart_def nil_slice_def

lemma heap_ok_empty [simp]: "heap_ok empty_heap"
  by (simp add: heap_ok_def empty_heap_def)

lemma elems_nil_slice [simp]: "elems h nil_slice = []"
  by (simp add: slice_defs)

lemma len_nil_slice [simp]: "len nil_slice = 0"
  by (simp add: nil_slice_def)

lemma length_elems: "slice_ok h s \<Longrightarrow> length (elems h s) = len s"
  by (simp add: slice_defs)

lemma read_at_elems: "slice_ok h s \<Longrightarrow> i < len s \<Longrightarrow> read_at h s i = elems h s ! i"
  by (simp add: slice_defs read_at_def)

section \<open>Searching\<close>

lemma find_index_None [simp]: "find_index x xs = None \<longleftrightarrow> x \<notin> set xs"
  by (induction xs) auto

lemma find_index_SomeD: "find_index x xs = Some i \<Longrightarrow> i < length xs \<and> xs ! i = x"
  by (induction xs arbitrary: i) (auto split: if_splits)

lemma find_index_remove1:
  "find_index x xs = Some i \<Longrightarrow> take i xs @ drop (Suc i) xs = remove1 x xs"
  by (induction xs arbitrary: i) (auto split: if_splits)

section \<open>One operation\<close>

lemma go_append_elems:
  "heap_ok h \<Longrightarrow> s = nil_slice \<or> slice_ok h s \<Longrightarrow> go_append z spare h s x = (h', s') \<Longrightarrow>
   elems h' s' = elems h s @ [x]"
  by (auto simp: slice_defs take_Suc_conv_app_nth split: if_splits)

lemma go_append_ok:
  "heap_ok h \<Longrightarrow> s = nil_slice \<or> slice_ok h s \<Longrightarrow> go_append z spare h s x = (h', s') \<Longrightarrow>
   heap_ok h' \<and> slice_ok h' s'"
  by (auto simp: slice_defs split: if_splits)

lemma go_append_frame:
  "heap_ok h \<Longrightarrow> s = nil_slice \<or> slice_ok h s \<Longrightarrow> slice_ok h u \<Longrightarrow> apart s u \<Longrightarrow>
   go_append z spare h s x = (h', s') \<Longrightarrow>
   elems h' u = elems h u \<and> slice_ok h' u \<and> apart s' u"
  by (auto simp: slice_defs split: if_splits)

lemma delete_at_elems:
  assumes "slice_ok h s" "i < len s" "delete_at h s i = (h', s')"
  shows "elems h' s' = take i (elems h s) @ drop (Suc i) (elems h s)"
proof -
  from assms have "elems h' s' =
      take (len s - 1) (take i (mem h (arr s)) @
        take (len s - 1 - i) (drop (i + 1) (mem h (arr s))) @ drop (len s - 1) (mem h (arr s)))"
    by (auto simp: delete_at_def elems_def Let_def)
  also have "\<dots> = take i (mem h (arr s)) @ take (len s - 1 - i) (drop (i + 1) (mem h (arr s)))"
  proof -
    have "length (take i (mem h (arr s)) @ take (len s - 1 - i) (drop (i + 1) (mem h (arr s)))) =
        len s - 1"
      using assms(1,2) by (auto simp: slice_ok_def)
    then show ?thesis by (metis append_assoc append_eq_conv_conj)
  qed
  also have "\<dots> = take i (elems h s) @ drop (Suc i) (elems h s)"
    using assms(1,2) by (simp add: elems_def slice_ok_def min_def drop_take)
  finally show ?thesis .
qed

lemma delete_at_ok:
  "heap_ok h \<Longrightarrow> slice_ok h s \<Longrightarrow> i < len s \<Longrightarrow> delete_at h s i = (h', s') \<Longrightarrow>
   heap_ok h' \<and> slice_ok h' s'"
  by (auto simp: slice_defs Let_def)

lemma delete_at_frame:
  "slice_ok h u \<Longrightarrow> apart s u \<Longrightarrow> delete_at h s i = (h', s') \<Longrightarrow>
   elems h' u = elems h u \<and> slice_ok h' u \<and> apart s' u"
  by (auto simp: slice_defs Let_def)

lemma remove_first_cases:
  assumes "slice_ok h s" "remove_first h s x = Some (h', s')"
  obtains i where "find_index x (elems h s) = Some i" "i < len s" "delete_at h s i = (h', s')"
proof -
  from assms(2) obtain i where i: "find_index x (elems h s) = Some i" "delete_at h s i = (h', s')"
    by (auto simp: remove_first_def)
  moreover have "i < len s"
    using find_index_SomeD [OF i(1)] by (simp add: length_elems [OF assms(1)])
  ultimately show thesis using that by blast
qed

lemma remove_first_None [simp]: "remove_first h s x = None \<longleftrightarrow> x \<notin> set (elems h s)"
  by (simp add: remove_first_def)

section \<open>The contract, and tables of slices\<close>

locale slice_ops =
  fixes hok :: "'h \<Rightarrow> bool"
    and ok :: "'h \<Rightarrow> 's \<Rightarrow> bool"
    and sep :: "'s \<Rightarrow> 's \<Rightarrow> bool"
    and els :: "'h \<Rightarrow> 's \<Rightarrow> 'a list"
    and nil :: 's
    and app :: "'h \<Rightarrow> 's \<Rightarrow> 'a \<Rightarrow> 'h \<times> 's"
    and del :: "'h \<Rightarrow> 's \<Rightarrow> 'a \<Rightarrow> ('h \<times> 's) option"
  assumes sep_sym: "sep s t \<Longrightarrow> sep t s"
    and sep_nil: "ok h s \<Longrightarrow> sep nil s"
    and els_nil: "els h nil = []"
    and app_els: "hok h \<Longrightarrow> s = nil \<or> ok h s \<Longrightarrow> app h s x = (h', s') \<Longrightarrow>
      els h' s' = els h s @ [x]"
    and app_ok: "hok h \<Longrightarrow> s = nil \<or> ok h s \<Longrightarrow> app h s x = (h', s') \<Longrightarrow> hok h' \<and> ok h' s'"
    and app_frame: "hok h \<Longrightarrow> s = nil \<or> ok h s \<Longrightarrow> ok h u \<Longrightarrow> sep s u \<Longrightarrow>
      app h s x = (h', s') \<Longrightarrow> els h' u = els h u \<and> ok h' u \<and> sep s' u"
    and del_None: "ok h s \<Longrightarrow> del h s x = None \<longleftrightarrow> x \<notin> set (els h s)"
    and del_els: "hok h \<Longrightarrow> ok h s \<Longrightarrow> del h s x = Some (h', s') \<Longrightarrow>
      els h' s' = remove1 x (els h s)"
    and del_ok: "hok h \<Longrightarrow> ok h s \<Longrightarrow> del h s x = Some (h', s') \<Longrightarrow> hok h' \<and> ok h' s'"
    and del_frame: "hok h \<Longrightarrow> ok h s \<Longrightarrow> ok h u \<Longrightarrow> sep s u \<Longrightarrow> del h s x = Some (h', s') \<Longrightarrow>
      els h' u = els h u \<and> ok h' u \<and> sep s' u"

text \<open>A Go map from keys to slices: a missing key reads as the nil slice.\<close>

definition slot :: "'s \<Rightarrow> ('k \<rightharpoonup> 's) \<Rightarrow> 'k \<Rightarrow> 's" where
  "slot nil T k = (case T k of None \<Rightarrow> nil | Some s \<Rightarrow> s)"

definition table_view :: "('h \<Rightarrow> 's \<Rightarrow> 'a list) \<Rightarrow> 'h \<Rightarrow> ('k \<rightharpoonup> 's) \<Rightarrow> 'k \<Rightarrow> 'a list" where
  "table_view els h T k = (case T k of None \<Rightarrow> [] | Some s \<Rightarrow> els h s)"

definition table_ok ::
  "('h \<Rightarrow> bool) \<Rightarrow> ('h \<Rightarrow> 's \<Rightarrow> bool) \<Rightarrow> ('s \<Rightarrow> 's \<Rightarrow> bool) \<Rightarrow> 'h \<Rightarrow> ('k \<rightharpoonup> 's) \<Rightarrow> bool" where
  "table_ok hok ok sep h T \<longleftrightarrow> hok h \<and> (\<forall>k s. T k = Some s \<longrightarrow> ok h s) \<and>
     (\<forall>k k' s s'. T k = Some s \<longrightarrow> T k' = Some s' \<longrightarrow> k \<noteq> k' \<longrightarrow> sep s s')"

lemma table_okD:
  "table_ok hok ok sep h T \<Longrightarrow> hok h"
  "table_ok hok ok sep h T \<Longrightarrow> T k = Some s \<Longrightarrow> ok h s"
  "table_ok hok ok sep h T \<Longrightarrow> T k = Some s \<Longrightarrow> T k' = Some s' \<Longrightarrow> k \<noteq> k' \<Longrightarrow> sep s s'"
  unfolding table_ok_def by blast+

lemma table_ok_empty: "hok h \<Longrightarrow> table_ok hok ok sep h Map.empty"
  by (simp add: table_ok_def)

lemma table_ok_delete:
  "table_ok hok ok sep h T \<Longrightarrow> table_ok hok ok sep h (T(k := None))"
  by (auto simp: table_ok_def)

lemma table_view_delete:
  "table_view els h (T(k := None)) = (table_view els h T)(k := [])"
  by (auto simp: table_view_def)

lemma table_view_empty [simp]: "table_view els h Map.empty = (\<lambda>_. [])"
  by (simp add: table_view_def fun_eq_iff)

context slice_ops begin

lemma els_slot: "els h (slot nil T k) = table_view els h T k"
  by (simp add: slot_def table_view_def els_nil split: option.split)

lemma slot_ok: "table_ok hok ok sep h T \<Longrightarrow> slot nil T k = nil \<or> ok h (slot nil T k)"
  by (auto simp: slot_def dest: table_okD split: option.split)

lemma slot_sep:
  "table_ok hok ok sep h T \<Longrightarrow> T k' = Some u \<Longrightarrow> k \<noteq> k' \<Longrightarrow> sep (slot nil T k) u"
  by (auto simp: slot_def intro: sep_nil dest: table_okD split: option.split)

lemma table_write:
  assumes "table_ok hok ok sep h T" "hok h'" "ok h' s'" "els h' s' = xs"
    and frame: "\<And>k' u. T k' = Some u \<Longrightarrow> k' \<noteq> k \<Longrightarrow> els h' u = els h u \<and> ok h' u \<and> sep s' u"
  shows "table_ok hok ok sep h' (T(k \<mapsto> s'))"
    and "table_view els h' (T(k \<mapsto> s')) = (table_view els h T)(k := xs)"
proof -
  show "table_ok hok ok sep h' (T(k \<mapsto> s'))"
    unfolding table_ok_def
  proof (intro conjI allI impI)
    fix k1 k2 s1 s2
    assume "(T(k \<mapsto> s')) k1 = Some s1" "(T(k \<mapsto> s')) k2 = Some s2" "k1 \<noteq> k2"
    then show "sep s1 s2"
      using frame sep_sym table_okD(3) [OF assms(1)] by (auto split: if_splits)
  qed (use assms(2,3) frame in \<open>auto split: if_splits\<close>)
  show "table_view els h' (T(k \<mapsto> s')) = (table_view els h T)(k := xs)"
    using frame assms(4) by (auto simp: table_view_def fun_eq_iff split: option.split)
qed

lemma table_app:
  assumes ok: "table_ok hok ok sep h T" and app: "app h (slot nil T k) x = (h', s')"
  shows "table_ok hok ok sep h' (T(k \<mapsto> s'))"
    and "table_view els h' (T(k \<mapsto> s')) =
      (table_view els h T)(k := table_view els h T k @ [x])"
proof -
  note hs = table_okD(1) [OF ok] slot_ok [OF ok, of k]
  have frame: "els h' u = els h u \<and> ok h' u \<and> sep s' u" if "T k' = Some u" "k' \<noteq> k" for k' u
    using app_frame [OF hs table_okD(2) [OF ok that(1)] slot_sep [OF ok that(1)] app] that(2)
    by blast
  have els': "els h' s' = table_view els h T k @ [x]"
    using app_els [OF hs app] by (simp add: els_slot)
  from app_ok [OF hs app] have "hok h'" "ok h' s'" by auto
  from table_write [OF ok this els' frame]
  show "table_ok hok ok sep h' (T(k \<mapsto> s'))"
    "table_view els h' (T(k \<mapsto> s')) = (table_view els h T)(k := table_view els h T k @ [x])"
    by auto
qed

lemma table_del:
  assumes ok: "table_ok hok ok sep h T" and T: "T k = Some s" and del: "del h s x = Some (h', s')"
  shows "table_ok hok ok sep h' (T(k \<mapsto> s'))"
    and "table_view els h' (T(k \<mapsto> s')) =
      (table_view els h T)(k := remove1 x (table_view els h T k))"
proof -
  note hs = table_okD(1) [OF ok] table_okD(2) [OF ok T]
  have frame: "els h' u = els h u \<and> ok h' u \<and> sep s' u" if "T k' = Some u" "k' \<noteq> k" for k' u
    using del_frame [OF hs table_okD(2) [OF ok that(1)] table_okD(3) [OF ok T that(1)] del] that(2)
    by blast
  have els': "els h' s' = remove1 x (table_view els h T k)"
    using del_els [OF hs del] T by (simp add: table_view_def)
  from del_ok [OF hs del] have "hok h'" "ok h' s'" by auto
  from table_write [OF ok this els' frame]
  show "table_ok hok ok sep h' (T(k \<mapsto> s'))"
    "table_view els h' (T(k \<mapsto> s')) = (table_view els h T)(k := remove1 x (table_view els h T k))"
    by auto
qed

end

lemma remove_first_elems:
  assumes "slice_ok h s" "remove_first h s x = Some (h', s')"
  shows "elems h' s' = remove1 x (elems h s)"
proof -
  from assms obtain i
    where i: "find_index x (elems h s) = Some i" "i < len s" "delete_at h s i = (h', s')"
    by (rule remove_first_cases)
  show ?thesis
    using delete_at_elems [OF assms(1) i(2,3)] find_index_remove1 [OF i(1)] by simp
qed

text \<open>What an older slice of the same array sees when the first element is removed.\<close>

lemma remove_head_elems:
  assumes ok: "slice_ok h s" and el: "elems h s = d # ws" and rm: "remove_first h s d = Some (h', s')"
  shows "elems h' s = ws @ [last (d # ws)]"
proof -
  let ?a = "mem h (arr s)"
  have len: "len s = Suc (length ws)" using length_elems [OF ok] el by simp
  have l: "length ws < length ?a" using ok len by (simp add: slice_ok_def)
  have a: "?a = d # ws @ drop (len s) ?a"
    using el append_take_drop_id [of "len s" ?a] by (simp add: elems_def)
  have "elems h' s = take (len s) (take (length ws) (drop 1 ?a) @ drop (length ws) ?a)"
    using rm el len by (auto simp: remove_first_def delete_at_def Let_def elems_def)
  also have "take (length ws) (drop 1 ?a) = ws" by (subst a) simp
  also have "drop (length ws) ?a = last (d # ws) # drop (len s) ?a"
    using l len Cons_nth_drop_Suc [OF l] a
    by (metis append_Cons last_conv_nth length_Cons lessI list.distinct(1) nth_append diff_Suc_1)
  finally show ?thesis by (simp add: len)
qed

lemma remove_first_ok:
  "heap_ok h \<Longrightarrow> slice_ok h s \<Longrightarrow> remove_first h s x = Some (h', s') \<Longrightarrow> heap_ok h' \<and> slice_ok h' s'"
  using delete_at_ok by (blast elim: remove_first_cases)

lemma remove_first_frame:
  "slice_ok h s \<Longrightarrow> slice_ok h u \<Longrightarrow> apart s u \<Longrightarrow> remove_first h s x = Some (h', s') \<Longrightarrow>
   elems h' u = elems h u \<and> slice_ok h' u \<and> apart s' u"
  using delete_at_frame by (blast elim: remove_first_cases)

interpretation gs: slice_ops heap_ok slice_ok apart elems nil_slice "go_append z spare" remove_first
  for z :: 'a and spare :: "nat \<Rightarrow> nat"
proof (unfold_locales, goal_cases)
  case (2 h s) then show ?case by (simp add: slice_defs)
next
  case 4 then show ?case by (rule go_append_elems)
next
  case 5 then show ?case by (rule go_append_ok)
next
  case 6 then show ?case by (rule go_append_frame)
next
  case 8 then show ?case by (intro remove_first_elems)
next
  case 9 then show ?case by (rule remove_first_ok)
next
  case 10 then show ?case by (intro remove_first_frame)
qed (simp_all add: apart_def)

end
