(* ===== verification/Registry.thy ===== *)
theory Registry
  imports Go_Slice
begin

text \<open>
  The service-discovery center, \<open>discover/server.go\<close>.

  \<open>service\<close> is the struct \<open>Service\<close>: three Go maps to slices and the map of RPC clients,
  plus the heap that holds the slices' backing arrays. The functions that run under
  \<open>s.lock\<close> are \<open>register_commit\<close>, \<open>discover_subscribe\<close>, \<open>remove_subscriber\<close> and
  \<open>unhealthy_commit\<close>; the handlers \<open>register\<close>, \<open>discover\<close>, \<open>notify_subscribers\<close>,
  \<open>handle_unhealthy\<close> and \<open>perform_health_check\<close> compose them as the code does.

  What the environment decides is an argument: the peer of the call, whether a connection can
  be made (\<open>dial_ok\<close>), whether a client answers a ping (\<open>ping\<close>), the order in which Go walks a
  map (\<open>order\<close>) and the room \<open>append\<close> leaves (\<open>spare\<close>). The goroutines that deliver
  notifications are the list of calls a handler returns; \<open>finish_call\<close> is what each does to the
  service when its RPC has ended. Logging is left out.
\<close>

section \<open>State\<close>

datatype client = ClientClient string

record notify_req =
  nr_type :: string
  nr_server :: string
  nr_addr :: string

record service =
  sNameToSAddr :: "string \<rightharpoonup> slice"
  sAddrToSNames :: "string \<rightharpoonup> string list"
  sNameToDAddr :: "string \<rightharpoonup> slice"
  addrStore :: "string \<rightharpoonup> client"
  hp :: "string heap"

definition new_service :: service where
  "new_service = \<lparr>sNameToSAddr = Map.empty, sAddrToSNames = Map.empty,
     sNameToDAddr = Map.empty, addrStore = Map.empty, hp = empty_heap\<rparr>"

datatype peer = NoPeer | TcpPeer string | OtherPeer

text \<open>The address of a caller: its IP when the peer is a TCP address, with the port it sent.\<close>

fun caller_addr :: "string \<Rightarrow> peer \<Rightarrow> string option" where
  "caller_addr port NoPeer = None"
| "caller_addr port (TcpPeer ip) = Some (''['' @ ip @ '']'' @ port)"
| "caller_addr port OtherPeer = Some port"

type_synonym call = "client \<times> string \<times> notify_req"

section \<open>Subscribers\<close>

definition remove_subscriber :: "string \<Rightarrow> string \<Rightarrow> service \<Rightarrow> service" where
  "remove_subscriber serverName subscriberAddr s =
     (let subscribers = slot nil_slice (sNameToDAddr s) serverName in
      case remove_first (hp s) subscribers subscriberAddr of
        None \<Rightarrow> s
      | Some (h', sl) \<Rightarrow> s\<lparr>hp := h', sNameToDAddr := (sNameToDAddr s)(serverName \<mapsto> sl)\<rparr>)"

text \<open>
  \<open>for _, subscriberAddr := range subscribers\<close>: the slice's length is read once, its elements
  are read from the backing array as the loop reaches them. The first argument counts the
  iterations left.
\<close>

fun notify_loop :: "nat \<Rightarrow> nat \<Rightarrow> slice \<Rightarrow> notify_req \<Rightarrow> service \<Rightarrow> service \<times> call list" where
  "notify_loop 0 i subscribers req s = (s, [])"
| "notify_loop (Suc k) i subscribers req s =
     (let subscriberAddr = read_at (hp s) subscribers i in
      case addrStore s subscriberAddr of
        None \<Rightarrow> notify_loop k (i + 1) subscribers req
                 (remove_subscriber (nr_server req) subscriberAddr s)
      | Some client \<Rightarrow>
          (let (s', calls) = notify_loop k (i + 1) subscribers req s
           in (s', (client, subscriberAddr, req) # calls)))"

definition notify_subscribers :: "notify_req \<Rightarrow> service \<Rightarrow> service \<times> call list" where
  "notify_subscribers req s =
     (let subscribers = slot nil_slice (sNameToDAddr s) (nr_server req) in
      if len subscribers = 0 then (s, []) else notify_loop (len subscribers) 0 subscribers req s)"

fun notify_all :: "string \<Rightarrow> string \<Rightarrow> string list \<Rightarrow> service \<Rightarrow> service \<times> call list" where
  "notify_all typ addr [] s = (s, [])"
| "notify_all typ addr (serverName # names) s =
     (let (s1, calls1) = notify_subscribers
            \<lparr>nr_type = typ, nr_server = serverName, nr_addr = addr\<rparr> s;
          (s2, calls2) = notify_all typ addr names s1
      in (s2, calls1 @ calls2))"

text \<open>The body of a notification's goroutine, after its RPC.\<close>

fun finish_call :: "bool \<Rightarrow> call \<Rightarrow> service \<Rightarrow> service" where
  "finish_call ok (client, addr, req) s =
     (if ok then s else remove_subscriber (nr_server req) addr s)"

section \<open>Register\<close>

definition add_name :: "(nat \<Rightarrow> nat) \<Rightarrow> string \<Rightarrow> string \<Rightarrow> service \<Rightarrow> service" where
  "add_name spare clientAddr serverName s =
     (let addrs = slot nil_slice (sNameToSAddr s) serverName in
      if list_ex (\<lambda>addr. addr = clientAddr) (elems (hp s) addrs) then s
      else (let (h', sl) = go_append '''' spare (hp s) addrs clientAddr
            in s\<lparr>hp := h', sNameToSAddr := (sNameToSAddr s)(serverName \<mapsto> sl)\<rparr>))"

definition register_commit :: "(nat \<Rightarrow> nat) \<Rightarrow> string \<Rightarrow> string list \<Rightarrow> service \<Rightarrow> service" where
  "register_commit spare clientAddr servers s =
     (let s1 = s\<lparr>addrStore := (addrStore s)(clientAddr \<mapsto> ClientClient clientAddr)\<rparr>;
          s2 = fold (add_name spare clientAddr) servers s1
      in s2\<lparr>sAddrToSNames := (sAddrToSNames s2)(clientAddr \<mapsto> servers)\<rparr>)"

datatype reg_result = RegOk | RegNoPeer | RegFatal

definition register ::
  "(nat \<Rightarrow> nat) \<Rightarrow> peer \<Rightarrow> bool \<Rightarrow> string \<Rightarrow> string list \<Rightarrow> service \<Rightarrow> service \<times> reg_result \<times> call list"
  where
  "register spare p dial_ok port servers s =
     (case caller_addr port p of
        None \<Rightarrow> (s, RegNoPeer, [])
      | Some clientAddr \<Rightarrow>
          if \<not> dial_ok then (s, RegFatal, [])
          else (let (s', calls) = notify_all ''register'' clientAddr servers
                      (register_commit spare clientAddr servers s)
                in (s', RegOk, calls)))"

section \<open>Discover\<close>

definition discover_lookup :: "string \<Rightarrow> service \<Rightarrow> slice" where
  "discover_lookup server s = slot nil_slice (sNameToSAddr s) server"

definition discover_subscribe :: "(nat \<Rightarrow> nat) \<Rightarrow> string \<Rightarrow> string \<Rightarrow> service \<Rightarrow> service" where
  "discover_subscribe spare server clientAddr s =
     (let subscribers = slot nil_slice (sNameToDAddr s) server in
      if list_ex (\<lambda>subscriber. subscriber = clientAddr) (elems (hp s) subscribers) then s
      else (let (h', sl) = go_append '''' spare (hp s) subscribers clientAddr
            in s\<lparr>hp := h', sNameToDAddr := (sNameToDAddr s)(server \<mapsto> sl)\<rparr>))"

definition discover_copy :: "slice \<Rightarrow> service \<Rightarrow> string list" where
  "discover_copy sAddr s = elems (hp s) sAddr"

datatype disc_result = DiscNoPeer | ErrServerNotFind | DiscOk string "string list"

definition discover ::
  "(nat \<Rightarrow> nat) \<Rightarrow> peer \<Rightarrow> string \<Rightarrow> string \<Rightarrow> service \<Rightarrow> service \<times> disc_result" where
  "discover spare p port server s =
     (case caller_addr port p of
        None \<Rightarrow> (s, DiscNoPeer)
      | Some clientAddr \<Rightarrow>
          (let sAddr = discover_lookup server s in
           if len sAddr = 0 then (s, ErrServerNotFind)
           else (let s' = discover_subscribe spare server clientAddr s
                 in (s', DiscOk server (discover_copy sAddr s')))))"

section \<open>Health checks\<close>

definition drop_name :: "string \<Rightarrow> string \<Rightarrow> service \<Rightarrow> service" where
  "drop_name addr serviceName s =
     (let addrs = slot nil_slice (sNameToSAddr s) serviceName;
          s1 = (case remove_first (hp s) addrs addr of
                  None \<Rightarrow> s
                | Some (h', sl) \<Rightarrow>
                    s\<lparr>hp := h', sNameToSAddr := (sNameToSAddr s)(serviceName \<mapsto> sl)\<rparr>)
      in if len (slot nil_slice (sNameToSAddr s1) serviceName) = 0
         then s1\<lparr>sNameToSAddr := (sNameToSAddr s1)(serviceName := None)\<rparr>
         else s1)"

definition service_names :: "string \<Rightarrow> service \<Rightarrow> string list" where
  "service_names addr s = (case sAddrToSNames s addr of None \<Rightarrow> [] | Some ns \<Rightarrow> ns)"

definition unhealthy_commit :: "string \<Rightarrow> service \<Rightarrow> service" where
  "unhealthy_commit addr s =
     (let serviceNames = service_names addr s;
          s1 = (case addrStore s addr of
                  None \<Rightarrow> s
                | Some client \<Rightarrow> s\<lparr>addrStore := (addrStore s)(addr := None)\<rparr>);
          s2 = fold (drop_name addr) serviceNames s1
      in s2\<lparr>sAddrToSNames := (sAddrToSNames s2)(addr := None)\<rparr>)"

definition handle_unhealthy :: "string \<Rightarrow> service \<Rightarrow> service \<times> call list" where
  "handle_unhealthy addr s =
     notify_all ''del'' addr (service_names addr s) (unhealthy_commit addr s)"

definition is_service_healthy :: "(client \<Rightarrow> bool) \<Rightarrow> string \<Rightarrow> service \<Rightarrow> bool" where
  "is_service_healthy ping addr s =
     (case addrStore s addr of None \<Rightarrow> False | Some client \<Rightarrow> ping client)"

fun perform_health_check ::
  "(client \<Rightarrow> bool) \<Rightarrow> string list \<Rightarrow> service \<Rightarrow> service \<times> call list" where
  "perform_health_check ping [] s = (s, [])"
| "perform_health_check ping (addr # order) s =
     (let (s1, calls1) = (if \<not> is_service_healthy ping addr s then handle_unhealthy addr s
                          else (s, []));
          (s2, calls2) = perform_health_check ping order s1
      in (s2, calls1 @ calls2))"

section \<open>The life of the center\<close>

text \<open>
  \<open>startHealthCheck\<close>: one pass per tick of its ticker. A tick comes with what the clients then answer
  and the order in which the map is walked; the requests between two ticks are not part of it.
\<close>

fun startHealthCheck :: "((client \<Rightarrow> bool) \<times> string list) list \<Rightarrow> service \<Rightarrow> service \<times> call list" where
  "startHealthCheck [] s = (s, [])"
| "startHealthCheck ((ping, order) # ticks) s =
     (let (s1, calls1) = perform_health_check ping order s;
          (s2, calls2) = startHealthCheck ticks s1
      in (s2, calls1 @ calls2))"

text \<open>
  \<open>Run\<close>: an address that cannot be listened on is its error; otherwise an empty service is served,
  \<open>life\<close> being what its requests and health checks do to it, until \<open>Serve\<close> returns, whose error panics.
\<close>

definition Run_center ::
  "string option \<Rightarrow> (service \<Rightarrow> service) \<Rightarrow> string option \<Rightarrow> (string option \<times> service option) outcome" where
  "Run_center listen_err life serve_err =
     (case listen_err of
        Some e \<Rightarrow> Return (Some e, None)
      | None \<Rightarrow>
          (let s = life new_service in
           case serve_err of Some e \<Rightarrow> Panic e | None \<Rightarrow> Return (None, Some s)))"

end
