(* ===== verification/Registry_Spec.thy ===== *)
theory Registry_Spec
  imports Registry
begin

text \<open>
  What the discovery center promises, and that \<^theory_text>\<open>Registry\<close> implements it.

  \<open>registry\<close> is the center without slices: providers and watchers of a name as lists, the
  names an address registered, the connected addresses. \<open>abs_svc\<close> reads a \<open>service\<close> as a
  \<open>registry\<close>. Each operation under the lock has a specification on registries (\<open>spec_\<dots>\<close>)
  and a refinement lemma \<open>abs_svc (f s) = spec_f (abs_svc s)\<close>, valid while no two map entries share a
  backing array (\<open>svc_ok\<close>). The invariant \<open>registry_ok\<close> is proved on registries and carried
  to every state that any interleaving of the critical sections reaches (\<open>svc_step\<close>).
\<close>

section \<open>Specification\<close>

record registry =
  providers :: "string \<Rightarrow> string list"
  watchers :: "string \<Rightarrow> string list"
  names_of :: "string \<rightharpoonup> string list"
  connected :: "string \<rightharpoonup> client"

definition tables :: "service \<Rightarrow> string + string \<rightharpoonup> slice" where
  "tables s = case_sum (sNameToSAddr s) (sNameToDAddr s)"

definition svc_ok :: "service \<Rightarrow> bool" where
  "svc_ok s \<longleftrightarrow> table_ok heap_ok slice_ok apart (hp s) (tables s)"

definition abs_svc :: "service \<Rightarrow> registry" where
  "abs_svc s = \<lparr>providers = (\<lambda>n. table_view elems (hp s) (tables s) (Inl n)),
            watchers = (\<lambda>n. table_view elems (hp s) (tables s) (Inr n)),
            names_of = sAddrToSNames s, connected = addrStore s\<rparr>"

definition spec_add :: "'a \<Rightarrow> 'k \<Rightarrow> ('k \<Rightarrow> 'a list) \<Rightarrow> 'k \<Rightarrow> 'a list" where
  "spec_add x k V = (if x \<in> set (V k) then V else V(k := V k @ [x]))"

definition spec_del :: "'a \<Rightarrow> 'k \<Rightarrow> ('k \<Rightarrow> 'a list) \<Rightarrow> 'k \<Rightarrow> 'a list" where
  "spec_del x k V = V(k := remove1 x (V k))"

definition spec_register :: "string \<Rightarrow> string list \<Rightarrow> registry \<Rightarrow> registry" where
  "spec_register addr servers R =
     R\<lparr>providers := fold (spec_add addr) servers (providers R),
       names_of := (names_of R)(addr \<mapsto> servers),
       connected := (connected R)(addr \<mapsto> ClientClient addr)\<rparr>"

definition spec_subscribe :: "string \<Rightarrow> string \<Rightarrow> registry \<Rightarrow> registry" where
  "spec_subscribe server addr R = R\<lparr>watchers := spec_add addr server (watchers R)\<rparr>"

definition spec_unsubscribe :: "string \<Rightarrow> string \<Rightarrow> registry \<Rightarrow> registry" where
  "spec_unsubscribe server addr R = R\<lparr>watchers := spec_del addr server (watchers R)\<rparr>"

definition spec_evict :: "string \<Rightarrow> registry \<Rightarrow> registry" where
  "spec_evict addr R =
     R\<lparr>providers := fold (spec_del addr)
         (case names_of R addr of None \<Rightarrow> [] | Some ns \<Rightarrow> ns) (providers R),
       names_of := (names_of R)(addr := None),
       connected := (connected R)(addr := None)\<rparr>"

definition registry_ok :: "registry \<Rightarrow> bool" where
  "registry_ok R \<longleftrightarrow>
     (\<forall>n. distinct (providers R n)) \<and> (\<forall>n. distinct (watchers R n)) \<and>
     (\<forall>a ns. names_of R a = Some ns \<longrightarrow> (\<forall>n \<in> set ns. a \<in> set (providers R n))) \<and>
     dom (connected R) = dom (names_of R) \<and>
     (\<forall>a c. connected R a = Some c \<longrightarrow> c = ClientClient a)"

section \<open>Facts about the specification\<close>

lemma fold_spec_add:
  "fold (spec_add x) ks V k = (if k \<in> set ks \<and> x \<notin> set (V k) then V k @ [x] else V k)"
  by (induction ks arbitrary: V) (auto simp: spec_add_def)

lemma fold_spec_del:
  "distinct (V k) \<Longrightarrow>
   fold (spec_del x) ks V k = (if k \<in> set ks then filter (\<lambda>y. y \<noteq> x) (V k) else V k)"
proof (induction ks arbitrary: V)
  case (Cons j ks)
  then show ?case
    by (cases "j = k") (auto simp: spec_del_def distinct_remove1_removeAll removeAll_filter_not_eq
        fun_upd_def intro: filter_cong)
qed simp

lemma spec_evict_providers:
  "distinct (providers R n) \<Longrightarrow> providers (spec_evict a R) n =
     (if \<exists>ns. names_of R a = Some ns \<and> n \<in> set ns
      then filter (\<lambda>b. b \<noteq> a) (providers R n) else providers R n)"
  by (auto simp: spec_evict_def fold_spec_del split: option.split)

lemma registry_ok_register: "registry_ok R \<Longrightarrow> registry_ok (spec_register a ns R)"
  by (auto simp: registry_ok_def spec_register_def fold_spec_add)

lemma registry_ok_subscribe: "registry_ok R \<Longrightarrow> registry_ok (spec_subscribe n a R)"
  by (auto simp: registry_ok_def spec_subscribe_def spec_add_def)

lemma registry_ok_unsubscribe: "registry_ok R \<Longrightarrow> registry_ok (spec_unsubscribe n a R)"
  by (auto simp: registry_ok_def spec_unsubscribe_def spec_del_def)

lemma registry_ok_evict:
  assumes "registry_ok R"
  shows "registry_ok (spec_evict a R)"
proof -
  have d: "distinct (providers R n)" for n using assms by (simp add: registry_ok_def)
  have "watchers (spec_evict a R) = watchers R" "dom (connected (spec_evict a R)) = dom (connected R) - {a}"
    "names_of (spec_evict a R) = (names_of R)(a := None)"
    "connected (spec_evict a R) = (connected R)(a := None)"
    by (auto simp: spec_evict_def)
  with assms show ?thesis
    by (auto simp: registry_ok_def spec_evict_providers [OF d] split: if_splits)
qed

section \<open>Refinement\<close>

lemma tables_update [simp]:
  "tables (s\<lparr>hp := h\<rparr>) = tables s"
  "tables (s\<lparr>addrStore := st\<rparr>) = tables s"
  "tables (s\<lparr>sAddrToSNames := m\<rparr>) = tables s"
  "tables (s\<lparr>sNameToSAddr := (sNameToSAddr s)(n := None)\<rparr>) = (tables s)(Inl n := None)"
  "tables (s\<lparr>hp := h, sNameToSAddr := (sNameToSAddr s)(n \<mapsto> sl)\<rparr>) = (tables s)(Inl n \<mapsto> sl)"
  "tables (s\<lparr>hp := h, sNameToDAddr := (sNameToDAddr s)(n \<mapsto> sl)\<rparr>) = (tables s)(Inr n \<mapsto> sl)"
  by (simp_all add: tables_def)

lemma tables_apply [simp]:
  "tables s (Inl n) = sNameToSAddr s n" "tables s (Inr n) = sNameToDAddr s n"
  by (simp_all add: tables_def)

lemma slot_tables:
  "slot nil_slice (sNameToSAddr s) n = slot nil_slice (tables s) (Inl n)"
  "slot nil_slice (sNameToDAddr s) n = slot nil_slice (tables s) (Inr n)"
  by (simp_all add: slot_def)

lemma view_fun_upd:
  "(\<lambda>n. (V(Inl k := xs)) (Inl n)) = (\<lambda>n. V (Inl n))(k := xs)"
  "(\<lambda>n. (V(Inl k := xs)) (Inr n)) = (\<lambda>n. V (Inr n))"
  "(\<lambda>n. (V(Inr k := xs)) (Inr n)) = (\<lambda>n. V (Inr n))(k := xs)"
  "(\<lambda>n. (V(Inr k := xs)) (Inl n)) = (\<lambda>n. V (Inl n))"
  by (auto simp: fun_eq_iff)

lemma svc_ok_new [simp]: "svc_ok new_service"
  by (simp add: svc_ok_def tables_def new_service_def table_ok_def split: sum.split)

lemma svc_ok_update [simp]:
  "svc_ok (s\<lparr>addrStore := st\<rparr>) = svc_ok s" "svc_ok (s\<lparr>sAddrToSNames := m\<rparr>) = svc_ok s"
  by (simp_all add: svc_ok_def)

lemma abs_svc_update [simp]:
  "abs_svc (s\<lparr>addrStore := st\<rparr>) = abs_svc s\<lparr>connected := st\<rparr>"
  "abs_svc (s\<lparr>sAddrToSNames := m\<rparr>) = abs_svc s\<lparr>names_of := m\<rparr>"
  by (simp_all add: abs_svc_def)

lemma abs_svc_select [simp]:
  "connected (abs_svc s) = addrStore s" "names_of (abs_svc s) = sAddrToSNames s"
  by (simp_all add: abs_svc_def)

lemma elems_slot [simp]:
  "elems (hp s) (slot nil_slice (sNameToSAddr s) n) = providers (abs_svc s) n"
  "elems (hp s) (slot nil_slice (sNameToDAddr s) n) = watchers (abs_svc s) n"
  by (simp_all add: slot_tables gs.els_slot abs_svc_def)

lemma slot_slice_ok:
  "svc_ok s \<Longrightarrow> slot nil_slice (tables s) k = nil_slice \<or> slice_ok (hp s) (slot nil_slice (tables s) k)"
  unfolding svc_ok_def by (rule gs.slot_ok)

lemma len_slot:
  assumes "svc_ok s"
  shows "len (slot nil_slice (sNameToSAddr s) n) = length (providers (abs_svc s) n)"
    "len (slot nil_slice (sNameToDAddr s) n) = length (watchers (abs_svc s) n)"
proof -
  have *: "len sl = length (elems (hp s) sl)" if "sl = nil_slice \<or> slice_ok (hp s) sl" for sl
    using that by (auto simp: length_elems)
  show "len (slot nil_slice (sNameToSAddr s) n) = length (providers (abs_svc s) n)"
    "len (slot nil_slice (sNameToDAddr s) n) = length (watchers (abs_svc s) n)"
    using * [OF slot_slice_ok [OF assms, of "Inl n"]] * [OF slot_slice_ok [OF assms, of "Inr n"]]
    by (simp_all flip: slot_tables)
qed

subsection \<open>The critical sections\<close>

lemma add_name_eq:
  "a \<notin> set (providers (abs_svc s) n) \<Longrightarrow>
   go_append '''' spare (hp s) (slot nil_slice (tables s) (Inl n)) a = (h', sl) \<Longrightarrow>
   add_name spare a n s = s\<lparr>hp := h', sNameToSAddr := (sNameToSAddr s)(n \<mapsto> sl)\<rparr>"
  by (auto simp: add_name_def list_ex_iff simp flip: slot_tables)

lemma subscribe_eq:
  "a \<notin> set (watchers (abs_svc s) n) \<Longrightarrow>
   go_append '''' spare (hp s) (slot nil_slice (tables s) (Inr n)) a = (h', sl) \<Longrightarrow>
   discover_subscribe spare n a s = s\<lparr>hp := h', sNameToDAddr := (sNameToDAddr s)(n \<mapsto> sl)\<rparr>"
  by (auto simp: discover_subscribe_def list_ex_iff simp flip: slot_tables)

lemma add_name_refines:
  assumes "svc_ok s"
  shows "svc_ok (add_name spare a n s) \<and>
    abs_svc (add_name spare a n s) = abs_svc s\<lparr>providers := spec_add a n (providers (abs_svc s))\<rparr>"
proof (cases "a \<in> set (providers (abs_svc s) n)")
  case True
  with assms show ?thesis by (auto simp: add_name_def spec_add_def list_ex_iff)
next
  case False
  obtain h' sl where app: "go_append '''' spare (hp s) (slot nil_slice (tables s) (Inl n)) a = (h', sl)"
    by (metis surj_pair)
  show ?thesis
    using gs.table_app [OF assms [unfolded svc_ok_def] app] False
    by (auto simp: add_name_eq [OF False app] svc_ok_def abs_svc_def view_fun_upd spec_add_def)
qed

lemma subscribe_refines:
  assumes "svc_ok s"
  shows "svc_ok (discover_subscribe spare n a s) \<and>
    abs_svc (discover_subscribe spare n a s) = spec_subscribe n a (abs_svc s)"
proof (cases "a \<in> set (watchers (abs_svc s) n)")
  case True
  with assms show ?thesis
    by (auto simp: discover_subscribe_def spec_subscribe_def spec_add_def list_ex_iff)
next
  case False
  obtain h' sl where app: "go_append '''' spare (hp s) (slot nil_slice (tables s) (Inr n)) a = (h', sl)"
    by (metis surj_pair)
  show ?thesis
    using gs.table_app [OF assms [unfolded svc_ok_def] app] False
    by (auto simp: subscribe_eq [OF False app] svc_ok_def abs_svc_def view_fun_upd spec_subscribe_def spec_add_def)
qed

lemma slot_remove_first:
  assumes "remove_first h (slot nil_slice T k) a = Some (h', sl)"
  obtains sl0 where "T k = Some sl0" "remove_first h sl0 a = Some (h', sl)"
  using assms by (auto simp: slot_def remove_first_def split: option.splits)

lemma remove_subscriber_refines:
  assumes "svc_ok s"
  shows "svc_ok (remove_subscriber n a s) \<and>
    abs_svc (remove_subscriber n a s) = spec_unsubscribe n a (abs_svc s)"
proof (cases "remove_first (hp s) (slot nil_slice (tables s) (Inr n)) a")
  case None
  then have "remove_subscriber n a s = s"
    by (simp add: remove_subscriber_def slot_tables del: remove_first_None)
  moreover have "a \<notin> set (watchers (abs_svc s) n)"
    using None by (simp flip: slot_tables)
  ultimately show ?thesis
    using assms by (simp add: spec_unsubscribe_def spec_del_def remove1_idem)
next
  case (Some hs)
  then obtain h' sl where rf: "remove_first (hp s) (slot nil_slice (tables s) (Inr n)) a = Some (h', sl)"
    by (cases hs) auto
  then obtain sl0 where "tables s (Inr n) = Some sl0" "remove_first (hp s) sl0 a = Some (h', sl)"
    by (rule slot_remove_first)
  from gs.table_del [OF assms [unfolded svc_ok_def] this] rf show ?thesis
    by (auto simp: remove_subscriber_def slot_tables svc_ok_def abs_svc_def view_fun_upd
        spec_unsubscribe_def spec_del_def)
qed

lemma table_ok_drop_nil:
  assumes "svc_ok s"
  shows "svc_ok (s\<lparr>sNameToSAddr := (sNameToSAddr s)(n := None)\<rparr>)"
    and "providers (abs_svc s) n = [] \<Longrightarrow>
      abs_svc (s\<lparr>sNameToSAddr := (sNameToSAddr s)(n := None)\<rparr>) = abs_svc s"
  using assms by (auto simp: svc_ok_def table_ok_delete abs_svc_def table_view_delete view_fun_upd)

lemma drop_name_refines:
  assumes "svc_ok s"
  shows "svc_ok (drop_name a n s) \<and>
    abs_svc (drop_name a n s) = abs_svc s\<lparr>providers := spec_del a n (providers (abs_svc s))\<rparr>"
proof -
  define s1 where "s1 = (case remove_first (hp s) (slot nil_slice (tables s) (Inl n)) a of
      None \<Rightarrow> s | Some (h', sl) \<Rightarrow> s\<lparr>hp := h', sNameToSAddr := (sNameToSAddr s)(n \<mapsto> sl)\<rparr>)"
  have r: "svc_ok s1 \<and> abs_svc s1 = abs_svc s\<lparr>providers := spec_del a n (providers (abs_svc s))\<rparr>"
  proof (cases "remove_first (hp s) (slot nil_slice (tables s) (Inl n)) a")
    case None
    then have "s1 = s" "a \<notin> set (providers (abs_svc s) n)"
      by (simp_all add: s1_def del: remove_first_None) (simp flip: slot_tables)
    with assms show ?thesis by (simp add: spec_del_def remove1_idem)
  next
    case (Some hs)
    then obtain h' sl where rf: "remove_first (hp s) (slot nil_slice (tables s) (Inl n)) a = Some (h', sl)"
      by (cases hs) auto
    then obtain sl0 where "tables s (Inl n) = Some sl0" "remove_first (hp s) sl0 a = Some (h', sl)"
      by (rule slot_remove_first)
    from gs.table_del [OF assms [unfolded svc_ok_def] this] rf show ?thesis
      by (auto simp: s1_def svc_ok_def abs_svc_def view_fun_upd spec_del_def)
  qed
  have d: "drop_name a n s = (if len (slot nil_slice (sNameToSAddr s1) n) = 0
      then s1\<lparr>sNameToSAddr := (sNameToSAddr s1)(n := None)\<rparr> else s1)"
    by (simp add: drop_name_def s1_def slot_tables Let_def)
  show ?thesis
    using r table_ok_drop_nil [of s1 n] by (auto simp: d len_slot)
qed

lemma fold_add_name_refines:
  "svc_ok s \<Longrightarrow> svc_ok (fold (add_name spare a) ns s) \<and>
   abs_svc (fold (add_name spare a) ns s) =
     abs_svc s\<lparr>providers := fold (spec_add a) ns (providers (abs_svc s))\<rparr>"
  by (induction ns arbitrary: s) (simp_all add: add_name_refines)

lemma fold_drop_name_refines:
  "svc_ok s \<Longrightarrow> svc_ok (fold (drop_name a) ns s) \<and>
   abs_svc (fold (drop_name a) ns s) =
     abs_svc s\<lparr>providers := fold (spec_del a) ns (providers (abs_svc s))\<rparr>"
  by (induction ns arbitrary: s) (simp_all add: drop_name_refines)

lemma register_commit_refines:
  assumes "svc_ok s"
  shows "svc_ok (register_commit spare a ns s) \<and>
    abs_svc (register_commit spare a ns s) = spec_register a ns (abs_svc s)"
proof -
  let ?s1 = "s\<lparr>addrStore := (addrStore s)(a \<mapsto> ClientClient a)\<rparr>"
  have "sAddrToSNames (fold (add_name spare a) ns ?s1) = sAddrToSNames s"
    using fold_add_name_refines [of ?s1 spare a ns] assms
    by (simp flip: abs_svc_select)
  then show ?thesis
    using fold_add_name_refines [of ?s1 spare a ns] assms
    by (simp add: register_commit_def Let_def spec_register_def)
qed

lemma unhealthy_commit_refines:
  assumes "svc_ok s"
  shows "svc_ok (unhealthy_commit a s) \<and> abs_svc (unhealthy_commit a s) = spec_evict a (abs_svc s)"
proof -
  let ?s1 = "s\<lparr>addrStore := (addrStore s)(a := None)\<rparr>"
  have s1: "(case addrStore s a of None \<Rightarrow> s
      | Some client \<Rightarrow> s\<lparr>addrStore := (addrStore s)(a := None)\<rparr>) = ?s1"
    by (auto split: option.split simp: fun_upd_idem)
  note f = fold_drop_name_refines [of ?s1 a "service_names a s"]
  have "names_of (abs_svc (fold (drop_name a) (service_names a s) ?s1)) = names_of (abs_svc s)"
    using f assms by simp
  then show ?thesis
    using f assms unfolding unhealthy_commit_def Let_def s1
    by (simp add: spec_evict_def service_names_def)
qed

end
