(* ===== verification/Registry_Props.thy ===== *)
theory Registry_Props
  imports Registry_Spec
begin

text \<open>
  The properties of the discovery center.

  \<open>svc_step\<close> has one rule per critical section, with any arguments: every interleaving of the
  handlers is one of its runs, because the sections are the only writes to the service. The
  interpretation \<open>reg\<close> of \<^theory_text>\<open>transition_invariant\<close> carries \<open>svc_inv\<close> to every
  reachable state. The rest of the theory is about whole handlers.
\<close>

section \<open>Interleavings\<close>

inductive svc_step :: "service \<Rightarrow> service \<Rightarrow> bool" where
  step_register: "svc_step s (register_commit spare a ns s)"
| step_subscribe: "svc_step s (discover_subscribe spare n a s)"
| step_unsubscribe: "svc_step s (remove_subscriber n a s)"
| step_evict: "svc_step s (unhealthy_commit a s)"

definition svc_inv :: "service \<Rightarrow> bool" where
  "svc_inv s \<longleftrightarrow> svc_ok s \<and> registry_ok (abs_svc s)"

lemma svc_invD:
  "svc_inv s \<Longrightarrow> svc_ok s" "svc_inv s \<Longrightarrow> distinct (providers (abs_svc s) n)"
  "svc_inv s \<Longrightarrow> distinct (watchers (abs_svc s) n)"
  "svc_inv s \<Longrightarrow> addrStore s a = Some c \<Longrightarrow> c = ClientClient a"
  "svc_inv s \<Longrightarrow> addrStore s a = None \<longleftrightarrow> sAddrToSNames s a = None"
  by (auto simp: svc_inv_def registry_ok_def) (metis domIff)+

named_theorems svc_refines "the critical sections against their specifications"

declare register_commit_refines [svc_refines] subscribe_refines [svc_refines]
  remove_subscriber_refines [svc_refines] unhealthy_commit_refines [svc_refines]

lemma svc_inv_sections:
  "svc_inv s \<Longrightarrow> svc_inv (register_commit spare a ns s)"
  "svc_inv s \<Longrightarrow> svc_inv (discover_subscribe spare n a s)"
  "svc_inv s \<Longrightarrow> svc_inv (remove_subscriber n a s)"
  "svc_inv s \<Longrightarrow> svc_inv (unhealthy_commit a s)"
  by (simp_all add: svc_inv_def svc_refines registry_ok_register registry_ok_subscribe
      registry_ok_unsubscribe registry_ok_evict)

lemma abs_svc_new [simp]: "abs_svc new_service =
  \<lparr>providers = (\<lambda>_. []), watchers = (\<lambda>_. []), names_of = Map.empty, connected = Map.empty\<rparr>"
  by (simp add: abs_svc_def tables_def new_service_def table_view_def)

lemma new_service_select [simp]:
  "addrStore new_service = Map.empty" "sAddrToSNames new_service = Map.empty"
  by (simp_all add: new_service_def)

lemma svc_inv_new [simp]: "svc_inv new_service"
  by (simp add: svc_inv_def registry_ok_def)

lemma svc_inv_step: "svc_inv s \<Longrightarrow> svc_step s t \<Longrightarrow> svc_inv t"
  by (auto simp: svc_inv_sections elim: svc_step.cases)

interpretation reg: transition_invariant "\<lambda>s. s = new_service" svc_step svc_inv
  by unfold_locales (auto intro: svc_inv_step)

section \<open>Notifications\<close>

lemma remove_subscriber_frame [simp]:
  "addrStore (remove_subscriber n a s) = addrStore s"
  "sAddrToSNames (remove_subscriber n a s) = sAddrToSNames s"
  "sNameToSAddr (remove_subscriber n a s) = sNameToSAddr s"
  by (auto simp: remove_subscriber_def split: option.split)

lemma remove_subscriber_views:
  assumes "svc_inv s"
  shows "providers (abs_svc (remove_subscriber n a s)) = providers (abs_svc s)"
    "set (watchers (abs_svc (remove_subscriber n a s)) m) \<subseteq> set (watchers (abs_svc s) m)"
  using assms set_remove1_subset [of a "watchers (abs_svc s) n"]
  by (auto simp: svc_inv_def svc_refines spec_unsubscribe_def spec_del_def)

definition quieter :: "service \<Rightarrow> service \<Rightarrow> bool" where
  "quieter s t \<longleftrightarrow> svc_inv t \<and> addrStore t = addrStore s \<and> sAddrToSNames t = sAddrToSNames s \<and>
     providers (abs_svc t) = providers (abs_svc s) \<and>
     (\<forall>m. set (watchers (abs_svc t) m) \<subseteq> set (watchers (abs_svc s) m))"

lemma quieter_refl: "svc_inv s \<Longrightarrow> quieter s s"
  by (simp add: quieter_def)

lemma quieter_trans: "quieter s t \<Longrightarrow> quieter t u \<Longrightarrow> quieter s u"
  unfolding quieter_def by (metis order_trans)

lemma quieter_remove: "svc_inv s \<Longrightarrow> quieter s (remove_subscriber n a s)"
  by (simp add: quieter_def svc_inv_sections remove_subscriber_views)

lemma quieter_loop: "svc_inv s \<Longrightarrow> notify_loop k i sl req s = (s', calls) \<Longrightarrow> quieter s s'"
proof (induction k i sl req s arbitrary: s' calls rule: notify_loop.induct)
  case (2 k i sl req s)
  show ?case
  proof (cases "addrStore s (read_at (hp s) sl i)")
    case None
    let ?s1 = "remove_subscriber (nr_server req) (read_at (hp s) sl i) s"
    from None "2.prems"(2) have "notify_loop k (i + 1) sl req ?s1 = (s', calls)"
      by (simp add: Let_def)
    from "2.IH"(1) [OF refl None svc_inv_sections(3) [OF "2.prems"(1)] this] show ?thesis
      by (rule quieter_trans [OF quieter_remove [OF "2.prems"(1)]])
  next
    case (Some c)
    with "2.prems"(2) obtain calls1 where "notify_loop k (i + 1) sl req s = (s', calls1)"
      by (auto simp: Let_def split: prod.splits)
    from "2.IH"(2) [OF refl Some "2.prems"(1) this] show ?thesis .
  qed
qed (simp add: quieter_refl)

lemma quieter_notify: "svc_inv s \<Longrightarrow> notify_subscribers req s = (s', calls) \<Longrightarrow> quieter s s'"
  by (auto simp: notify_subscribers_def Let_def quieter_refl quieter_loop split: if_splits)

lemma quieter_all: "svc_inv s \<Longrightarrow> notify_all typ a ns s = (s', calls) \<Longrightarrow> quieter s s'"
proof (induction ns arbitrary: s s' calls)
  case (Cons n ns)
  from Cons.prems(2) obtain s1 calls1 calls2 where
    1: "notify_subscribers \<lparr>nr_type = typ, nr_server = n, nr_addr = a\<rparr> s = (s1, calls1)" and
    2: "notify_all typ a ns s1 = (s', calls2)"
    by (auto simp: Let_def split: prod.splits)
  have q: "quieter s s1" by (rule quieter_notify [OF Cons.prems(1) 1])
  then have "svc_inv s1" by (simp add: quieter_def)
  from quieter_trans [OF q Cons.IH [OF this 2]] show ?case .
qed (simp add: quieter_refl)

text \<open>A pass of the loop in which every element it reads is connected.\<close>

lemma notify_loop_connected:
  assumes "svc_inv s" "\<And>j. i \<le> j \<Longrightarrow> j < i + k \<Longrightarrow> addrStore s (read_at (hp s) sl j) \<noteq> None"
  shows "notify_loop k i sl req s =
    (s, map (\<lambda>j. (ClientClient (read_at (hp s) sl j), read_at (hp s) sl j, req)) [i..<i + k])"
  using assms
proof (induction k arbitrary: i)
  case (Suc k)
  from Suc.prems(2) [of i] obtain c where c: "addrStore s (read_at (hp s) sl i) = Some c" by auto
  with svc_invD(4) [OF Suc.prems(1)] have "c = ClientClient (read_at (hp s) sl i)" by blast
  moreover have "notify_loop k (Suc i) sl req s =
      (s, map (\<lambda>j. (ClientClient (read_at (hp s) sl j), read_at (hp s) sl j, req)) [Suc i..<Suc i + k])"
    by (rule Suc.IH) (use Suc.prems in auto)
  ultimately show ?case using c by (simp add: Let_def upt_conv_Cons del: upt_Suc)
qed simp

lemma read_at_slot:
  assumes "svc_ok s" "j < length (watchers (abs_svc s) n)"
  shows "read_at (hp s) (slot nil_slice (sNameToDAddr s) n) j = watchers (abs_svc s) n ! j"
proof -
  have "slice_ok (hp s) (slot nil_slice (sNameToDAddr s) n)"
    using slot_slice_ok [OF assms(1), of "Inr n"] assms(2) len_slot(2) [OF assms(1), of n]
    by (auto simp flip: slot_tables)
  then show ?thesis using assms(2) by (simp add: read_at_elems len_slot(2) [OF assms(1)])
qed

lemma map_read_at_slot:
  assumes "svc_ok s" "n' = length (watchers (abs_svc s) n)"
  shows "map (\<lambda>j. f (read_at (hp s) (slot nil_slice (sNameToDAddr s) n) j)) [0..<n'] =
    map f (watchers (abs_svc s) n)"
  using assms by (auto intro!: nth_equalityI simp: read_at_slot)

lemma notify_subscribers_connected:
  assumes inv: "svc_inv s"
    and con: "\<forall>w \<in> set (watchers (abs_svc s) (nr_server req)). addrStore s w \<noteq> None"
  shows "notify_subscribers req s =
    (s, map (\<lambda>w. (ClientClient w, w, req)) (watchers (abs_svc s) (nr_server req)))"
proof -
  let ?W = "watchers (abs_svc s) (nr_server req)"
  let ?sl = "slot nil_slice (sNameToDAddr s) (nr_server req)"
  have ok: "svc_ok s" by (rule svc_invD(1) [OF inv])
  have "notify_loop (length ?W) 0 ?sl req s =
      (s, map (\<lambda>j. (ClientClient (read_at (hp s) ?sl j), read_at (hp s) ?sl j, req)) [0..<0 + length ?W])"
    using con by (intro notify_loop_connected [OF inv]) (auto simp: read_at_slot [OF ok])
  also have "\<dots> = (s, map (\<lambda>w. (ClientClient w, w, req)) ?W)"
    using map_read_at_slot [OF ok refl, of "\<lambda>w. (ClientClient w, w, req)"] by simp
  finally show ?thesis
    by (auto simp: notify_subscribers_def Let_def len_slot(2) [OF ok])
qed

lemma notify_all_connected:
  assumes "svc_inv s" "\<forall>n \<in> set ns. \<forall>w \<in> set (watchers (abs_svc s) n). addrStore s w \<noteq> None"
  shows "notify_all typ a ns s =
    (s, concat (map (\<lambda>n. map (\<lambda>w. (ClientClient w, w, \<lparr>nr_type = typ, nr_server = n, nr_addr = a\<rparr>))
      (watchers (abs_svc s) n)) ns))"
  using assms by (induction ns) (simp_all add: notify_subscribers_connected Let_def)

text \<open>A subscriber without a connection, met first: the removal moves the others down.\<close>

lemma remove_head_reads:
  assumes "svc_ok s" "watchers (abs_svc s) n = d # ws"
  defines "sl \<equiv> slot nil_slice (sNameToDAddr s) n"
  shows "j < length ws \<Longrightarrow> read_at (hp (remove_subscriber n d s)) sl j = ws ! j"
    and "read_at (hp (remove_subscriber n d s)) sl (length ws) = (d # ws) ! length ws"
proof -
  have len: "len sl = Suc (length ws)" using len_slot(2) [OF assms(1), of n] assms(2) by (simp add: sl_def)
  then have ok: "slice_ok (hp s) sl"
    using slot_slice_ok [OF assms(1), of "Inr n"] by (auto simp: sl_def simp flip: slot_tables)
  have el: "elems (hp s) sl = d # ws" using assms(2) by (simp add: sl_def)
  obtain h' sl' where rm: "remove_first (hp s) sl d = Some (h', sl')"
    using el by (auto simp: remove_first_def split: prod.split) (metis surj_pair)
  then have h': "hp (remove_subscriber n d s) = h'"
    by (simp add: remove_subscriber_def flip: sl_def)
  have el': "elems h' sl = ws @ [last (d # ws)]"
    by (rule remove_head_elems [OF ok el rm])
  have "read_at h' sl j = (ws @ [last (d # ws)]) ! j" if "j < Suc (length ws)" for j
    using that len unfolding read_at_def el' [symmetric] elems_def by simp
  then show "j < length ws \<Longrightarrow> read_at (hp (remove_subscriber n d s)) sl j = ws ! j"
    "read_at (hp (remove_subscriber n d s)) sl (length ws) = (d # ws) ! length ws"
    by (simp_all add: h' nth_append last_conv_nth)
qed

lemma notify_dead_head:
  assumes inv: "svc_inv s" and W: "watchers (abs_svc s) (nr_server req) = d # ws" "ws \<noteq> []"
    and dead: "addrStore s d = None" and con: "\<forall>w \<in> set ws. addrStore s w \<noteq> None"
  shows "notify_subscribers req s =
    (remove_subscriber (nr_server req) d s,
     map (\<lambda>w. (ClientClient w, w, req)) (tl ws @ [last ws]))"
proof -
  let ?sl = "slot nil_slice (sNameToDAddr s) (nr_server req)"
  let ?s1 = "remove_subscriber (nr_server req) d s"
  let ?call = "\<lambda>w. (ClientClient w, w, req)"
  have ok: "svc_ok s" by (rule svc_invD(1) [OF inv])
  note r = remove_head_reads [OF ok W(1)]
  have last: "(d # ws) ! length ws = last ws"
    using W(2) by (simp add: last_conv_nth nth_Cons' )
  have reads: "map (read_at (hp ?s1) ?sl) [1..<1 + length ws] = tl ws @ [last ws]"
  proof (rule nth_equalityI)
    fix j assume "j < length (map (read_at (hp ?s1) ?sl) [1..<1 + length ws])"
    then have "j < length ws" by (simp del: upt_Suc)
    then show "map (read_at (hp ?s1) ?sl) [1..<1 + length ws] ! j = (tl ws @ [last ws]) ! j"
      using r last by (cases "Suc j < length ws") (auto simp: nth_append nth_tl less_Suc_eq)
  qed (use W(2) in \<open>simp add: Suc_le_eq\<close>)
  have con1: "addrStore ?s1 (read_at (hp ?s1) ?sl j) \<noteq> None" if "1 \<le> j" "j < 1 + length ws" for j
  proof -
    have "read_at (hp ?s1) ?sl j \<in> set (map (read_at (hp ?s1) ?sl) [1..<1 + length ws])"
      using that by (auto simp del: upt_Suc)
    then have "read_at (hp ?s1) ?sl j \<in> set ws"
      unfolding reads using W(2) by (cases ws) auto
    then show ?thesis using con by simp
  qed
  have "notify_loop (length ws) 1 ?sl req ?s1 =
      (?s1, map (\<lambda>j. ?call (read_at (hp ?s1) ?sl j)) [1..<1 + length ws])"
    by (rule notify_loop_connected [OF svc_inv_sections(3) [OF inv] con1])
  also have "\<dots> = (?s1, map ?call (tl ws @ [last ws]))"
    by (simp only: reads [symmetric] map_map o_def)
  finally show ?thesis
    using read_at_slot [OF ok, of 0 "nr_server req"] dead
    by (simp add: notify_subscribers_def Let_def len_slot(2) [OF ok] W(1))
qed

section \<open>Health checks\<close>

definition tight :: "registry \<Rightarrow> bool" where
  "tight R \<longleftrightarrow> (\<forall>n. \<forall>a \<in> set (providers R n). \<exists>ns. names_of R a = Some ns \<and> n \<in> set ns)"

lemma tight_evict:
  assumes "registry_ok R" "tight R"
  shows "tight (spec_evict a R)"
proof -
  have d: "distinct (providers R n)" for n using assms(1) by (simp add: registry_ok_def)
  have "names_of (spec_evict a R) = (names_of R)(a := None)" by (simp add: spec_evict_def)
  then show ?thesis
    using assms(2) unfolding tight_def spec_evict_providers [OF d]
    by (smt (verit) fun_upd_other mem_Collect_eq set_filter)
qed

lemma handle_unhealthy_effect:
  assumes "svc_inv s" "handle_unhealthy a s = (s', calls)"
  shows "svc_inv s' \<and> addrStore s' = (addrStore s)(a := None) \<and>
    sAddrToSNames s' = (sAddrToSNames s)(a := None) \<and>
    providers (abs_svc s') = providers (spec_evict a (abs_svc s))"
proof -
  let ?s1 = "unhealthy_commit a s"
  have ok: "svc_ok s" by (rule svc_invD(1) [OF assms(1)])
  have r: "abs_svc ?s1 = spec_evict a (abs_svc s)" by (simp add: unhealthy_commit_refines [OF ok])
  then have "addrStore ?s1 = (addrStore s)(a := None)" "sAddrToSNames ?s1 = (sAddrToSNames s)(a := None)"
    by (simp_all add: spec_evict_def flip: abs_svc_select)
  moreover have "quieter ?s1 s'"
    using assms(2) by (intro quieter_all [OF svc_inv_sections(4) [OF assms(1)]])
      (simp add: handle_unhealthy_def)
  ultimately show ?thesis using r by (simp add: quieter_def)
qed

text \<open>An address without a connection is not in any list when the registry is tight, and stays
  out of reach of eviction when it is not.\<close>

lemma evict_keeps_others:
  "svc_inv s \<Longrightarrow> handle_unhealthy b s = (s', calls) \<Longrightarrow> a \<in> set (providers (abs_svc s) n) \<Longrightarrow>
   a \<noteq> b \<or> sAddrToSNames s b = None \<Longrightarrow> a \<in> set (providers (abs_svc s') n)"
  using handle_unhealthy_effect [of s b s' calls]
  by (auto simp: spec_evict_providers [OF svc_invD(2)])

lemma health_check_cons:
  assumes "perform_health_check ping (a # order) s = (s', calls)" "svc_inv s"
  obtains s1 calls1 calls2 where "perform_health_check ping order s1 = (s', calls2)"
    "calls = calls1 @ calls2" "svc_inv s1"
    "if is_service_healthy ping a s then s1 = s else handle_unhealthy a s = (s1, calls1)"
proof -
  obtain s1 calls1 where 1: "(if \<not> is_service_healthy ping a s then handle_unhealthy a s
      else (s, [])) = (s1, calls1)" by (metis surj_pair)
  moreover obtain calls2 where "perform_health_check ping order s1 = (s', calls2)" "calls = calls1 @ calls2"
    using assms(1) 1 by (auto simp: Let_def split: prod.splits)
  moreover have "svc_inv s1"
    using 1 handle_unhealthy_effect [OF assms(2), of a s1 calls1] assms(2) by (auto split: if_splits)
  ultimately show thesis using that by (auto split: if_splits)
qed

lemma health_check_stale:
  assumes "svc_inv s" "a \<in> set (providers (abs_svc s) n)" "addrStore s a = None"
    "perform_health_check ping order s = (s', calls)"
  shows "svc_inv s' \<and> a \<in> set (providers (abs_svc s') n) \<and> addrStore s' a = None"
  using assms
proof (induction order arbitrary: s calls)
  case (Cons b order)
  from Cons.prems(4,1) obtain s1 calls1 calls2
    where h: "perform_health_check ping order s1 = (s', calls2)" "calls = calls1 @ calls2" "svc_inv s1"
      "if is_service_healthy ping b s then s1 = s else handle_unhealthy b s = (s1, calls1)"
    by (rule health_check_cons)
  have "a \<in> set (providers (abs_svc s1) n) \<and> addrStore s1 a = None"
  proof (cases "is_service_healthy ping b s")
    case True
    with h(4) Cons.prems show ?thesis by simp
  next
    case False
    with h(4) have u: "handle_unhealthy b s = (s1, calls1)" by simp
    show ?thesis
      using Cons.prems handle_unhealthy_effect [OF Cons.prems(1) u]
        evict_keeps_others [OF Cons.prems(1) u Cons.prems(2)]
      by (cases "a = b") (auto simp: svc_invD(5))
  qed
  with Cons.IH [OF h(3) _ _ h(1)] show ?case by simp
qed simp

lemma health_check_effect:
  assumes "svc_inv s" "tight (abs_svc s)" "distinct order"
    "perform_health_check ping order s = (s', calls)"
  shows "svc_inv s' \<and> tight (abs_svc s') \<and>
    addrStore s' = (\<lambda>a. if a \<in> set order \<and> \<not> is_service_healthy ping a s then None else addrStore s a) \<and>
    (\<forall>n. providers (abs_svc s') n =
      filter (\<lambda>a. a \<notin> set order \<or> is_service_healthy ping a s) (providers (abs_svc s) n))"
  using assms
proof (induction order arbitrary: s calls)
  case Nil
  then show ?case by auto
next
  case (Cons b order)
  from Cons.prems(4,1) obtain s1 calls1 calls2
    where h: "perform_health_check ping order s1 = (s', calls2)" "calls = calls1 @ calls2" "svc_inv s1"
      "if is_service_healthy ping b s then s1 = s else handle_unhealthy b s = (s1, calls1)"
    by (rule health_check_cons)
  show ?case
  proof (cases "is_service_healthy ping b s")
    case True
    with h(4) have "s1 = s" by simp
    from Cons.IH [OF Cons.prems(1,2) _ h(1) [unfolded this]] Cons.prems(3) True
    show ?thesis by (auto intro!: filter_cong)
  next
    case False
    with h(4) have u: "handle_unhealthy b s = (s1, calls1)" by simp
    note eff = handle_unhealthy_effect [OF Cons.prems(1) u]
    have ok: "svc_ok s" "registry_ok (abs_svc s)" using Cons.prems(1) by (simp_all add: svc_inv_def)
    have prov: "providers (abs_svc s1) n = filter (\<lambda>a. a \<noteq> b) (providers (abs_svc s) n)" for n
      using eff Cons.prems(2)
      by (auto simp: spec_evict_providers [OF svc_invD(2) [OF Cons.prems(1)]] tight_def
          intro!: sym [OF filter_True] split: if_splits)
    have "tight (spec_evict b (abs_svc s))" by (rule tight_evict [OF ok(2) Cons.prems(2)])
    then have "tight (abs_svc s1)" using eff by (simp add: tight_def spec_evict_def)
    moreover have hl: "is_service_healthy ping a s1 \<longleftrightarrow> is_service_healthy ping a s" if "a \<noteq> b" for a
      using that eff by (simp add: is_service_healthy_def)
    moreover have "distinct order" using Cons.prems(3) by simp
    ultimately have IH: "svc_inv s' \<and> tight (abs_svc s')"
      "addrStore s' = (\<lambda>a. if a \<in> set order \<and> \<not> is_service_healthy ping a s1 then None else addrStore s1 a)"
      "providers (abs_svc s') n =
        filter (\<lambda>a. a \<notin> set order \<or> is_service_healthy ping a s1) (providers (abs_svc s1) n)" for n
      using Cons.IH [OF h(3) _ _ h(1)] by auto
    have "providers (abs_svc s') n = filter (\<lambda>a. a \<notin> set (b # order) \<or> is_service_healthy ping a s)
        (providers (abs_svc s) n)" for n
      unfolding IH(3) prov filter_filter
    proof (intro filter_cong refl)
      fix x
      show "x \<noteq> b \<and> (x \<notin> set order \<or> is_service_healthy ping x s1) \<longleftrightarrow>
          x \<notin> set (b # order) \<or> is_service_healthy ping x s"
        using hl [of x] False by (cases "x = b") auto
    qed
    moreover have "addrStore s' = (\<lambda>a. if a \<in> set (b # order) \<and> \<not> is_service_healthy ping a s
        then None else addrStore s a)"
      unfolding IH(2) using eff hl False by (auto simp: fun_eq_iff)
    ultimately show ?thesis using IH(1) by blast
  qed
qed

section \<open>A slice held across other critical sections\<close>

text \<open>
  Between its two critical sections a discovery call holds the slice it has looked up. \<open>held sl s\<close>:
  the slice is still backed, and no map entry uses its array beyond fewer elements than it has.
\<close>

inductive append_step :: "service \<Rightarrow> service \<Rightarrow> bool" where
  append_register: "append_step s (register_commit spare a ns s)"
| append_subscribe: "append_step s (discover_subscribe spare n a s)"

definition held :: "slice \<Rightarrow> service \<Rightarrow> bool" where
  "held sl s \<longleftrightarrow> sl = nil_slice \<or> (slice_ok (hp s) sl \<and>
     (\<forall>k u. tables s k = Some u \<longrightarrow> arr u = arr sl \<longrightarrow> len sl \<le> len u))"

lemma held_lookup: "svc_ok s \<Longrightarrow> held (discover_lookup n s) s"
proof -
  assume ok: "svc_ok s"
  have "len (discover_lookup n s) \<le> len u"
    if "tables s k = Some u" "arr u = arr (discover_lookup n s)" "slice_ok (hp s) (discover_lookup n s)" for k u
  proof (cases "k = Inl n")
    case True
    with that(1) show ?thesis by (simp add: discover_lookup_def slot_def)
  next
    case False
    with gs.slot_sep [OF ok [unfolded svc_ok_def] that(1), of "Inl n"] that(2) show ?thesis
      by (auto simp: apart_def discover_lookup_def slot_tables)
  qed
  with slot_slice_ok [OF ok, of "Inl n"] show ?thesis
    by (auto simp: held_def discover_lookup_def slot_tables)
qed

lemma held_append:
  assumes ok: "svc_ok s" and held: "held sl s"
    and app: "go_append z spare (hp s) (slot nil_slice (tables s) k) x = (h', u')"
    and t: "hp t = h'" "tables t = (tables s)(k \<mapsto> u')"
  shows "held sl t \<and> elems (hp t) sl = elems (hp s) sl"
proof (cases "sl = nil_slice")
  case True
  then show ?thesis by (simp add: held_def)
next
  case False
  let ?u = "slot nil_slice (tables s) k"
  from False held have sl: "slice_ok (hp s) sl"
    and le: "\<And>k u. tables s k = Some u \<Longrightarrow> arr u = arr sl \<Longrightarrow> len sl \<le> len u"
    by (auto simp: held_def)
  from sl have pos: "arr sl \<noteq> 0" "arr sl \<noteq> fresh (hp s)" by (auto simp: slice_ok_def)
  have le_u: "len sl \<le> len ?u" if "arr ?u = arr sl"
    using that le pos by (auto simp: slot_def nil_slice_def split: option.splits)
  have "slice_ok h' sl" "elems h' sl = elems (hp s) sl"
    using app sl le_u pos by (auto simp: go_append_def slice_ok_def elems_def split: if_splits)
  moreover have "len sl \<le> len u'" if "arr u' = arr sl"
    using app that le_u pos by (auto simp: go_append_def split: if_splits)
  ultimately show ?thesis using le by (auto simp: held_def t)
qed

lemma held_add_name:
  assumes "svc_ok s" "held sl s"
  shows "held sl (add_name spare a n s) \<and> elems (hp (add_name spare a n s)) sl = elems (hp s) sl"
proof (cases "a \<in> set (providers (abs_svc s) n)")
  case False
  obtain h' u where app: "go_append '''' spare (hp s) (slot nil_slice (tables s) (Inl n)) a = (h', u)"
    by (metis surj_pair)
  then show ?thesis
    by (intro held_append [OF assms app]) (simp_all add: add_name_eq [OF False app])
qed (use assms in \<open>auto simp: add_name_def list_ex_iff\<close>)

lemma held_update [simp]:
  "held sl (s\<lparr>addrStore := st\<rparr>) = held sl s" "held sl (s\<lparr>sAddrToSNames := m\<rparr>) = held sl s"
  by (simp_all add: held_def)

lemma held_fold_add_name:
  "svc_ok s \<Longrightarrow> held sl s \<Longrightarrow> held sl (fold (add_name spare a) ns s) \<and>
   elems (hp (fold (add_name spare a) ns s)) sl = elems (hp s) sl"
  by (induction ns arbitrary: s) (simp_all add: held_add_name add_name_refines)

lemma held_append_step:
  assumes "append_step s t" "svc_ok s" "held sl s"
  shows "svc_ok t \<and> held sl t \<and> elems (hp t) sl = elems (hp s) sl"
  using assms
proof (cases rule: append_step.cases)
  case (append_register spare a ns)
  then show ?thesis
    using held_fold_add_name [of "s\<lparr>addrStore := (addrStore s)(a \<mapsto> ClientClient a)\<rparr>" sl spare a ns]
      assms register_commit_refines [OF assms(2), of spare a ns]
    by (simp add: register_commit_def Let_def)
next
  case (append_subscribe spare n a)
  obtain h' u where app: "go_append '''' spare (hp s) (slot nil_slice (tables s) (Inr n)) a = (h', u)"
    by (metis surj_pair)
  have "held sl t \<and> elems (hp t) sl = elems (hp s) sl"
  proof (cases "a \<in> set (watchers (abs_svc s) n)")
    case False
    then show ?thesis
      by (intro held_append [OF assms(2,3) app])
        (simp_all add: append_subscribe subscribe_eq [OF False app])
  qed (use assms append_subscribe in \<open>auto simp: discover_subscribe_def list_ex_iff\<close>)
  then show ?thesis using subscribe_refines [OF assms(2), of spare n a] append_subscribe by simp
qed

lemma held_append_steps:
  "append_step\<^sup>*\<^sup>* s t \<Longrightarrow> svc_ok s \<Longrightarrow> held sl s \<Longrightarrow>
   svc_ok t \<and> held sl t \<and> elems (hp t) sl = elems (hp s) sl"
  by (induction rule: rtranclp_induct) (use held_append_step in fastforce)+

section \<open>Properties\<close>


lemma reach_registered:
  "reach (\<lambda>s. s = new_service) svc_step (register_commit spare a ns new_service)"
  by (rule reach_step [where s = new_service]) (simp_all add: reach_init step_register)


lemma register_run:
  assumes inv: "svc_inv s" and a: "caller_addr port p = Some a"
    and con: "\<forall>n \<in> set ns. \<forall>w \<in> set (watchers (abs_svc s) n). addrStore s w \<noteq> None"
  shows "\<exists>s'. register spare p True port ns s = (s', RegOk,
      concat (map (\<lambda>n. map (\<lambda>w. (ClientClient w, w, \<lparr>nr_type = ''register'', nr_server = n, nr_addr = a\<rparr>))
        (watchers (abs_svc s) n)) ns)) \<and> svc_inv s' \<and>
    (\<forall>n. providers (abs_svc s') n = (if n \<in> set ns \<and> a \<notin> set (providers (abs_svc s) n)
       then providers (abs_svc s) n @ [a] else providers (abs_svc s) n)) \<and>
    watchers (abs_svc s') = watchers (abs_svc s) \<and>
    sAddrToSNames s' = (sAddrToSNames s)(a \<mapsto> ns) \<and>
    addrStore s' = (addrStore s)(a \<mapsto> ClientClient a)"
proof -
  let ?s1 = "register_commit spare a ns s"
  note ok = svc_invD(1) [OF inv]
  have r: "abs_svc ?s1 = spec_register a ns (abs_svc s)" by (simp add: register_commit_refines [OF ok])
  then have f: "addrStore ?s1 = (addrStore s)(a \<mapsto> ClientClient a)"
    "sAddrToSNames ?s1 = (sAddrToSNames s)(a \<mapsto> ns)" "watchers (abs_svc ?s1) = watchers (abs_svc s)"
    by (simp_all add: spec_register_def flip: abs_svc_select)
  have inv1: "svc_inv ?s1" by (rule svc_inv_sections(1) [OF inv])
  have "notify_all ''register'' a ns ?s1 = (?s1,
      concat (map (\<lambda>n. map (\<lambda>w. (ClientClient w, w, \<lparr>nr_type = ''register'', nr_server = n, nr_addr = a\<rparr>))
        (watchers (abs_svc s) n)) ns))"
    using notify_all_connected [OF inv1, of ns "''register''" a] con by (simp add: f)
  moreover have "providers (abs_svc ?s1) n = (if n \<in> set ns \<and> a \<notin> set (providers (abs_svc s) n)
       then providers (abs_svc s) n @ [a] else providers (abs_svc s) n)" for n
    by (simp add: r spec_register_def fold_spec_add)
  ultimately show ?thesis
    using a inv1 f by (auto simp: register_def)
qed

text \<open>C29: A registration from a known peer succeeds: the caller's address is appended to the
  provider list of each service it names that did not list it, every other list is unchanged, its
  names and its client are recorded, and every client subscribed to one of the services, all being
  connected, is sent exactly one notification per service, in subscription order.\<close>

theorem register_effect:
  assumes inv: "svc_inv s" and a: "caller_addr port p = Some a"
    and con: "\<forall>n \<in> set ns. \<forall>w \<in> set (watchers (abs_svc s) n). addrStore s w \<noteq> None"
  shows "\<exists>s'. register spare p True port ns s = (s', RegOk,
      concat (map (\<lambda>n. map (\<lambda>w. (ClientClient w, w, \<lparr>nr_type = ''register'', nr_server = n, nr_addr = a\<rparr>))
        (watchers (abs_svc s) n)) ns)) \<and> svc_inv s' \<and>
    (\<forall>n. providers (abs_svc s') n = (if n \<in> set ns \<and> a \<notin> set (providers (abs_svc s) n)
       then providers (abs_svc s) n @ [a] else providers (abs_svc s) n)) \<and>
    watchers (abs_svc s') = watchers (abs_svc s) \<and>
    sAddrToSNames s' = (sAddrToSNames s)(a \<mapsto> ns) \<and>
    addrStore s' = (addrStore s)(a \<mapsto> ClientClient a)"
  by (rule register_run [OF assms])

theorem register_effect_witness:
  "\<exists>s'. register (\<lambda>_. 1) (TcpPeer ''10.0.0.7'') True '':90'' [''user''] new_service = (s', RegOk, []) \<and>
     providers (abs_svc s') ''user'' = [''[10.0.0.7]:90'']"
  using register_effect [OF svc_inv_new, of "'':90''" "TcpPeer ''10.0.0.7''" "''[10.0.0.7]:90''"
      "[''user'']" "\<lambda>_. 1"] by auto

lemma discover_run:
  assumes inv: "svc_inv s" and a: "caller_addr port p = Some a"
  shows "case discover spare p port n s of (s', r) \<Rightarrow>
    svc_inv s' \<and>
    r = (if providers (abs_svc s) n = [] then ErrServerNotFind else DiscOk n (providers (abs_svc s) n)) \<and>
    abs_svc s' = (if providers (abs_svc s) n = [] \<or> a \<in> set (watchers (abs_svc s) n) then abs_svc s
      else abs_svc s\<lparr>watchers := (watchers (abs_svc s))(n := watchers (abs_svc s) n @ [a])\<rparr>)"
proof -
  note ok = svc_invD(1) [OF inv]
  let ?sl = "discover_lookup n s" and ?s1 = "discover_subscribe spare n a s"
  have len: "len ?sl = length (providers (abs_svc s) n)"
    by (simp add: discover_lookup_def len_slot [OF ok])
  have r: "abs_svc ?s1 = spec_subscribe n a (abs_svc s)" by (simp add: subscribe_refines [OF ok])
  have "sNameToSAddr ?s1 = sNameToSAddr s"
    by (auto simp: discover_subscribe_def Let_def split: prod.split)
  then have "discover_copy ?sl ?s1 = providers (abs_svc ?s1) n"
    by (simp add: discover_copy_def discover_lookup_def flip: elems_slot)
  moreover have "providers (abs_svc ?s1) n = providers (abs_svc s) n"
    by (simp add: r spec_subscribe_def)
  ultimately show ?thesis
    using a inv svc_inv_sections(2) [OF inv, of spare n a]
    by (auto simp: discover_def Let_def len r spec_subscribe_def spec_add_def)
qed

text \<open>C28: A discovery call answers with the service's providers, in registration order, and
  subscribes the caller to the service, once and after the earlier subscribers; for a service
  without providers it answers \<open>ErrServerNotFind\<close> and subscribes nobody. Nothing else changes.\<close>

theorem discover_effect:
  assumes inv: "svc_inv s" and a: "caller_addr port p = Some a"
  shows "case discover spare p port n s of (s', r) \<Rightarrow>
    svc_inv s' \<and>
    r = (if providers (abs_svc s) n = [] then ErrServerNotFind else DiscOk n (providers (abs_svc s) n)) \<and>
    abs_svc s' = (if providers (abs_svc s) n = [] \<or> a \<in> set (watchers (abs_svc s) n) then abs_svc s
      else abs_svc s\<lparr>watchers := (watchers (abs_svc s))(n := watchers (abs_svc s) n @ [a])\<rparr>)"
  by (rule discover_run [OF assms])

theorem discover_effect_witness:
  "case discover (\<lambda>_. 0) OtherPeer ''c'' ''x'' (register_commit (\<lambda>_. 0) ''a'' [''x''] new_service)
   of (s', r) \<Rightarrow> r = DiscOk ''x'' [''a''] \<and> watchers (abs_svc s') ''x'' = [''c'']"
  using discover_effect [OF svc_inv_sections(1) [OF svc_inv_new, where spare = "\<lambda>_. 0"
        and a = "''a''" and ns = "[''x'']"],
      where port = "''c''" and p = OtherPeer and a = "''c''" and spare = "\<lambda>_. 0" and n = "''x''"]
  by (auto simp: register_commit_refines spec_register_def spec_add_def)

text \<open>C36: When the first subscriber of a service has no connection, the notification of a change
  does not reach the subscriber that follows it: removing the dead one from the slice moves the
  others down under the running loop, which then skips the next subscriber and sends the last one
  the notification twice.\<close>

theorem notify_skips_after_dead_subscriber:
  assumes "svc_inv s" and "watchers (abs_svc s) (nr_server req) = d # w # ws"
    and "addrStore s d = None" and "\<forall>v \<in> set (w # ws). addrStore s v \<noteq> None"
  shows "snd (notify_subscribers req s) =
      map (\<lambda>v. (ClientClient v, v, req)) (ws @ [last (w # ws)]) \<and>
    (ws \<noteq> [] \<longrightarrow> (ClientClient w, w, req) \<notin> set (snd (notify_subscribers req s)))"
proof -
  have "distinct (d # w # ws)" using svc_invD(3) [OF assms(1), of "nr_server req"] assms(2) by simp
  then show ?thesis
    using notify_dead_head [OF assms(1,2) _ assms(3,4)] by (auto simp: last_in_set)
qed

definition skip_example :: service where
  "skip_example = discover_subscribe (\<lambda>_. 0) ''user'' ''c''
     (discover_subscribe (\<lambda>_. 0) ''user'' ''b'' (discover_subscribe (\<lambda>_. 0) ''user'' ''gone''
       (register_commit (\<lambda>_. 0) ''c'' [''user''] (register_commit (\<lambda>_. 0) ''b'' [''user''] new_service))))"

lemma skip_example_inv: "svc_inv skip_example"
  by (simp add: skip_example_def svc_inv_sections)

lemma skip_example_abs: "abs_svc skip_example =
   spec_subscribe ''user'' ''c'' (spec_subscribe ''user'' ''b'' (spec_subscribe ''user'' ''gone''
     (spec_register ''c'' [''user''] (spec_register ''b'' [''user''] (abs_svc new_service)))))"
  by (simp add: skip_example_def svc_refines)

theorem notify_skips_after_dead_subscriber_witness:
  "snd (notify_subscribers \<lparr>nr_type = ''del'', nr_server = ''user'', nr_addr = ''x''\<rparr> skip_example) =
     [(ClientClient ''c'', ''c'', \<lparr>nr_type = ''del'', nr_server = ''user'', nr_addr = ''x''\<rparr>),
      (ClientClient ''c'', ''c'', \<lparr>nr_type = ''del'', nr_server = ''user'', nr_addr = ''x''\<rparr>)]"
proof -
  have "addrStore skip_example = [''b'' \<mapsto> ClientClient ''b'', ''c'' \<mapsto> ClientClient ''c'']"
    unfolding abs_svc_select(1) [symmetric] skip_example_abs
    by (simp add: spec_subscribe_def spec_register_def)
  moreover have "watchers (abs_svc skip_example) ''user'' = [''gone'', ''b'', ''c'']"
    by (simp add: skip_example_abs spec_subscribe_def spec_register_def spec_add_def)
  ultimately show ?thesis
    using notify_skips_after_dead_subscriber [OF skip_example_inv,
        of "\<lparr>nr_type = ''del'', nr_server = ''user'', nr_addr = ''x''\<rparr>" "''gone''" "''b''" "[''c'']"]
    by simp
qed

lemma health_check_run:
  assumes inv: "svc_inv s" and t: "tight (abs_svc s)"
    and order: "distinct order" "set order = dom (addrStore s)"
    and run: "perform_health_check ping order s = (s', calls)"
  shows "svc_inv s' \<and> tight (abs_svc s') \<and>
    (\<forall>n. providers (abs_svc s') n = filter (\<lambda>a. is_service_healthy ping a s) (providers (abs_svc s) n)) \<and>
    (\<forall>n. \<forall>a \<in> set (providers (abs_svc s') n). \<exists>c. addrStore s' a = Some c \<and> ping c)"
proof -
  note eff = health_check_effect [OF inv t order(1) run]
  have dom: "a \<in> set order" if "a \<in> set (providers (abs_svc s) n)" for a n
    using that t svc_invD(5) [OF inv, of a] unfolding order(2) tight_def by fastforce
  have "providers (abs_svc s') n =
      filter (\<lambda>a. is_service_healthy ping a s) (providers (abs_svc s) n)" for n
    using eff dom by (auto intro: filter_cong)
  with eff dom show ?thesis
    by (auto simp: is_service_healthy_def split: option.splits)
qed

text \<open>Each pass goes through the addresses that have a client when it starts.\<close>

fun passes :: "((client \<Rightarrow> bool) \<times> string list) list \<Rightarrow> service \<Rightarrow> bool" where
  "passes [] s \<longleftrightarrow> True"
| "passes ((ping, order) # ticks) s \<longleftrightarrow>
     distinct order \<and> set order = dom (addrStore s) \<and> passes ticks (fst (perform_health_check ping order s))"

text \<open>C18: As long as every listed address is still among those whose names are recorded, the
  health checks, however often they run and in whatever order they go through the addresses, leave
  in every provider list exactly the addresses with a client that answered in every pass, in their
  old order; after at least one pass every listed address has a client.\<close>

theorem health_rounds_exact:
  assumes "svc_inv s" "tight (abs_svc s)" "passes ticks s" "startHealthCheck ticks s = (s', calls)"
  shows "svc_inv s' \<and> tight (abs_svc s') \<and>
    (\<forall>n. providers (abs_svc s') n =
      filter (\<lambda>a. list_all (\<lambda>(ping, order). is_service_healthy ping a s) ticks) (providers (abs_svc s) n)) \<and>
    (ticks \<noteq> [] \<longrightarrow> (\<forall>n. \<forall>a \<in> set (providers (abs_svc s') n). addrStore s' a \<noteq> None))"
  using assms
proof (induction ticks arbitrary: s s' calls)
  case (Cons tick ticks)
  obtain ping order where tick: "tick = (ping, order)" by force
  obtain s1 calls1 where 1: "perform_health_check ping order s = (s1, calls1)" by force
  obtain calls2 where 2: "startHealthCheck ticks s1 = (s', calls2)"
    using Cons.prems(4) by (auto simp: tick 1 Let_def split: prod.splits)
  have order: "distinct order" "set order = dom (addrStore s)" "passes ticks s1"
    using Cons.prems(3) by (simp_all add: tick 1)
  note run = health_check_run [OF Cons.prems(1,2) order(1,2) 1]
  note eff = health_check_effect [OF Cons.prems(1,2) order(1) 1]
  have IH: "svc_inv s'" "tight (abs_svc s')"
    "providers (abs_svc s') n =
      filter (\<lambda>a. list_all (\<lambda>(ping, order). is_service_healthy ping a s1) ticks) (providers (abs_svc s1) n)"
    "ticks \<noteq> [] \<longrightarrow> (\<forall>a \<in> set (providers (abs_svc s') n). addrStore s' a \<noteq> None)" for n
    using Cons.IH [OF _ _ order(3) 2] run by blast+
  have same: "is_service_healthy p a s1 \<longleftrightarrow> is_service_healthy p a s" if "is_service_healthy ping a s" for p a
    using eff that by (simp add: is_service_healthy_def)
  have "providers (abs_svc s') n =
      filter (\<lambda>a. list_all (\<lambda>(ping, order). is_service_healthy ping a s) (tick # ticks)) (providers (abs_svc s) n)" for n
    using run same by (auto simp: IH(3) tick intro!: filter_cong simp: list_all_iff case_prod_beta)
  moreover have "addrStore s' a \<noteq> None" if "a \<in> set (providers (abs_svc s') n)" for a n
  proof (cases "ticks = []")
    case True
    with 2 have "s' = s1" by simp
    with run that show ?thesis by (metis option.distinct(1))
  qed (use IH(4) that in blast)
  ultimately show ?case using IH(1,2) by blast
qed (auto simp: list_all_iff)

definition pair_example :: service where
  "pair_example = register_commit (\<lambda>_. 0) ''b'' [''user'']
     (register_commit (\<lambda>_. 2) ''a'' [''user''] new_service)"

lemma pair_example_facts:
  "svc_inv pair_example" "tight (abs_svc pair_example)"
  "providers (abs_svc pair_example) ''user'' = [''a'', ''b'']"
  "addrStore pair_example = [''a'' \<mapsto> ClientClient ''a'', ''b'' \<mapsto> ClientClient ''b'']"
  by (simp_all add: pair_example_def svc_inv_sections svc_refines tight_def spec_register_def
      spec_add_def flip: abs_svc_select)

theorem health_rounds_exact_witness:
  "providers (abs_svc (fst (startHealthCheck
      [(\<lambda>c. True, [''a'', ''b'']), (\<lambda>c. c = ClientClient ''b'', [''b'', ''a''])] pair_example))) ''user'' = [''b'']"
proof -
  let ?ticks = "[(\<lambda>c. True, [''a'', ''b'']), (\<lambda>c. c = ClientClient ''b'', [''b'', ''a''])]"
  obtain s' calls where run: "startHealthCheck ?ticks pair_example = (s', calls)" by force
  have "perform_health_check (\<lambda>c. True) [''a'', ''b''] pair_example = (pair_example, [])"
    by (simp add: is_service_healthy_def pair_example_facts)
  moreover have "{''a'', ''b''} = dom (addrStore pair_example)" by (auto simp: pair_example_facts)
  ultimately have "passes ?ticks pair_example" by (auto simp: insert_commute)
  from health_rounds_exact [OF pair_example_facts(1,2) this run] show ?thesis
    unfolding run by (simp add: pair_example_facts is_service_healthy_def)
qed

text \<open>C37: An address that registers again with fewer services stays listed under the dropped ones,
  and when it later fails its health check it is removed only from the services of its last
  registration: from then on it is listed without a client, and no number of health checks, in any
  order and whatever the pings answer, removes it.\<close>

theorem reregistration_leaks_dropped_services:
  assumes inv: "svc_inv s" and n: "n \<in> set ns" "n \<notin> set ns'"
    and gone: "handle_unhealthy a (register_commit sp' a ns' (register_commit sp a ns s)) = (s1, calls1)"
    and check: "perform_health_check ping order s1 = (s2, calls2)"
  shows "a \<in> set (providers (abs_svc s2) n) \<and> addrStore s2 a = None"
proof -
  let ?r1 = "register_commit sp a ns s"
  let ?r2 = "register_commit sp' a ns' ?r1"
  note inv1 = svc_inv_sections(1) [OF inv, of sp a ns]
  note inv2 = svc_inv_sections(1) [OF inv1, of sp' a ns']
  have r: "abs_svc ?r2 = spec_register a ns' (spec_register a ns (abs_svc s))"
    by (simp add: svc_refines svc_invD(1) [OF inv] svc_invD(1) [OF inv1])
  note eff = handle_unhealthy_effect [OF inv2 gone]
  have "a \<in> set (providers (abs_svc ?r2) n)"
    using n by (auto simp: r spec_register_def fold_spec_add)
  moreover have "names_of (abs_svc ?r2) a = Some ns'"
    by (simp add: r spec_register_def del: abs_svc_select)
  ultimately have "a \<in> set (providers (abs_svc s1) n)" "addrStore s1 a = None"
    using eff n(2) by (auto simp: spec_evict_providers [OF svc_invD(2) [OF inv2]])
  with health_check_stale [OF conjunct1 [OF eff] _ _ check] show ?thesis by blast
qed

theorem reregistration_leaks_dropped_services_witness:
  "''a'' \<in> set (providers (abs_svc (fst (perform_health_check (\<lambda>_. True) []
     (fst (handle_unhealthy ''a'' (register_commit (\<lambda>_. 0) ''a'' [''y'']
       (register_commit (\<lambda>_. 0) ''a'' [''x'', ''y''] new_service))))))) ''x'')"
proof -
  obtain s1 calls1 where 1: "handle_unhealthy ''a'' (register_commit (\<lambda>_. 0) ''a'' [''y'']
      (register_commit (\<lambda>_. 0) ''a'' [''x'', ''y''] new_service)) = (s1, calls1)"
    by (metis surj_pair)
  obtain s2 calls2 where 2: "perform_health_check (\<lambda>_. True) [] s1 = (s2, calls2)"
    by (metis surj_pair)
  show ?thesis
    unfolding 1 fst_conv 2
    using reregistration_leaks_dropped_services [OF svc_inv_new _ _ 1 2, of "''x''"] by simp
qed


text \<open>C38: The address list that a discovery call has looked up before it subscribes its caller is
  not disturbed by any registrations and subscriptions that run in between: it still copies the
  providers as they were at the lookup.\<close>

theorem lookup_survives_appends:
  assumes "svc_inv s" and "append_step\<^sup>*\<^sup>* s t"
  shows "discover_copy (discover_lookup n s) t = providers (abs_svc s) n"
proof -
  note ok = svc_invD(1) [OF assms(1)]
  from held_append_steps [OF assms(2) ok held_lookup [OF ok, of n]]
  have "elems (hp t) (discover_lookup n s) = elems (hp s) (discover_lookup n s)" by blast
  then show ?thesis by (simp add: discover_copy_def) (simp add: discover_lookup_def)
qed

theorem lookup_survives_appends_witness:
  "discover_copy (discover_lookup ''user'' pair_example)
     (discover_subscribe (\<lambda>_. 0) ''user'' ''w'' (register_commit (\<lambda>_. 0) ''c'' [''user''] pair_example)) =
   [''a'', ''b'']"
proof -
  let ?t = "register_commit (\<lambda>_. 0) ''c'' [''user''] pair_example"
  have "append_step pair_example ?t" "append_step ?t (discover_subscribe (\<lambda>_. 0) ''user'' ''w'' ?t)"
    by (rule append_register, rule append_subscribe)
  then have "append_step\<^sup>*\<^sup>* pair_example (discover_subscribe (\<lambda>_. 0) ''user'' ''w'' ?t)"
    by (rule converse_rtranclp_into_rtranclp [OF _ r_into_rtranclp])
  from lookup_survives_appends [OF pair_example_facts(1) this, of "''user''"] show ?thesis
    by (simp add: pair_example_facts)
qed

text \<open>An eviction in between does disturb it: when the service's first provider is evicted
  after the lookup, the discovery call answers with the remaining providers and the last of them
  once more, because the eviction moves the elements of the array the call is still reading.\<close>

theorem lookup_disturbed_by_eviction:
  assumes inv: "svc_inv s" and P: "providers (abs_svc s) n = a # b # ps"
    and names: "sAddrToSNames s a = Some [n]"
  shows "discover_copy (discover_lookup n s) (unhealthy_commit a s) = (b # ps) @ [last (b # ps)]"
proof -
  let ?sl = "slot nil_slice (sNameToSAddr s) n"
  note ok = svc_invD(1) [OF inv]
  have "len ?sl \<noteq> 0" by (simp add: len_slot [OF ok] P)
  then have sl: "slice_ok (hp s) ?sl" using slot_slice_ok [OF ok, of "Inl n"] by (auto simp flip: slot_tables)
  have el: "elems (hp s) ?sl = a # b # ps" by (simp add: P)
  obtain h' sl' where rm: "remove_first (hp s) ?sl a = Some (h', sl')"
    using el by (auto simp: remove_first_def split: prod.split) (metis surj_pair)
  have "hp (drop_name a n (s\<lparr>addrStore := st\<rparr>)) = h'" for st
    by (simp add: drop_name_def Let_def rm)
  then have "hp (unhealthy_commit a s) = h'"
    using rm P by (simp add: unhealthy_commit_def Let_def service_names_def names drop_name_def
        split: option.split)
  then show ?thesis
    using remove_head_elems [OF sl el rm] by (simp add: discover_copy_def discover_lookup_def)
qed

theorem lookup_disturbed_by_eviction_witness:
  "discover_copy (discover_lookup ''user'' pair_example) (unhealthy_commit ''a'' pair_example) =
   [''b'', ''b'']"
proof -
  have "sAddrToSNames pair_example ''a'' = Some [''user'']"
    by (simp add: pair_example_def svc_inv_sections svc_refines spec_register_def svc_invD(1)
        flip: abs_svc_select)
  from lookup_disturbed_by_eviction [OF pair_example_facts(1) pair_example_facts(3) this]
  show ?thesis by simp
qed

end
