(* ===== verification/Singleflight.thy ===== *)
theory Singleflight
  imports Go_Prelude
begin

text \<open>
  \<open>syncx/singleflight.go\<close> as a machine of goroutines.

  Each goroutine makes one call of \<open>Do\<close> or \<open>DoEx\<close>; its program counter says where it stands.
  \<open>createCall\<close> runs under \<open>g.lock\<close>, so it is one step: it joins the call that is in the map
  (rule \<open>hit\<close>) or enters a new one (\<open>miss\<close>). \<open>makeCall\<close> is several steps: the function \<open>fn\<close>
  itself, which is a small machine of its own (\<open>body\<close>, over a private state \<open>'l\<close> and shared data
  \<open>'x\<close>), then the deferred deletion under the lock (\<open>unlink\<close>) and \<open>wg.Done\<close> (\<open>signal\<close>), both also
  run when \<open>fn\<close> panics. \<open>env_step\<close> is what other code does to the shared data meanwhile. A
  goroutine returns the values of its call (\<open>signal\<close> for the leader, \<open>wake\<close> for the others).

  Calls are heap objects: the map and the program counters hold their numbers. \<open>ckey\<close> is a ghost,
  the key the call was created for.
\<close>

section \<open>State\<close>

record ('k, 'v, 'e) call =
  wg :: nat
  val :: 'v
  err :: "'e option"
  ckey :: 'k

datatype ('k, 'v, 'e, 'l) pc =
    Idle
  | Waiting nat
  | Running nat 'k 'l
  | Unlinking nat 'k bool
  | Signalling nat bool
  | Returned nat 'v "'e option" bool
  | Panicked nat

datatype ('l, 'v, 'e) progress = Continue 'l | Finish 'v "'e option" | Crash

record ('k, 'v, 'e, 'l, 'x) flight =
  calls :: "'k \<rightharpoonup> nat"
  cell :: "nat \<Rightarrow> ('k, 'v, 'e) call"
  next_call :: nat
  pcs :: "nat \<Rightarrow> ('k, 'v, 'e, 'l) pc"
  shared :: 'x

definition sf_init :: "('x \<Rightarrow> bool) \<Rightarrow> ('k, 'v, 'e, 'l, 'x) flight \<Rightarrow> bool" where
  "sf_init x0 s \<longleftrightarrow> calls s = Map.empty \<and> next_call s = 0 \<and> pcs s = (\<lambda>_. Idle) \<and> x0 (shared s)"

section \<open>Steps\<close>

inductive sf_step ::
  "'v \<Rightarrow> 'l \<Rightarrow> ('k \<Rightarrow> 'l \<Rightarrow> 'x \<Rightarrow> 'x \<Rightarrow> ('l, 'v, 'e) progress \<Rightarrow> bool) \<Rightarrow> ('x \<Rightarrow> 'x \<Rightarrow> bool) \<Rightarrow>
   ('k, 'v, 'e, 'l, 'x) flight \<Rightarrow> ('k, 'v, 'e, 'l, 'x) flight \<Rightarrow> bool"
  for z :: 'v and b0 :: 'l
    and body :: "'k \<Rightarrow> 'l \<Rightarrow> 'x \<Rightarrow> 'x \<Rightarrow> ('l, 'v, 'e) progress \<Rightarrow> bool"
    and env_step :: "'x \<Rightarrow> 'x \<Rightarrow> bool" where
  hit: "pcs s t = Idle \<Longrightarrow> calls s k = Some c \<Longrightarrow>
    sf_step z b0 body env_step s (s\<lparr>pcs := (pcs s)(t := Waiting c)\<rparr>)"
| miss: "pcs s t = Idle \<Longrightarrow> calls s k = None \<Longrightarrow> c = next_call s \<Longrightarrow>
    sf_step z b0 body env_step s
      (s\<lparr>calls := (calls s)(k \<mapsto> c),
         cell := (cell s)(c := \<lparr>wg = 1, val = z, err = None, ckey = k\<rparr>),
         next_call := Suc c, pcs := (pcs s)(t := Running c k b0)\<rparr>)"
| run: "pcs s t = Running c k l \<Longrightarrow> body k l (shared s) x (Continue l') \<Longrightarrow>
    sf_step z b0 body env_step s (s\<lparr>pcs := (pcs s)(t := Running c k l'), shared := x\<rparr>)"
| finish: "pcs s t = Running c k l \<Longrightarrow> body k l (shared s) x (Finish v e) \<Longrightarrow>
    sf_step z b0 body env_step s
      (s\<lparr>cell := (cell s)(c := (cell s c)\<lparr>val := v, err := e\<rparr>),
         pcs := (pcs s)(t := Unlinking c k False), shared := x\<rparr>)"
| crash: "pcs s t = Running c k l \<Longrightarrow> body k l (shared s) x Crash \<Longrightarrow>
    sf_step z b0 body env_step s (s\<lparr>pcs := (pcs s)(t := Unlinking c k True), shared := x\<rparr>)"
| unlink: "pcs s t = Unlinking c k p \<Longrightarrow>
    sf_step z b0 body env_step s
      (s\<lparr>calls := (calls s)(k := None), pcs := (pcs s)(t := Signalling c p)\<rparr>)"
| signal: "pcs s t = Signalling c p \<Longrightarrow>
    sf_step z b0 body env_step s
      (s\<lparr>cell := (cell s)(c := (cell s c)\<lparr>wg := wg (cell s c) - 1\<rparr>),
         pcs := (pcs s)(t := if p then Panicked c
                             else Returned c (val (cell s c)) (err (cell s c)) True)\<rparr>)"
| wake: "pcs s t = Waiting c \<Longrightarrow> wg (cell s c) = 0 \<Longrightarrow>
    sf_step z b0 body env_step s
      (s\<lparr>pcs := (pcs s)(t := Returned c (val (cell s c)) (err (cell s c)) False)\<rparr>)"
| other: "env_step (shared s) x \<Longrightarrow> sf_step z b0 body env_step s (s\<lparr>shared := x\<rparr>)"

section \<open>Invariant\<close>

text \<open>The call a goroutine leads, and the call it holds in any way.\<close>

fun leads :: "('k, 'v, 'e, 'l) pc \<Rightarrow> nat option" where
  "leads (Running c k l) = Some c"
| "leads (Unlinking c k p) = Some c"
| "leads (Signalling c p) = Some c"
| "leads _ = None"

fun linked :: "('k, 'v, 'e, 'l) pc \<Rightarrow> (nat \<times> 'k) option" where
  "linked (Running c k l) = Some (c, k)"
| "linked (Unlinking c k p) = Some (c, k)"
| "linked _ = None"

fun holds :: "('k, 'v, 'e, 'l) pc \<Rightarrow> nat option" where
  "holds Idle = None"
| "holds (Waiting c) = Some c"
| "holds (Running c k l) = Some c"
| "holds (Unlinking c k p) = Some c"
| "holds (Signalling c p) = Some c"
| "holds (Returned c v e f) = Some c"
| "holds (Panicked c) = Some c"

fun crashed :: "('k, 'v, 'e, 'l) pc \<Rightarrow> nat option" where
  "crashed (Unlinking c k True) = Some c"
| "crashed (Signalling c True) = Some c"
| "crashed (Panicked c) = Some c"
| "crashed _ = None"

definition inv_links :: "('k, 'v, 'e, 'l, 'x) flight \<Rightarrow> bool" where
  "inv_links s \<longleftrightarrow> (\<forall>k c. calls s k = Some c \<longleftrightarrow> (\<exists>t. linked (pcs s t) = Some (c, k)))"

definition inv_leader :: "('k, 'v, 'e, 'l, 'x) flight \<Rightarrow> bool" where
  "inv_leader s \<longleftrightarrow>
     (\<forall>t u c. leads (pcs s t) = Some c \<longrightarrow> leads (pcs s u) = Some c \<longrightarrow> t = u) \<and>
     (\<forall>t c. holds (pcs s t) = Some c \<longrightarrow> c < next_call s) \<and>
     (\<forall>t c k. linked (pcs s t) = Some (c, k) \<longrightarrow> ckey (cell s c) = k)"

definition inv_wg :: "('k, 'v, 'e, 'l, 'x) flight \<Rightarrow> bool" where
  "inv_wg s \<longleftrightarrow>
     (\<forall>c < next_call s. wg (cell s c) = (if \<exists>t. leads (pcs s t) = Some c then 1 else 0))"

definition returned_ok :: "('k, 'v, 'e, 'l, 'x) flight \<Rightarrow> bool" where
  "returned_ok s \<longleftrightarrow>
     (\<forall>t c v e f. pcs s t = Returned c v e f \<longrightarrow>
        v = val (cell s c) \<and> e = err (cell s c) \<and> (\<forall>u. leads (pcs s u) \<noteq> Some c) \<and>
        (f \<longrightarrow> (\<forall>u. crashed (pcs s u) \<noteq> Some c)))"

text \<open>The call a goroutine leads, or led, without having stored a result.\<close>

fun unset :: "('k, 'v, 'e, 'l) pc \<Rightarrow> nat option" where
  "unset (Running c k l) = Some c"
| "unset p = crashed p"

definition unset_ok :: "'v \<Rightarrow> ('k, 'v, 'e, 'l, 'x) flight \<Rightarrow> bool" where
  "unset_ok z s \<longleftrightarrow>
     (\<forall>t c. unset (pcs s t) = Some c \<longrightarrow> val (cell s c) = z \<and> err (cell s c) = None)"

definition panicked_ok :: "('k, 'v, 'e, 'l, 'x) flight \<Rightarrow> bool" where
  "panicked_ok s \<longleftrightarrow> (\<forall>t u c. pcs s t = Panicked c \<longrightarrow> leads (pcs s u) \<noteq> Some c)"

definition sf_inv :: "'v \<Rightarrow> ('k, 'v, 'e, 'l, 'x) flight \<Rightarrow> bool" where
  "sf_inv z s \<longleftrightarrow> inv_links s \<and> inv_leader s \<and> inv_wg s \<and>
     panicked_ok s \<and> unset_ok z s \<and> returned_ok s"

lemma leads_holds: "leads p = Some c \<Longrightarrow> holds p = Some c"
  by (cases p) auto

lemma linked_leads: "linked p = Some (c, k) \<Longrightarrow> leads p = Some c"
  by (cases p) auto

lemma crashed_holds: "crashed p = Some c \<Longrightarrow> holds p = Some c"
  by (cases p rule: crashed.cases) auto

lemma crashed_cases: "crashed p = Some c \<Longrightarrow> leads p = Some c \<or> p = Panicked c"
  by (cases p rule: crashed.cases) auto

lemma inv_leader_fresh:
  assumes "inv_leader s"
  shows "holds (pcs s u) \<noteq> Some (next_call s)" "leads (pcs s u) \<noteq> Some (next_call s)"
    "linked (pcs s u) \<noteq> Some (next_call s, k)" "crashed (pcs s u) \<noteq> Some (next_call s)"
proof -
  show h: "holds (pcs s u) \<noteq> Some (next_call s)" using assms by (auto simp: inv_leader_def)
  then show "leads (pcs s u) \<noteq> Some (next_call s)" by (blast dest: leads_holds)
  then show "linked (pcs s u) \<noteq> Some (next_call s, k)" by (blast dest: linked_leads)
  from h show "crashed (pcs s u) \<noteq> Some (next_call s)" by (blast dest: crashed_holds)
qed

text \<open>
  Most steps move one goroutine from one point of its call to the next; these are the conditions
  under which such a move keeps the invariants.
\<close>

lemma inv_leader_move:
  assumes "inv_leader s" "pcs s' = (pcs s)(t := p)" "next_call s' = next_call s"
    and "\<And>c. ckey (cell s' c) = ckey (cell s c)"
    and "leads p = None \<or> leads p = leads (pcs s t)"
    and "linked p = None \<or> linked p = linked (pcs s t)"
    and "\<And>c. holds p = Some c \<Longrightarrow> c < next_call s"
  shows "inv_leader s'"
  unfolding inv_leader_def
proof (intro conjI allI impI)
  fix u w c
  assume "leads (pcs s' u) = Some c" "leads (pcs s' w) = Some c"
  then have "leads (pcs s u) = Some c" "leads (pcs s w) = Some c"
    using assms(2,5) by (auto split: if_splits)
  then show "u = w" using assms(1) unfolding inv_leader_def by blast
next
  fix u c
  assume "holds (pcs s' u) = Some c"
  then show "c < next_call s'"
    using assms(1,2,3,7) unfolding inv_leader_def by (auto split: if_splits)
next
  fix u c k
  assume "linked (pcs s' u) = Some (c, k)"
  then have "linked (pcs s u) = Some (c, k)" using assms(2,6) by (auto split: if_splits)
  then show "ckey (cell s' c) = k" using assms(1,4) unfolding inv_leader_def by auto
qed

lemma inv_links_move:
  assumes "inv_links s" "pcs s' = (pcs s)(t := p)" "calls s' = calls s"
    and "linked p = linked (pcs s t)"
  shows "inv_links s'"
proof -
  have "linked (pcs s' u) = linked (pcs s u)" for u using assms(2,4) by simp
  then show ?thesis using assms(1,3) unfolding inv_links_def by simp
qed

lemma inv_wg_move:
  assumes "inv_wg s" "pcs s' = (pcs s)(t := p)" "next_call s' = next_call s"
    and "\<And>c. wg (cell s' c) = wg (cell s c)"
    and "leads p = leads (pcs s t)"
  shows "inv_wg s'"
proof -
  have "leads (pcs s' u) = leads (pcs s u)" for u using assms(2,5) by simp
  then show ?thesis using assms(1,3,4) unfolding inv_wg_def by simp
qed

lemma inv_leader_bound: "inv_leader s \<Longrightarrow> holds (pcs s t) = Some c \<Longrightarrow> c < next_call s"
  unfolding inv_leader_def by blast

lemma inv_leader_unique:
  "inv_leader s \<Longrightarrow> leads (pcs s t) = Some c \<Longrightarrow> leads (pcs s u) = Some c \<Longrightarrow> t = u"
  unfolding inv_leader_def by blast

lemma inv_leader_ckey:
  "inv_leader s \<Longrightarrow> linked (pcs s t) = Some (c, k) \<Longrightarrow> ckey (cell s c) = k"
  unfolding inv_leader_def by blast

lemma inv_links_iff:
  "inv_links s \<Longrightarrow> calls s k = Some c \<longleftrightarrow> (\<exists>t. linked (pcs s t) = Some (c, k))"
  unfolding inv_links_def by blast

lemma inv_leader_step:
  "sf_step z b0 body env_step s s' \<Longrightarrow> inv_leader s \<Longrightarrow> inv_links s \<Longrightarrow> inv_leader s'"
proof (induction rule: sf_step.induct)
  case (hit s t k c)
  then obtain u where "linked (pcs s u) = Some (c, k)" by (auto simp: inv_links_iff)
  then have "c < next_call s"
    by (blast intro: inv_leader_bound [OF hit(3)] linked_leads leads_holds)
  then show ?case
    by (intro inv_leader_move [OF hit(3), where t = t and p = "Waiting c"]) simp_all
next
  case (miss s t k c)
  note fresh = inv_leader_fresh [OF miss(4)]
  show ?case unfolding inv_leader_def
  proof (intro conjI allI impI, goal_cases)
    case (1 u w c')
    then show ?case using fresh(2) miss(3) inv_leader_unique [OF miss(4)]
      by (simp split: if_splits)
  next
    case (2 u c')
    then show ?case using miss(3) inv_leader_bound [OF miss(4)]
      by (auto simp: less_Suc_eq split: if_splits)
  next
    case (3 u c' k')
    then show ?case using fresh(3) miss(3,4)
      by (auto simp: inv_leader_def split: if_splits)
  qed
next
  case (run s t c k l x l')
  have "c < next_call s" by (rule inv_leader_bound [OF run(3), where t = t]) (simp add: run)
  then show ?case
    by (intro inv_leader_move [OF run(3), where t = t and p = "Running c k l'"]) (simp_all add: run)
next
  case (finish s t c k l x v e)
  have "c < next_call s" by (rule inv_leader_bound [OF finish(3), where t = t]) (simp add: finish)
  then show ?case
    by (intro inv_leader_move [OF finish(3), where t = t and p = "Unlinking c k False"])
      (simp_all add: finish)
next
  case (crash s t c k l x)
  have "c < next_call s" by (rule inv_leader_bound [OF crash(3), where t = t]) (simp add: crash)
  then show ?case
    by (intro inv_leader_move [OF crash(3), where t = t and p = "Unlinking c k True"])
      (simp_all add: crash)
next
  case (unlink s t c k p)
  have "c < next_call s" by (rule inv_leader_bound [OF unlink(2), where t = t]) (simp add: unlink)
  then show ?case
    by (intro inv_leader_move [OF unlink(2), where t = t and p = "Signalling c p"])
      (simp_all add: unlink)
next
  case (signal s t c p)
  have "c < next_call s" by (rule inv_leader_bound [OF signal(2), where t = t]) (simp add: signal)
  then show ?case
    by (intro inv_leader_move [OF signal(2), where t = t
        and p = "if p then Panicked c else Returned c (val (cell s c)) (err (cell s c)) True"])
      (auto simp add: signal split: if_splits)
next
  case (wake s t c)
  have "c < next_call s" by (rule inv_leader_bound [OF wake(3), where t = t]) (simp add: wake)
  then show ?case
    by (intro inv_leader_move [OF wake(3), where t = t
        and p = "Returned c (val (cell s c)) (err (cell s c)) False"]) simp_all
next
  case (other s x)
  then show ?case by (simp add: inv_leader_def)
qed

lemma inv_links_step:
  "sf_step z b0 body env_step s s' \<Longrightarrow> inv_leader s \<Longrightarrow> inv_links s \<Longrightarrow> inv_links s'"
proof (induction rule: sf_step.induct)
  case (hit s t k c)
  show ?case by (rule inv_links_move [OF hit(4), where t = t and p = "Waiting c"])
      (simp_all add: hit)
next
  case (miss s t k c)
  have none: "linked (pcs s u) \<noteq> Some (c', k)" for u c'
    using miss(2) inv_links_iff [OF miss(5), of k] by auto
  show ?case unfolding inv_links_def
  proof (intro allI)
    fix k' c'
    show "calls (s\<lparr>calls := (calls s)(k \<mapsto> c),
         cell := (cell s)(c := \<lparr>wg = 1, val = z, err = None, ckey = k\<rparr>),
         next_call := Suc c, pcs := (pcs s)(t := Running c k b0)\<rparr>) k' = Some c' \<longleftrightarrow>
      (\<exists>u. linked (pcs (s\<lparr>calls := (calls s)(k \<mapsto> c),
         cell := (cell s)(c := \<lparr>wg = 1, val = z, err = None, ckey = k\<rparr>),
         next_call := Suc c, pcs := (pcs s)(t := Running c k b0)\<rparr>) u) = Some (c', k'))"
    proof (cases "k' = k")
      case True
      then show ?thesis using none by auto
    next
      case False
      have "linked (pcs s t) = None" using miss(1) by simp
      with False inv_links_iff [OF miss(5), of k' c'] show ?thesis
        by (auto split: if_splits) (metis option.distinct(1))
    qed
  qed
next
  case (run s t c k l x l')
  show ?case by (rule inv_links_move [OF run(4), where t = t and p = "Running c k l'"])
      (simp_all add: run)
next
  case (finish s t c k l x v e)
  show ?case by (rule inv_links_move [OF finish(4), where t = t and p = "Unlinking c k False"])
      (simp_all add: finish)
next
  case (crash s t c k l x)
  show ?case by (rule inv_links_move [OF crash(4), where t = t and p = "Unlinking c k True"])
      (simp_all add: crash)
next
  case (unlink s t c k p)
  have t: "linked (pcs s t) = Some (c, k)" using unlink(1) by simp
  have one: "u = t" if "linked (pcs s u) = Some (c', k)" for u c'
  proof -
    have "c' = c"
      using that t inv_links_iff [OF unlink(3), of k] by (metis option.inject)
    with that t show ?thesis
      by (blast intro: inv_leader_unique [OF unlink(2)] linked_leads)
  qed
  have "calls s k' = Some c' \<longleftrightarrow> (\<exists>u. u \<noteq> t \<and> linked (pcs s u) = Some (c', k'))"
    if "k' \<noteq> k" for k' c'
    using that t inv_links_iff [OF unlink(3), of k' c'] by (metis option.inject prod.inject)
  with one show ?case
    by (auto simp: inv_links_def)
next
  case (signal s t c p)
  show ?case by (rule inv_links_move [OF signal(3), where t = t and p = "if p then Panicked c else Returned c (val (cell s c)) (err (cell s c)) True"])
      (simp_all add: signal)
next
  case (wake s t c)
  show ?case by (rule inv_links_move [OF wake(4), where t = t and p = "Returned c (val (cell s c)) (err (cell s c)) False"])
      (simp_all add: wake)
next
  case (other s x)
  then show ?case by (simp add: inv_links_def)
qed

lemma inv_wg_step:
  "sf_step z b0 body env_step s s' \<Longrightarrow> inv_leader s \<Longrightarrow> inv_wg s \<Longrightarrow> inv_wg s'"
proof (induction rule: sf_step.induct)
  case (hit s t k c)
  show ?case by (rule inv_wg_move [OF hit(4), where t = t and p = "Waiting c"])
      (simp_all add: hit)
next
  case (miss s t k c)
  have l: "leads (pcs s t) = None" using miss(1) by simp
  show ?case unfolding inv_wg_def
  proof (intro allI impI, goal_cases)
    case (1 c')
    show ?case
    proof (cases "c' = c")
      case True
      then show ?thesis using miss(3) by auto
    next
      case False
      with 1 miss(3) have "c' < next_call s" by simp
      with miss(5) have "wg (cell s c') = (if \<exists>u. leads (pcs s u) = Some c' then 1 else 0)"
        unfolding inv_wg_def by blast
      moreover have "(\<exists>u. leads (((pcs s)(t := Running c k b0)) u) = Some c') \<longleftrightarrow>
          (\<exists>u. leads (pcs s u) = Some c')"
        using l False by (auto split: if_splits) (metis option.distinct(1))
      ultimately show ?thesis using False by simp
    qed
  qed
next
  case (run s t c k l x l')
  show ?case by (rule inv_wg_move [OF run(4), where t = t and p = "Running c k l'"])
      (simp_all add: run)
next
  case (finish s t c k l x v e)
  show ?case by (rule inv_wg_move [OF finish(4), where t = t and p = "Unlinking c k False"])
      (simp_all add: finish)
next
  case (crash s t c k l x)
  show ?case by (rule inv_wg_move [OF crash(4), where t = t and p = "Unlinking c k True"])
      (simp_all add: crash)
next
  case (unlink s t c k p)
  show ?case by (rule inv_wg_move [OF unlink(3), where t = t and p = "Signalling c p"])
      (simp_all add: unlink)
next
  case (signal s t c p)
  let ?q = "if p then Panicked c else Returned c (val (cell s c)) (err (cell s c)) True"
  have t: "leads (pcs s t) = Some c" "leads ?q = None" using signal(1) by auto
  have gone: "leads (((pcs s)(t := ?q)) u) = Some c' \<longleftrightarrow> leads (pcs s u) = Some c' \<and> c' \<noteq> c" for u c'
    using t inv_leader_unique [OF signal(2)] by auto
  show ?case unfolding inv_wg_def
  proof (intro allI impI, goal_cases)
    case (1 c')
    then have "wg (cell s c') = (if \<exists>u. leads (pcs s u) = Some c' then 1 else 0)"
      using signal(3) unfolding inv_wg_def by simp
    then show ?case using t gone by (cases "c' = c") auto
  qed
next
  case (wake s t c)
  show ?case by (rule inv_wg_move [OF wake(4), where t = t and p = "Returned c (val (cell s c)) (err (cell s c)) False"])
      (simp_all add: wake)
next
  case (other s x)
  then show ?case by (simp add: inv_wg_def)
qed

text \<open>No goroutine that is not the leader of a call has panicked in it.\<close>

lemma lead_not_crashed:
  assumes "inv_leader s" "panicked_ok s" "leads (pcs s t) = Some c" "crashed (pcs s t) = None"
  shows "crashed (pcs s u) \<noteq> Some c"
proof
  assume u: "crashed (pcs s u) = Some c"
  then show False
  proof (cases "leads (pcs s u) = Some c")
    case True
    with assms(1,3) have "t = u" by (rule inv_leader_unique)
    with u assms(4) show False by simp
  next
    case False
    with u have "pcs s u = Panicked c" by (blast dest: crashed_cases)
    with assms(2,3) show False unfolding panicked_ok_def by blast
  qed
qed

lemma panicked_ok_move:
  assumes "panicked_ok s" "pcs s' = (pcs s)(t := p)" "leads p = leads (pcs s t)"
    and "\<And>c. p \<noteq> Panicked c"
  shows "panicked_ok s'"
proof -
  have "leads (pcs s' u) = leads (pcs s u)" for u using assms(2,3) by simp
  moreover have "pcs s' u = Panicked c \<Longrightarrow> pcs s u = Panicked c" for u c
    using assms(2) assms(4) [of c] by (simp split: if_splits)
  ultimately show ?thesis using assms(1) unfolding panicked_ok_def by metis
qed

lemma panicked_ok_step:
  "sf_step z b0 body env_step s s' \<Longrightarrow> inv_leader s \<Longrightarrow> inv_wg s \<Longrightarrow> panicked_ok s \<Longrightarrow> panicked_ok s'"
proof (induction rule: sf_step.induct)
  case (hit s t k c)
  show ?case by (rule panicked_ok_move [OF hit(5), where t = t and p = "Waiting c"]) (simp_all add: hit)
next
  case (miss s t k c)
  have "pcs s u \<noteq> Panicked c" for u
    using inv_leader_fresh(1) [OF miss(4), of u] miss(3) by auto
  with miss(6) show ?case by (auto simp: panicked_ok_def)
next
  case (run s t c k l x l')
  show ?case by (rule panicked_ok_move [OF run(5), where t = t and p = "Running c k l'"])
      (simp_all add: run)
next
  case (finish s t c k l x v e)
  show ?case by (rule panicked_ok_move [OF finish(5), where t = t and p = "Unlinking c k False"])
      (simp_all add: finish)
next
  case (crash s t c k l x)
  show ?case by (rule panicked_ok_move [OF crash(5), where t = t and p = "Unlinking c k True"])
      (simp_all add: crash)
next
  case (unlink s t c k p)
  show ?case by (rule panicked_ok_move [OF unlink(4), where t = t and p = "Signalling c p"])
      (simp_all add: unlink)
next
  case (signal s t c p)
  have t: "leads (pcs s t) = Some c" using signal(1) by simp
  have "leads (pcs s u) \<noteq> Some c" if "u \<noteq> t" for u
    using that t inv_leader_unique [OF signal(2)] by blast
  with signal(4) show ?case by (auto simp: panicked_ok_def)
next
  case (wake s t c)
  show ?case by (rule panicked_ok_move [OF wake(5), where t = t
        and p = "Returned c (val (cell s c)) (err (cell s c)) False"]) (simp_all add: wake)
next
  case (other s x)
  then show ?case by (simp add: panicked_ok_def)
qed

lemma unset_holds: "unset p = Some c \<Longrightarrow> leads p = Some c \<or> crashed p = Some c"
  by (cases p) auto

lemma unset_ok_move:
  assumes "unset_ok z s" "pcs s' = (pcs s)(t := p)"
    and "\<And>c. val (cell s' c) = val (cell s c)" "\<And>c. err (cell s' c) = err (cell s c)"
    and "unset p = None \<or> unset p = unset (pcs s t)"
  shows "unset_ok z s'"
  unfolding unset_ok_def
proof (intro allI impI)
  fix u c
  assume "unset (pcs s' u) = Some c"
  then have "unset (pcs s u) = Some c" using assms(2,5) by (auto split: if_splits)
  then show "val (cell s' c) = z \<and> err (cell s' c) = None"
    using assms(1,3,4) unfolding unset_ok_def by simp
qed

lemma unset_ok_step:
  "sf_step z b0 body env_step s s' \<Longrightarrow> inv_leader s \<Longrightarrow> panicked_ok s \<Longrightarrow> unset_ok z s \<Longrightarrow> unset_ok z s'"
proof (induction rule: sf_step.induct)
  case (hit s t k c)
  show ?case by (rule unset_ok_move [OF hit(5), where t = t and p = "Waiting c"]) (simp_all add: hit)
next
  case (miss s t k c)
  note fresh = inv_leader_fresh [OF miss(4), folded miss(3)]
  have "unset (pcs s u) \<noteq> Some c" for u
    using fresh(2,4) [of u] by (blast dest: unset_holds)
  with miss(6) show ?case by (auto simp: unset_ok_def)
next
  case (run s t c k l x l')
  show ?case by (rule unset_ok_move [OF run(5), where t = t and p = "Running c k l'"])
      (simp_all add: run)
next
  case (finish s t c k l x v e)
  have t: "leads (pcs s t) = Some c" "crashed (pcs s t) = None" using finish(1) by simp_all
  have "unset (pcs s u) \<noteq> Some c" if "u \<noteq> t" for u
    using that t inv_leader_unique [OF finish(3)] lead_not_crashed [OF finish(3,4) t]
    by (blast dest: unset_holds)
  with finish(5) show ?case by (auto simp: unset_ok_def)
next
  case (crash s t c k l x)
  show ?case by (rule unset_ok_move [OF crash(5), where t = t and p = "Unlinking c k True"])
      (simp_all add: crash)
next
  case (unlink s t c k p)
  show ?case by (rule unset_ok_move [OF unlink(4), where t = t and p = "Signalling c p"])
      (cases p; simp add: unlink)+
next
  case (signal s t c p)
  show ?case by (rule unset_ok_move [OF signal(4), where t = t
        and p = "if p then Panicked c else Returned c (val (cell s c)) (err (cell s c)) True"])
      (auto simp add: signal split: if_splits)
next
  case (wake s t c)
  show ?case by (rule unset_ok_move [OF wake(5), where t = t
        and p = "Returned c (val (cell s c)) (err (cell s c)) False"]) (simp_all add: wake)
next
  case (other s x)
  then show ?case by (simp add: unset_ok_def)
qed

definition settled :: "('k, 'v, 'e, 'l, 'x) flight \<Rightarrow> ('k, 'v, 'e, 'l) pc \<Rightarrow> bool" where
  "settled s p \<longleftrightarrow>
     (case p of
        Returned c v e f \<Rightarrow> v = val (cell s c) \<and> e = err (cell s c) \<and> c < next_call s \<and>
          (\<forall>u. leads (pcs s u) \<noteq> Some c) \<and> (f \<longrightarrow> (\<forall>u. crashed (pcs s u) \<noteq> Some c))
      | _ \<Rightarrow> True)"

lemma returned_ok_settled:
  assumes l: "inv_leader s"
  shows "returned_ok s \<longleftrightarrow> (\<forall>t. settled s (pcs s t))"
proof
  assume r: "returned_ok s"
  show "\<forall>t. settled s (pcs s t)"
  proof
    fix t
    show "settled s (pcs s t)"
    proof (cases "pcs s t")
      case (Returned c v e f)
      then have "c < next_call s" by (intro inv_leader_bound [OF l, where t = t]) simp
      with r Returned show ?thesis unfolding returned_ok_def settled_def by simp
    qed (simp_all add: settled_def)
  qed
next
  assume "\<forall>t. settled s (pcs s t)"
  then have "settled s (Returned c v e f)" if "pcs s t = Returned c v e f" for t c v e f
    using that by metis
  then show "returned_ok s" by (auto simp: returned_ok_def settled_def)
qed

text \<open>
  A result stays as it is under every step: no step writes a call that nobody leads, and nobody
  becomes the leader of a call that is not new.
\<close>

lemma settled_move:
  assumes "settled s q" "pcs s' = (pcs s)(t := p)" "next_call s \<le> next_call s'"
    and "\<And>c. c < next_call s \<Longrightarrow> leads (pcs s t) \<noteq> Some c \<Longrightarrow>
           val (cell s' c) = val (cell s c) \<and> err (cell s' c) = err (cell s c)"
    and "\<And>c. c < next_call s \<Longrightarrow> leads p = Some c \<Longrightarrow> leads (pcs s t) = Some c"
    and "\<And>c. crashed p = Some c \<Longrightarrow> leads (pcs s t) = Some c \<or> crashed (pcs s t) = Some c"
  shows "settled s' q"
proof (cases q)
  case (Returned c v e f)
  with assms(1) have c: "c < next_call s" "\<And>u. leads (pcs s u) \<noteq> Some c"
    "v = val (cell s c)" "e = err (cell s c)" "f \<Longrightarrow> crashed (pcs s u) \<noteq> Some c" for u
    by (auto simp: settled_def)
  have "leads (pcs s' u) \<noteq> Some c" for u
    using assms(2) assms(5) [of c] c by (cases "u = t") auto
  moreover have "crashed (pcs s' u) \<noteq> Some c" if f for u
    using that assms(2) assms(6) [of c] c(2) c(5) by (cases "u = t") auto
  ultimately show ?thesis
    using Returned c assms(3) assms(4) [of c] by (simp add: settled_def)
qed (simp_all add: settled_def)

lemma returned_ok_move:
  assumes "inv_leader s" "returned_ok s" "inv_leader s'" "pcs s' = (pcs s)(t := p)"
    and "next_call s \<le> next_call s'"
    and "\<And>c. c < next_call s \<Longrightarrow> leads (pcs s t) \<noteq> Some c \<Longrightarrow>
           val (cell s' c) = val (cell s c) \<and> err (cell s' c) = err (cell s c)"
    and "\<And>c. c < next_call s \<Longrightarrow> leads p = Some c \<Longrightarrow> leads (pcs s t) = Some c"
    and "\<And>c. crashed p = Some c \<Longrightarrow> leads (pcs s t) = Some c \<or> crashed (pcs s t) = Some c"
    and "settled s' p"
  shows "returned_ok s'"
proof -
  have "settled s' (pcs s u)" for u
    using assms(1,2) by (intro settled_move [OF _ assms(4-8)]) (simp_all add: returned_ok_settled)
  with assms(3,4,9) show ?thesis by (simp add: returned_ok_settled)
qed

lemma returned_ok_step:
  assumes "sf_step z b0 body env_step s s'" "inv_leader s" "inv_wg s" "panicked_ok s"
    "returned_ok s" "inv_leader s'"
  shows "returned_ok s'"
  using assms(1)
proof (cases rule: sf_step.cases)
  case (hit t k c)
  show ?thesis by (rule returned_ok_move [OF assms(2,5,6), where t = t and p = "Waiting c"])
      (simp_all add: hit settled_def)
next
  case (miss t k c)
  show ?thesis by (rule returned_ok_move [OF assms(2,5,6), where t = t and p = "Running c k b0"])
      (simp_all add: miss settled_def)
next
  case (run t c k l x l')
  show ?thesis by (rule returned_ok_move [OF assms(2,5,6), where t = t and p = "Running c k l'"])
      (simp_all add: run settled_def)
next
  case (finish t c k l x v e)
  show ?thesis
    by (rule returned_ok_move [OF assms(2,5,6), where t = t and p = "Unlinking c k False"])
      (simp_all add: finish settled_def)
next
  case (crash t c k l x)
  show ?thesis
    by (rule returned_ok_move [OF assms(2,5,6), where t = t and p = "Unlinking c k True"])
      (simp_all add: crash settled_def)
next
  case (unlink t c k p)
  show ?thesis
    by (rule returned_ok_move [OF assms(2,5,6), where t = t and p = "Signalling c p"])
      (cases p; simp add: unlink settled_def)+
next
  case (signal t c p)
  let ?q = "if p then Panicked c else Returned c (val (cell s c)) (err (cell s c)) True"
  have t: "leads (pcs s t) = Some c" using signal(2) by simp
  have nl: "leads (((pcs s)(t := ?q)) u) \<noteq> Some c" for u
    using t inv_leader_unique [OF assms(2)] by auto
  have nc: "crashed (((pcs s)(t := ?q)) u) \<noteq> Some c" if "\<not> p" for u
    using that signal(2) lead_not_crashed [OF assms(2,4) t, of u] by simp
  have "settled s' ?q"
    using nl nc inv_leader_bound [OF assms(2) leads_holds [OF t]]
    by (cases p) (simp_all add: settled_def signal(1))
  then show ?thesis
    by (intro returned_ok_move [OF assms(2,5,6), where t = t and p = ?q])
      (auto simp: signal split: if_splits)
next
  case (wake t c)
  let ?q = "Returned c (val (cell s c)) (err (cell s c)) False"
  have c: "c < next_call s" by (rule inv_leader_bound [OF assms(2), where t = t]) (simp add: wake)
  with assms(3) wake(3) have "leads (pcs s u) \<noteq> Some c" for u
    unfolding inv_wg_def by (metis zero_neq_one)
  then have "settled s' ?q" using c by (simp add: settled_def wake)
  then show ?thesis
    by (intro returned_ok_move [OF assms(2,5,6), where t = t and p = ?q]) (simp_all add: wake)
next
  case (other x)
  with assms(5) show ?thesis by (simp add: returned_ok_def)
qed

theorem sf_inv_step: "sf_step z b0 body env_step s s' \<Longrightarrow> sf_inv z s \<Longrightarrow> sf_inv z s'"
  unfolding sf_inv_def
  by (blast intro: inv_links_step inv_leader_step inv_wg_step panicked_ok_step unset_ok_step
      returned_ok_step)

lemma sf_inv_init: "sf_init x0 s \<Longrightarrow> sf_inv z s"
  by (simp add: sf_init_def sf_inv_def inv_links_def inv_leader_def inv_wg_def panicked_ok_def
      unset_ok_def returned_ok_def)

interpretation sf: transition_invariant "sf_init x0" "sf_step z b0 body env_step" "sf_inv z"
  for x0 z b0 body env_step
  by unfold_locales (blast intro: sf_inv_init sf_inv_step)+

end
