(* ===== verification/Singleflight_Props.thy ===== *)
theory Singleflight_Props
  imports Singleflight
begin

text \<open>
  What \<open>SingleFlight\<close> promises, for every schedule: one execution per key at a time, one result for
  everybody who joined it, no lost wake-up; and what happens to those who joined a call whose
  function panicked. \<open>sf_run\<close> replays a schedule, so that the properties can be seen at work on
  concrete runs. The locale \<open>exclusive_body\<close> is the way a client reasons about the function it
  passes: as only one execution per key is under way, what the client knows about its own key
  need not survive a second execution of the same key.
\<close>

section \<open>Owners\<close>

text \<open>The goroutine that created a call, whatever became of it.\<close>

fun owns :: "('k, 'v, 'e, 'l) pc \<Rightarrow> nat option" where
  "owns (Returned c v e True) = Some c"
| "owns (Panicked c) = Some c"
| "owns p = leads p"

definition inv_owner :: "('k, 'v, 'e, 'l, 'x) flight \<Rightarrow> bool" where
  "inv_owner s \<longleftrightarrow>
     (\<forall>t u c. owns (pcs s t) = Some c \<longrightarrow> owns (pcs s u) = Some c \<longrightarrow> t = u) \<and>
     (\<forall>c < next_call s. \<exists>t. owns (pcs s t) = Some c)"

lemma owns_holds: "owns p = Some c \<Longrightarrow> holds p = Some c"
  by (cases p rule: owns.cases) auto

lemma leads_owns: "leads p = Some c \<Longrightarrow> owns p = Some c"
  by (cases p) auto

lemma crashed_owns: "crashed p = Some c \<Longrightarrow> owns p = Some c"
  by (cases p rule: crashed.cases) auto

lemma inv_owner_move:
  assumes "inv_owner s" "pcs s' = (pcs s)(t := p)" "owns p = owns (pcs s t)"
    and "next_call s' = next_call s"
  shows "inv_owner s'"
proof -
  have "owns (pcs s' u) = owns (pcs s u)" for u
    using assms(2,3) by simp
  with assms(1,4) show ?thesis unfolding inv_owner_def by simp
qed

lemma inv_owner_step:
  assumes "sf_step z b0 body env_step s s'" "inv_leader s" "inv_owner s"
  shows "inv_owner s'"
  using assms(1)
proof (cases rule: sf_step.cases)
  case (hit t k c)
  show ?thesis by (rule inv_owner_move [OF assms(3), where t = t and p = "Waiting c"]) (simp_all add: hit)
next
  case (miss t k c)
  have "owns (pcs s u) \<noteq> Some c" for u
    using inv_leader_fresh(1) [OF assms(2), of u] miss(4) by (blast dest: owns_holds)
  note fresh = this
  have idle: "owns (pcs s t) = None" using miss(2) by simp
  have "\<exists>u. owns (((pcs s)(t := Running c k b0)) u) = Some c'" if c': "c' < Suc c" for c'
  proof (cases "c' = c")
    case True
    then show ?thesis by (intro exI [of _ t]) simp
  next
    case False
    with c' miss(4) assms(3) obtain u where "owns (pcs s u) = Some c'"
      unfolding inv_owner_def by (metis less_SucE)
    with idle show ?thesis by (intro exI [of _ u]) auto
  qed
  moreover have "u = w" if "owns (((pcs s)(t := Running c k b0)) u) = Some c'"
    "owns (((pcs s)(t := Running c k b0)) w) = Some c'" for u w c'
    using that fresh assms(3) unfolding inv_owner_def by (simp split: if_splits)
  ultimately show ?thesis by (simp add: inv_owner_def miss(1) del: fun_upd_apply)
next
  case (run t c k l x l')
  show ?thesis by (rule inv_owner_move [OF assms(3), where t = t and p = "Running c k l'"])
      (simp_all add: run)
next
  case (finish t c k l x v e)
  show ?thesis by (rule inv_owner_move [OF assms(3), where t = t and p = "Unlinking c k False"])
      (simp_all add: finish)
next
  case (crash t c k l x)
  show ?thesis by (rule inv_owner_move [OF assms(3), where t = t and p = "Unlinking c k True"])
      (simp_all add: crash)
next
  case (unlink t c k p)
  show ?thesis by (rule inv_owner_move [OF assms(3), where t = t and p = "Signalling c p"])
      (simp_all add: unlink)
next
  case (signal t c p)
  show ?thesis by (rule inv_owner_move [OF assms(3), where t = t
        and p = "if p then Panicked c else Returned c (val (cell s c)) (err (cell s c)) True"])
      (simp_all add: signal)
next
  case (wake t c)
  show ?thesis by (rule inv_owner_move [OF assms(3), where t = t
        and p = "Returned c (val (cell s c)) (err (cell s c)) False"]) (simp_all add: wake)
next
  case (other x)
  with assms(3) show ?thesis by (simp add: inv_owner_def)
qed

interpretation sf_own: transition_invariant "sf_init x0" "sf_step z b0 body env_step"
  "\<lambda>s. sf_inv z s \<and> inv_owner s"
  for x0 z b0 body env_step
proof (unfold_locales, goal_cases)
  case (1 s)
  then show ?case by (auto simp: inv_owner_def sf_init_def intro: sf_inv_init [of x0])
next
  case (2 s s')
  then have "inv_leader s" by (simp add: sf_inv_def)
  with 2 show ?case by (blast intro: sf_inv_step inv_owner_step)
qed

lemma linked_unique:
  assumes "sf_inv z s" "linked (pcs s t) = Some (c, k)" "linked (pcs s u) = Some (c', k)"
  shows "t = u" "c = c'"
proof -
  from assms have "calls s k = Some c" "calls s k = Some c'"
    by (auto simp: sf_inv_def inv_links_iff)
  then show "c = c'" by simp
  with assms show "t = u" by (auto simp: sf_inv_def dest!: linked_leads intro: inv_leader_unique)
qed

section \<open>Schedules\<close>

text \<open>
  A schedule names, step by step, which goroutine moves; \<open>Call t k\<close> starts the call of \<open>t\<close>. The
  function is given as a HOL function here, so that a schedule can be evaluated.
\<close>

datatype 'k action = Call nat 'k | Move nat

fun sf_exec ::
  "'v \<Rightarrow> 'l \<Rightarrow> ('k \<Rightarrow> 'l \<Rightarrow> 'x \<Rightarrow> 'x \<times> ('l, 'v, 'e) progress) \<Rightarrow> 'k action \<Rightarrow>
   ('k, 'v, 'e, 'l, 'x) flight \<Rightarrow> ('k, 'v, 'e, 'l, 'x) flight option" where
  "sf_exec z b0 f (Call t k) s =
     (case pcs s t of
        Idle \<Rightarrow>
          (case calls s k of
             Some c \<Rightarrow> Some (s\<lparr>pcs := (pcs s)(t := Waiting c)\<rparr>)
           | None \<Rightarrow>
               Some (s\<lparr>calls := (calls s)(k \<mapsto> next_call s),
                 cell := (cell s)(next_call s := \<lparr>wg = 1, val = z, err = None, ckey = k\<rparr>),
                 next_call := Suc (next_call s), pcs := (pcs s)(t := Running (next_call s) k b0)\<rparr>))
      | _ \<Rightarrow> None)"
| "sf_exec z b0 f (Move t) s =
     (case pcs s t of
        Running c k l \<Rightarrow>
          (case f k l (shared s) of
             (x, Continue l') \<Rightarrow> Some (s\<lparr>pcs := (pcs s)(t := Running c k l'), shared := x\<rparr>)
           | (x, Finish v e) \<Rightarrow>
               Some (s\<lparr>cell := (cell s)(c := (cell s c)\<lparr>val := v, err := e\<rparr>),
                 pcs := (pcs s)(t := Unlinking c k False), shared := x\<rparr>)
           | (x, Crash) \<Rightarrow> Some (s\<lparr>pcs := (pcs s)(t := Unlinking c k True), shared := x\<rparr>))
      | Unlinking c k p \<Rightarrow>
          Some (s\<lparr>calls := (calls s)(k := None), pcs := (pcs s)(t := Signalling c p)\<rparr>)
      | Signalling c p \<Rightarrow>
          Some (s\<lparr>cell := (cell s)(c := (cell s c)\<lparr>wg := wg (cell s c) - 1\<rparr>),
            pcs := (pcs s)(t := if p then Panicked c
                                else Returned c (val (cell s c)) (err (cell s c)) True)\<rparr>)
      | Waiting c \<Rightarrow>
          if wg (cell s c) = 0
          then Some (s\<lparr>pcs := (pcs s)(t := Returned c (val (cell s c)) (err (cell s c)) False)\<rparr>)
          else None
      | _ \<Rightarrow> None)"

fun sf_run ::
  "'v \<Rightarrow> 'l \<Rightarrow> ('k \<Rightarrow> 'l \<Rightarrow> 'x \<Rightarrow> 'x \<times> ('l, 'v, 'e) progress) \<Rightarrow> 'k action list \<Rightarrow>
   ('k, 'v, 'e, 'l, 'x) flight \<Rightarrow> ('k, 'v, 'e, 'l, 'x) flight option" where
  "sf_run z b0 f [] s = Some s"
| "sf_run z b0 f (a # as) s =
     (case sf_exec z b0 f a s of None \<Rightarrow> None | Some s' \<Rightarrow> sf_run z b0 f as s')"

abbreviation body_of ::
  "('k \<Rightarrow> 'l \<Rightarrow> 'x \<Rightarrow> 'x \<times> ('l, 'v, 'e) progress) \<Rightarrow>
   'k \<Rightarrow> 'l \<Rightarrow> 'x \<Rightarrow> 'x \<Rightarrow> ('l, 'v, 'e) progress \<Rightarrow> bool" where
  "body_of f \<equiv> \<lambda>k l x x' p. f k l x = (x', p)"

lemma sf_exec_step:
  assumes "sf_exec z b0 f a s = Some s'"
  shows "sf_step z b0 (body_of f) env_step s s'"
proof (cases a)
  case (Call t k)
  with assms show ?thesis
    by (auto split: pc.splits option.splits
        intro: sf_step.hit sf_step.miss [of _ _ _ "next_call s", unfolded One_nat_def])
next
  case (Move t)
  show ?thesis
  proof (cases "pcs s t")
    case (Running c k l)
    with assms Move show ?thesis
      by (auto split: prod.splits progress.splits
          intro: sf_step.run sf_step.finish sf_step.crash)
  qed (use assms Move in \<open>auto split: if_splits
      intro: sf_step.unlink sf_step.signal [of s t _ True, simplified]
        sf_step.signal [of s t _ False, simplified] sf_step.wake\<close>)
qed

lemma sf_run_steps:
  "sf_run z b0 f as s = Some s' \<Longrightarrow> (sf_step z b0 (body_of f) env_step)\<^sup>*\<^sup>* s s'"
proof (induction "as" arbitrary: s)
  case (Cons a as)
  then obtain s1 where "sf_exec z b0 f a s = Some s1" "sf_run z b0 f as s1 = Some s'"
    by (auto split: option.splits)
  with Cons.IH show ?case by (blast intro: sf_exec_step converse_rtranclp_into_rtranclp)
qed simp

definition sf_start :: "'v \<Rightarrow> 'k \<Rightarrow> 'x \<Rightarrow> ('k, 'v, 'e, 'l, 'x) flight" where
  "sf_start z k x = \<lparr>calls = Map.empty,
     cell = (\<lambda>_. \<lparr>wg = 0, val = z, err = None, ckey = k\<rparr>),
     next_call = 0, pcs = (\<lambda>_. Idle), shared = x\<rparr>"

lemma sf_run_reach:
  assumes "sf_run z b0 f as (sf_start z k x) = Some s'" "x0 x"
  shows "reach (sf_init x0) (sf_step z b0 (body_of f) env_step) s'"
proof -
  have "sf_init x0 (sf_start z k x)" using assms(2) by (simp add: sf_init_def sf_start_def)
  then show ?thesis by (blast intro: reach_rtranclp reach_init sf_run_steps assms(1))
qed

section \<open>The contract of a client\<close>

text \<open>
  \<open>own k l x\<close> is what the running function of key \<open>k\<close> knows of its own state and of the shared
  data, \<open>res k v e x\<close> what its result says. Other keys and other code keep both; the function of
  the same key does not have to keep \<open>own\<close>, as it never runs twice at a time.
\<close>

locale exclusive_body =
  fixes b0 :: 'l
    and body :: "'k \<Rightarrow> 'l \<Rightarrow> 'x \<Rightarrow> 'x \<Rightarrow> ('l, 'v, 'e) progress \<Rightarrow> bool"
    and env_step :: "'x \<Rightarrow> 'x \<Rightarrow> bool"
    and glob :: "'x \<Rightarrow> bool"
    and own :: "'k \<Rightarrow> 'l \<Rightarrow> 'x \<Rightarrow> bool"
    and res :: "'k \<Rightarrow> 'v \<Rightarrow> 'e option \<Rightarrow> 'x \<Rightarrow> bool"
  assumes own_start: "glob x \<Longrightarrow> own k b0 x"
    and own_step: "glob x \<Longrightarrow> own k l x \<Longrightarrow> body k l x x' (Continue l') \<Longrightarrow> own k l' x'"
    and res_finish: "glob x \<Longrightarrow> own k l x \<Longrightarrow> body k l x x' (Finish v e) \<Longrightarrow> res k v e x'"
    and glob_body: "glob x \<Longrightarrow> own k l x \<Longrightarrow> body k l x x' p \<Longrightarrow> glob x'"
    and glob_env: "glob x \<Longrightarrow> env_step x x' \<Longrightarrow> glob x'"
    and own_others: "glob x \<Longrightarrow> own k l x \<Longrightarrow> own k' l' x \<Longrightarrow> k' \<noteq> k \<Longrightarrow> body k' l' x x' p \<Longrightarrow> own k l x'"
    and own_env: "glob x \<Longrightarrow> own k l x \<Longrightarrow> env_step x x' \<Longrightarrow> own k l x'"
    and res_body: "glob x \<Longrightarrow> own k' l x \<Longrightarrow> body k' l x x' p \<Longrightarrow> res k v e x \<Longrightarrow> res k v e x'"
    and res_env: "glob x \<Longrightarrow> env_step x x' \<Longrightarrow> res k v e x \<Longrightarrow> res k v e x'"

fun stored :: "('k, 'v, 'e, 'l) pc \<Rightarrow> nat option" where
  "stored (Unlinking c k False) = Some c"
| "stored (Signalling c False) = Some c"
| "stored (Returned c v e True) = Some c"
| "stored _ = None"

lemma stored_holds: "stored p = Some c \<Longrightarrow> holds p = Some c"
  by (cases p rule: stored.cases) auto

lemma owns_cases: "owns p = Some c \<Longrightarrow> leads p = Some c \<or> p = Panicked c \<or> stored p = Some c"
  by (cases p rule: owns.cases) auto

definition client_inv ::
  "('x \<Rightarrow> bool) \<Rightarrow> ('k \<Rightarrow> 'l \<Rightarrow> 'x \<Rightarrow> bool) \<Rightarrow> ('k \<Rightarrow> 'v \<Rightarrow> 'e option \<Rightarrow> 'x \<Rightarrow> bool) \<Rightarrow>
   ('k, 'v, 'e, 'l, 'x) flight \<Rightarrow> bool" where
  "client_inv glob own res s \<longleftrightarrow>
     glob (shared s) \<and>
     (\<forall>t c k l. pcs s t = Running c k l \<longrightarrow> own k l (shared s)) \<and>
     (\<forall>t c. stored (pcs s t) = Some c \<longrightarrow>
        res (ckey (cell s c)) (val (cell s c)) (err (cell s c)) (shared s))"

context exclusive_body
begin

lemma client_inv_move:
  assumes "client_inv glob own res s" "pcs s' = (pcs s)(t := p)"
    and "glob (shared s')"
    and "\<And>u c k l. u \<noteq> t \<Longrightarrow> pcs s u = Running c k l \<Longrightarrow> own k l (shared s')"
    and "\<And>c k l. p = Running c k l \<Longrightarrow> own k l (shared s')"
    and "\<And>u c. stored (pcs s u) = Some c \<Longrightarrow>
           res (ckey (cell s' c)) (val (cell s' c)) (err (cell s' c)) (shared s')"
    and "\<And>c. stored p = Some c \<Longrightarrow> stored (pcs s t) = Some c \<or>
           res (ckey (cell s' c)) (val (cell s' c)) (err (cell s' c)) (shared s')"
  shows "client_inv glob own res s'"
  unfolding client_inv_def
proof (intro conjI allI impI)
  show "glob (shared s')" by fact
next
  fix u c k l
  assume "pcs s' u = Running c k l"
  then show "own k l (shared s')" using assms(2,4,5) by (cases "u = t") auto
next
  fix u c
  assume "stored (pcs s' u) = Some c"
  then show "res (ckey (cell s' c)) (val (cell s' c)) (err (cell s' c)) (shared s')"
    using assms(2) assms(6) [of u c] assms(6) [of t c] assms(7) [of c] by (cases "u = t") auto
qed

lemma client_body:
  assumes "client_inv glob own res s" "inv_links s" "inv_leader s"
    and "pcs s t = Running c k l" "body k l (shared s) x p"
  shows "glob x"
    and "u \<noteq> t \<Longrightarrow> pcs s u = Running c' k' l' \<Longrightarrow> own k' l' x"
    and "stored (pcs s u) = Some c' \<Longrightarrow> res (ckey (cell s c')) (val (cell s c')) (err (cell s c')) x"
proof -
  have g: "glob (shared s)" "own k l (shared s)"
    using assms(1,4) unfolding client_inv_def by blast+
  show "glob x" by (rule glob_body [OF g assms(5)])
  show "res (ckey (cell s c')) (val (cell s c')) (err (cell s c')) x"
    if "stored (pcs s u) = Some c'"
    using that assms(1) unfolding client_inv_def by (blast intro: res_body [OF g assms(5)])
  show "own k' l' x" if "u \<noteq> t" "pcs s u = Running c' k' l'"
  proof -
    have "own k' l' (shared s)" using that assms(1) unfolding client_inv_def by blast
    moreover have "k' \<noteq> k"
    proof
      assume "k' = k"
      with that assms(4) have "linked (pcs s u) = Some (c', k)" "linked (pcs s t) = Some (c, k)"
        by simp_all
      then have "c' = c" using inv_links_iff [OF assms(2), of k] by (metis option.inject)
      with that assms(3,4) show False by (metis inv_leader_unique leads.simps(1))
    qed
    ultimately show ?thesis using own_others g assms(5) by metis
  qed
qed

lemma client_inv_step:
  assumes "sf_step z b0 body env_step s s'" "sf_inv z s" "inv_owner s" "client_inv glob own res s"
  shows "client_inv glob own res s'"
proof -
  from assms(2) have inv: "inv_links s" "inv_leader s" "panicked_ok s" by (simp_all add: sf_inv_def)
  have g: "glob (shared s)" and o: "pcs s u = Running c k l \<Longrightarrow> own k l (shared s)"
    and r: "stored (pcs s u) = Some c \<Longrightarrow>
      res (ckey (cell s c)) (val (cell s c)) (err (cell s c)) (shared s)" for u c k l
    using assms(4) unfolding client_inv_def by blast+
  from assms(1) show ?thesis
  proof (cases rule: sf_step.cases)
    case (hit t k c)
    show ?thesis
      by (rule client_inv_move [OF assms(4), where t = t and p = "Waiting c"])
        (use g o r in \<open>simp_all add: hit(1)\<close>)
  next
    case (miss t k c)
    have "stored (pcs s u) \<noteq> Some c" for u
      using inv_leader_fresh(1) [OF inv(2), of u] miss(4) by (blast dest: stored_holds)
    then show ?thesis
      by (intro client_inv_move [OF assms(4), where t = t and p = "Running c k b0"])
        (use g o r own_start in \<open>auto simp add: miss(1)\<close>)
  next
    case (run t c k l x l')
    note b = client_body [OF assms(4) inv(1,2) run(2,3)]
    have "own k l' x" by (rule own_step [OF g o [OF run(2)] run(3)])
    with b show ?thesis
      by (intro client_inv_move [OF assms(4), where t = t and p = "Running c k l'"])
        (simp_all add: run(1))
  next
    case (finish t c k l x v e)
    note b = client_body [OF assms(4) inv(1,2) finish(2,3)]
    have k: "ckey (cell s c) = k"
      by (rule inv_leader_ckey [OF inv(2), where t = t]) (simp add: finish(2))
    have "res k v e x" by (rule res_finish [OF g o [OF finish(2)] finish(3)])
    moreover have "stored (pcs s u) \<noteq> Some c" for u
    proof
      assume "stored (pcs s u) = Some c"
      then have "owns (pcs s u) = Some c" by (cases "pcs s u" rule: stored.cases) simp_all
      with finish(2) assms(3) have "u = t" by (auto simp: inv_owner_def)
      with \<open>stored (pcs s u) = Some c\<close> finish(2) show False by simp
    qed
    ultimately show ?thesis using b k
      by (intro client_inv_move [OF assms(4), where t = t and p = "Unlinking c k False"])
        (auto simp add: finish(1))
  next
    case (crash t c k l x)
    note b = client_body [OF assms(4) inv(1,2) crash(2,3)]
    then show ?thesis
      by (intro client_inv_move [OF assms(4), where t = t and p = "Unlinking c k True"])
        (simp_all add: crash(1))
  next
    case (unlink t c k p)
    show ?thesis
      by (rule client_inv_move [OF assms(4), where t = t and p = "Signalling c p"])
        (use g o r in \<open>cases p; simp add: unlink\<close>)+
  next
    case (signal t c p)
    show ?thesis
      by (rule client_inv_move [OF assms(4), where t = t
            and p = "if p then Panicked c else Returned c (val (cell s c)) (err (cell s c)) True"])
        (use g o r in \<open>auto simp add: signal split: if_splits\<close>)
  next
    case (wake t c)
    show ?thesis
      by (rule client_inv_move [OF assms(4), where t = t
            and p = "Returned c (val (cell s c)) (err (cell s c)) False"])
        (use g o r in \<open>simp_all add: wake(1)\<close>)
  next
    case (other x)
    with g o r show ?thesis
      by (auto simp: client_inv_def intro: glob_env own_env res_env)
  qed
qed

text \<open>
  What everyone who asked for a key gets: the result of an execution of the client's function
  for that key, unless the goroutine that ran it panicked.
\<close>

lemma client_inv_reach:
  assumes "reach (sf_init glob) (sf_step z b0 body env_step) s"
  shows "sf_inv z s \<and> inv_owner s \<and> client_inv glob own res s"
  using assms
proof (induction rule: reach.induct)
  case (reach_init s)
  then show ?case
    using sf_own.inv_init [of glob s z]
    by (auto simp: client_inv_def sf_init_def)
next
  case (reach_step s s')
  with sf_own.inv_step [of z s b0 body env_step s'] show ?case
    by (blast intro: client_inv_step)
qed

lemma returned_result:
  assumes "reach (sf_init glob) (sf_step z b0 body env_step) s" "pcs s t = Returned c v e f"
  shows "(\<exists>u. pcs s u = Panicked c) \<or> res (ckey (cell s c)) v e (shared s)"
proof -
  from client_inv_reach [OF assms(1)]
  have inv: "inv_leader s" "returned_ok s" "inv_owner s" "client_inv glob own res s"
    by (simp_all add: sf_inv_def)
  have c: "c < next_call s" by (rule inv_leader_bound [OF inv(1), where t = t]) (simp add: assms(2))
  from inv(2) assms(2) have v: "v = val (cell s c)" "e = err (cell s c)"
    and l: "leads (pcs s u) \<noteq> Some c" for u
    unfolding returned_ok_def by blast+
  from c inv(3) obtain u where "owns (pcs s u) = Some c" unfolding inv_owner_def by blast
  with l owns_cases have "pcs s u = Panicked c \<or> stored (pcs s u) = Some c" by blast
  with inv(4) v show ?thesis unfolding client_inv_def by blast
qed

end

section \<open>Properties\<close>

text \<open>
  A concrete client for the witnesses: the function counts its executions in the shared data and
  returns the count; for the key \<open>0\<close> it panics instead.
\<close>

definition count_body :: "nat \<Rightarrow> unit \<Rightarrow> nat \<Rightarrow> nat \<times> (unit, nat, string) progress" where
  "count_body k l x = (Suc x, if k = 0 then Crash else Finish (Suc x) None)"

abbreviation count_reach :: "(nat, nat, string, unit, nat) flight \<Rightarrow> bool" where
  "count_reach \<equiv> reach (sf_init (\<lambda>x. x = 0)) (sf_step 0 () (body_of count_body) (\<lambda>_ _. False))"

definition count_run :: "nat action list \<Rightarrow> (nat, nat, string, unit, nat) flight" where
  "count_run as = the (sf_run 0 () count_body as (sf_start 0 0 0))"

lemma count_run_reach:
  "sf_run 0 () count_body as (sf_start 0 0 0) \<noteq> None \<Longrightarrow> count_reach (count_run as)"
  by (auto simp: count_run_def intro: sf_run_reach)

lemmas count_simps = count_run_def count_body_def sf_start_def

text \<open>
  C6: at most one execution of a key at a time. In every reachable state two goroutines that run
  the function for the same key are the same one, and a key is in the map of calls exactly while
  one goroutine runs the function for it or is about to delete the entry, so that a call which is
  over is never joined.
\<close>

theorem one_execution_per_key:
  assumes "reach (sf_init x0) (sf_step z b0 body env_step) s"
  shows "(\<forall>t u c c' l l'. pcs s t = Running c k l \<longrightarrow> pcs s u = Running c' k l' \<longrightarrow> t = u \<and> c = c') \<and>
    (\<forall>c. calls s k = Some c \<longleftrightarrow>
      (\<exists>!t. (\<exists>l. pcs s t = Running c k l) \<or> (\<exists>p. pcs s t = Unlinking c k p)))"
proof (intro conjI allI)
  have inv: "sf_inv z s" by (rule sf.inv_reach [OF assms])
  have *: "linked (pcs s t) = Some (c, k) \<longleftrightarrow>
      (\<exists>l. pcs s t = Running c k l) \<or> (\<exists>p. pcs s t = Unlinking c k p)" for t c
    by (cases "pcs s t") auto
  show "pcs s t = Running c k l \<longrightarrow> pcs s u = Running c' k l' \<longrightarrow> t = u \<and> c = c'" for t u c c' l l'
    using linked_unique [OF inv, of t c k u c'] by simp
  show "calls s k = Some c \<longleftrightarrow>
      (\<exists>!t. (\<exists>l. pcs s t = Running c k l) \<or> (\<exists>p. pcs s t = Unlinking c k p))" for c
    using inv linked_unique(1) [OF inv] unfolding * [symmetric] by (metis inv_links_iff sf_inv_def)
qed

theorem one_execution_per_key_witness:
  "calls (count_run [Call 1 5, Call 2 5]) 5 = Some 0 \<and>
   (\<exists>!t. (\<exists>l. pcs (count_run [Call 1 5, Call 2 5]) t = Running 0 5 l) \<or>
         (\<exists>p. pcs (count_run [Call 1 5, Call 2 5]) t = Unlinking 0 5 p))"
proof -
  let ?s = "count_run [Call 1 5, Call 2 5]"
  have 1: "count_reach ?s" by (rule count_run_reach) (simp add: count_simps)
  have 2: "calls ?s 5 = Some 0" by (simp add: count_simps)
  from one_execution_per_key [OF 1, of 5] have
    "calls ?s 5 = Some 0 \<longleftrightarrow>
      (\<exists>!t. (\<exists>l. pcs ?s t = Running 0 5 l) \<or> (\<exists>p. pcs ?s t = Unlinking 0 5 p))" by blast
  with 2 show ?thesis by blast
qed



text \<open>
  When the function panics, the deferred code still runs, so nobody waits for ever; but the
  goroutines that joined the call return the zero value with a nil error and cannot tell it from a
  result.
\<close>

theorem waiters_of_a_panic:
  assumes "reach (sf_init x0) (sf_step z b0 body env_step) s"
    and "pcs s u = Panicked c" "pcs s t = Returned c v e f"
  shows "v = z \<and> e = None \<and> \<not> f"
proof -
  from sf.inv_reach [OF assms(1)] have inv: "returned_ok s" "unset_ok z s"
    by (simp_all add: sf_inv_def)
  have "crashed (pcs s u) = Some c" "unset (pcs s u) = Some c" using assms(2) by simp_all
  moreover have "v = val (cell s c)" "e = err (cell s c)" "f \<Longrightarrow> crashed (pcs s u) \<noteq> Some c"
    using assms(3) inv(1) unfolding returned_ok_def by blast+
  ultimately show ?thesis using inv(2) unfolding unset_ok_def by metis
qed

theorem waiters_of_a_panic_witness:
  "pcs (count_run [Call 1 0, Call 2 0, Move 1, Move 1, Move 1, Move 2]) 1 = Panicked 0 \<and>
   pcs (count_run [Call 1 0, Call 2 0, Move 1, Move 1, Move 1, Move 2]) 2 = Returned 0 0 None False \<and>
   (0::nat) = 0 \<and> (None :: string option) = None \<and> \<not> False"
proof -
  let ?s = "count_run [Call 1 0, Call 2 0, Move 1, Move 1, Move 1, Move 2]"
  have 1: "count_reach ?s" by (rule count_run_reach) (simp add: count_simps)
  have 2: "pcs ?s 1 = Panicked 0" "pcs ?s 2 = Returned 0 0 None False"
    by (simp_all add: count_simps)
  show ?thesis using waiters_of_a_panic [OF 1 2] 2 by blast
qed

subsection \<open>Progress\<close>

text \<open>A run of the function that comes to an end, by returning or by panicking.\<close>

inductive ends :: "('k \<Rightarrow> 'l \<Rightarrow> 'x \<Rightarrow> 'x \<Rightarrow> ('l, 'v, 'e) progress \<Rightarrow> bool) \<Rightarrow> 'k \<Rightarrow> 'l \<Rightarrow> 'x \<Rightarrow> bool"
  for body :: "'k \<Rightarrow> 'l \<Rightarrow> 'x \<Rightarrow> 'x \<Rightarrow> ('l, 'v, 'e) progress \<Rightarrow> bool" and k :: 'k where
  ends_finish: "body k l x x' (Finish v e) \<Longrightarrow> ends body k l x"
| ends_crash: "body k l x x' Crash \<Longrightarrow> ends body k l x"
| ends_step: "body k l x x' (Continue l') \<Longrightarrow> ends body k l' x' \<Longrightarrow> ends body k l x"

lemma steps_one: "r s t \<Longrightarrow> r\<^sup>*\<^sup>* t u \<Longrightarrow> r\<^sup>*\<^sup>* s u"
  by (rule converse_rtranclp_into_rtranclp)

lemma leader_unlinks:
  assumes "ends body k l (shared s)" "pcs s t = Running c k l" "pcs s w = Waiting c"
  shows "\<exists>s' p. (sf_step z b0 body env_step)\<^sup>*\<^sup>* s s' \<and> pcs s' t = Unlinking c k p \<and> pcs s' w = Waiting c"
  using assms
proof (induction l "shared s" arbitrary: s rule: ends.induct)
  case (ends_finish l x' v e)
  from sf_step.finish [OF ends_finish(2), of body x' v e z b0 env_step] ends_finish show ?case
    by (intro exI [of _ "s\<lparr>cell := (cell s)(c := (cell s c)\<lparr>val := v, err := e\<rparr>),
         pcs := (pcs s)(t := Unlinking c k False), shared := x'\<rparr>"] exI [of _ False])
      auto
next
  case (ends_crash l x')
  from sf_step.crash [OF ends_crash(2), of body x' z b0 env_step] ends_crash show ?case
    by (intro exI [of _ "s\<lparr>pcs := (pcs s)(t := Unlinking c k True), shared := x'\<rparr>"] exI [of _ True])
      auto
next
  case (ends_step l x' l')
  let ?s = "s\<lparr>pcs := (pcs s)(t := Running c k l'), shared := x'\<rparr>"
  from sf_step.run [OF ends_step(4), of body x' l' z b0 env_step] ends_step(1)
  have 1: "sf_step z b0 body env_step s ?s" by simp
  have "pcs ?s t = Running c k l'" "pcs ?s w = Waiting c" using ends_step(4,5) by auto
  with ends_step(3) [of ?s] 1 show ?case by (auto intro: steps_one)
qed

lemma leader_signals:
  assumes "pcs s t = Signalling c p" "pcs s w = Waiting c" "wg (cell s c) = 1"
  shows "\<exists>s'. (sf_step z b0 body env_step)\<^sup>*\<^sup>* s s' \<and> pcs s' w = Waiting c \<and> wg (cell s' c) = 0"
  using sf_step.signal [OF assms(1), of z b0 body env_step] assms(2,3) assms(1)
  by (intro exI conjI) (rule r_into_rtranclp, assumption, auto)

lemma leader_wg:
  assumes "sf_inv z s" "leads (pcs s t) = Some c"
  shows "wg (cell s c) = 1"
proof -
  from assms(1) have "inv_leader s" "inv_wg s" by (simp_all add: sf_inv_def)
  with assms(2) inv_leader_bound [OF _ leads_holds, of s t c] show ?thesis
    unfolding inv_wg_def by metis
qed

lemma no_leader_wg:
  assumes "sf_inv z s" "holds (pcs s w) = Some c" "\<And>t. leads (pcs s t) \<noteq> Some c"
  shows "wg (cell s c) = 0"
proof -
  from assms(1) have "inv_leader s" "inv_wg s" by (simp_all add: sf_inv_def)
  with assms(2,3) show ?thesis unfolding inv_wg_def by (metis inv_leader_bound)
qed

lemma leader_releases:
  assumes "sf_inv z s" "leads (pcs s t) = Some c" "pcs s w = Waiting c"
    and "\<And>k l x. ends body k l x"
  shows "\<exists>s'. (sf_step z b0 body env_step)\<^sup>*\<^sup>* s s' \<and> pcs s' w = Waiting c \<and> wg (cell s' c) = 0"
proof -
  let ?steps = "(sf_step z b0 body env_step)\<^sup>*\<^sup>*"
  have last: "\<exists>s'. ?steps s s' \<and> pcs s' w = Waiting c \<and> wg (cell s' c) = 0"
    if "sf_inv z s" "pcs s t = Signalling c p" "pcs s w = Waiting c" for s p
    using that by (intro leader_signals [of _ t _ p]) (simp_all add: leader_wg [of z s t])
  have mid: "\<exists>s'. ?steps s s' \<and> pcs s' w = Waiting c \<and> wg (cell s' c) = 0"
    if inv: "sf_inv z s" and t: "pcs s t = Unlinking c k p" and w: "pcs s w = Waiting c" for s k p
  proof -
    let ?s = "s\<lparr>calls := (calls s)(k := None), pcs := (pcs s)(t := Signalling c p)\<rparr>"
    have 1: "sf_step z b0 body env_step s ?s" by (rule sf_step.unlink [OF t])
    have "sf_inv z ?s" by (rule sf_inv_step [OF 1 inv])
    moreover have "pcs ?s t = Signalling c p" "pcs ?s w = Waiting c" using t w by auto
    ultimately show ?thesis using last [of ?s p] 1 by (blast intro: steps_one)
  qed
  show ?thesis
  proof (cases "pcs s t")
    case (Running c' k l)
    with assms(2) have "pcs s t = Running c k l" by simp
    with leader_unlinks [OF assms(4) this assms(3), of z b0 env_step] obtain s1 p where
      1: "?steps s s1" "pcs s1 t = Unlinking c k p" "pcs s1 w = Waiting c" by blast
    have "sf_inv z s1" by (rule sf.inv_steps [OF 1(1) assms(1)])
    from mid [OF this 1(2,3)] 1(1) show ?thesis by (meson rtranclp_trans)
  next
    case (Unlinking c' k p)
    with assms(2) mid [OF assms(1) _ assms(3)] show ?thesis by simp
  next
    case (Signalling c' p)
    with assms(2) last [OF assms(1) _ assms(3)] show ?thesis by simp
  qed (use assms(2) in simp_all)
qed

text \<open>
  C21: no lost wake-up. If every run of the function can come to an end, by returning or by
  panicking, then from every reachable state in which a goroutine waits for a call there is a
  continuation in which it returns: the wait group is released on every path through
  \<open>makeCall\<close>, and nothing blocks its owner.
\<close>

theorem waiter_can_return:
  assumes "reach (sf_init x0) (sf_step z b0 body env_step) s" "pcs s w = Waiting c"
    and "\<And>k l x. ends body k l x"
  shows "\<exists>s' v e. (sf_step z b0 body env_step)\<^sup>*\<^sup>* s s' \<and> pcs s' w = Returned c v e False"
proof -
  let ?steps = "(sf_step z b0 body env_step)\<^sup>*\<^sup>*"
  have inv: "sf_inv z s" by (rule sf.inv_reach [OF assms(1)])
  have "\<exists>s1. ?steps s s1 \<and> pcs s1 w = Waiting c \<and> wg (cell s1 c) = 0"
  proof (cases "\<exists>t. leads (pcs s t) = Some c")
    case True
    then show ?thesis using leader_releases [OF inv _ assms(2,3)] by blast
  next
    case False
    with no_leader_wg [OF inv, of w c] assms(2) show ?thesis by auto
  qed
  then obtain s1 where s1: "?steps s s1" "pcs s1 w = Waiting c" "wg (cell s1 c) = 0" by blast
  let ?s = "s1\<lparr>pcs := (pcs s1)(w := Returned c (val (cell s1 c)) (err (cell s1 c)) False)\<rparr>"
  have "sf_step z b0 body env_step s1 ?s" by (rule sf_step.wake [OF s1(2,3)])
  with s1(1) have "?steps s ?s" by (rule rtranclp.rtrancl_into_rtrancl)
  then show ?thesis by (intro exI [of _ ?s]) auto
qed

lemma count_body_ends: "ends (body_of count_body) k l x"
proof (cases "k = 0")
  case True
  show ?thesis by (rule ends_crash [where x' = "Suc x"]) (simp add: count_body_def True)
next
  case False
  show ?thesis
    by (rule ends_finish [where x' = "Suc x" and v = "Suc x" and e = None])
      (simp add: count_body_def False)
qed

theorem waiter_can_return_witness:
  "\<exists>s' v e. (sf_step 0 () (body_of count_body) (\<lambda>_ _. False))\<^sup>*\<^sup>* (count_run [Call 1 5, Call 2 5]) s' \<and>
     pcs s' 2 = Returned 0 v e False"
proof -
  let ?s = "count_run [Call 1 5, Call 2 5]"
  have 1: "count_reach ?s" by (rule count_run_reach) (simp add: count_simps)
  have 2: "pcs ?s 2 = Waiting 0" by (simp add: count_simps)
  show ?thesis by (rule waiter_can_return [OF 1 2 count_body_ends])
qed

end
