(* ===== verification/Resource_Manager.thy ===== *)
theory Resource_Manager
  imports Singleflight_Props
begin

text \<open>
  \<open>syncx/resourcemanager.go\<close>. \<open>GetResource\<close> passes a closure to \<open>SingleFlight.Do\<close>; \<open>rm_body\<close> is
  that closure, one step per critical section of \<open>manager.lock\<close>, to be run by the machine of
  Singleflight, and \<open>rm_env\<close> is \<open>Inject\<close> running beside it. \<open>create\<close> is the caller's function: the
  relation says what it may return for a key, and for which keys it may panic.

  \<open>get_resource\<close> is one call with nobody else about, the form in which the clients of the package
  (the table cache, the connection pools, the collections) use it; the locale \<open>resource_cache\<close> is
  what they rely on.
\<close>

section \<open>The shared map and the closure\<close>

text \<open>\<open>stores\<close> is a ghost: how often \<open>GetResource\<close> has written the key.\<close>

record ('k, 'v) manager =
  resources :: "'k \<rightharpoonup> 'v"
  stores :: "'k \<Rightarrow> nat"

definition new_manager :: "('k, 'v) manager" where
  "new_manager = \<lparr>resources = Map.empty, stores = (\<lambda>_. 0)\<rparr>"

datatype 'v rm_pc = RM_Check | RM_Create | RM_Store 'v

fun rm_body ::
  "('k \<Rightarrow> 'v \<Rightarrow> 'e option \<Rightarrow> bool) \<Rightarrow> ('k \<Rightarrow> bool) \<Rightarrow> 'k \<Rightarrow> 'v rm_pc \<Rightarrow>
   ('k, 'v) manager \<Rightarrow> ('k, 'v) manager \<Rightarrow> ('v rm_pc, 'v, 'e) progress \<Rightarrow> bool" where
  "rm_body create panics k RM_Check m m' p \<longleftrightarrow>
     m' = m \<and> p = (case resources m k of Some v \<Rightarrow> Finish v None | None \<Rightarrow> Continue RM_Create)"
| "rm_body create panics k RM_Create m m' p \<longleftrightarrow>
     m' = m \<and> ((\<exists>v. create k v None \<and> p = Continue (RM_Store v)) \<or>
               (\<exists>v e. create k v (Some e) \<and> p = Finish v (Some e)) \<or>
               panics k \<and> p = Crash)"
| "rm_body create panics k (RM_Store v) m m' p \<longleftrightarrow>
     m' = m\<lparr>resources := (resources m)(k \<mapsto> v), stores := (stores m)(k := Suc (stores m k))\<rparr> \<and>
     p = Finish v None"

definition inject :: "'k \<Rightarrow> 'v \<Rightarrow> ('k, 'v) manager \<Rightarrow> ('k, 'v) manager" where
  "inject k v m = m\<lparr>resources := (resources m)(k \<mapsto> v)\<rparr>"

definition rm_env :: "'k set \<Rightarrow> ('k, 'v) manager \<Rightarrow> ('k, 'v) manager \<Rightarrow> bool" where
  "rm_env K m m' \<longleftrightarrow> (\<exists>k \<in> K. \<exists>v. m' = inject k v m)"

section \<open>What the closure keeps\<close>

definition rm_glob :: "('k, 'v) manager \<Rightarrow> bool" where
  "rm_glob m \<longleftrightarrow> (\<forall>k. stores m k \<le> 1 \<and> (stores m k = 1 \<longrightarrow> resources m k \<noteq> None))"

fun rm_own :: "'k set \<Rightarrow> 'k \<Rightarrow> 'v rm_pc \<Rightarrow> ('k, 'v) manager \<Rightarrow> bool" where
  "rm_own K k RM_Check m = True"
| "rm_own K k _ m = (stores m k = 0 \<and> (k \<notin> K \<longrightarrow> resources m k = None))"

definition rm_res :: "'k set \<Rightarrow> 'k \<Rightarrow> 'v \<Rightarrow> 'e option \<Rightarrow> ('k, 'v) manager \<Rightarrow> bool" where
  "rm_res K k v e m \<longleftrightarrow> (e = None \<longrightarrow> k \<notin> K \<longrightarrow> resources m k = Some v)"

lemma rm_body_cases:
  assumes "rm_body create panics k l m m' p"
  obtains "m' = m" "p = Crash" | (found) v where "l = RM_Check" "m' = m" "p = Finish v None" "resources m k = Some v"
  | (go_on) "l = RM_Check" "m' = m" "p = Continue RM_Create" "resources m k = None"
  | (made) v where "l = RM_Create" "m' = m" "p = Continue (RM_Store v)" "create k v None"
  | (failed) v e where "l = RM_Create" "m' = m" "p = Finish v (Some e)" "create k v (Some e)"
  | (put) v where "l = RM_Store v" "p = Finish v None"
      "m' = m\<lparr>resources := (resources m)(k \<mapsto> v), stores := (stores m)(k := Suc (stores m k))\<rparr>"
  using assms by (cases l) (auto split: option.splits)

lemma rm_glob_stores: "rm_glob m \<Longrightarrow> resources m k = None \<Longrightarrow> stores m k = 0"
  unfolding rm_glob_def by (metis le_neq_implies_less less_one)

interpretation rm: exclusive_body RM_Check "rm_body create panics" "rm_env K" rm_glob "rm_own K" "rm_res K"
  for create panics K
proof (unfold_locales, goal_cases)
  case (2 m k l m' l')
  then show ?case by (elim rm_body_cases) (auto simp: rm_glob_stores)
next
  case (3 m k l m' v e)
  then show ?case by (elim rm_body_cases) (auto simp: rm_res_def)
next
  case (4 m k l m' p)
  then show ?case by (elim rm_body_cases) (auto simp: rm_glob_def)
next
  case (6 m k l k' l' m' p)
  then show ?case by (elim rm_body_cases) (cases l; auto)+
next
  case (7 m k l m')
  then show ?case by (cases l) (auto simp: rm_env_def inject_def)
next
  case (8 m k' l m' p k v e)
  then show ?case by (elim rm_body_cases) (auto simp: rm_res_def)
qed (auto simp: rm_glob_def rm_env_def inject_def rm_res_def)

section \<open>One call at a time\<close>

text \<open>
  \<open>GetResource\<close> with nobody else about: \<open>create\<close> is what the caller's function would return, the
  value first, as in Go.
\<close>

definition get_resource ::
  "'k \<Rightarrow> 'v \<times> 'e option \<Rightarrow> ('k \<rightharpoonup> 'v) \<Rightarrow> ('v \<times> 'e option) \<times> ('k \<rightharpoonup> 'v)" where
  "get_resource k create m =
     (case m k of
        Some v \<Rightarrow> ((v, None), m)
      | None \<Rightarrow>
          (case create of
             (v, Some e) \<Rightarrow> ((v, Some e), m)
           | (v, None) \<Rightarrow> ((v, None), m(k \<mapsto> v))))"

inductive rm_solo ::
  "('k \<Rightarrow> 'v \<Rightarrow> 'e option \<Rightarrow> bool) \<Rightarrow> 'k \<Rightarrow> 'v rm_pc \<Rightarrow> ('k, 'v) manager \<Rightarrow>
   'v \<Rightarrow> 'e option \<Rightarrow> ('k, 'v) manager \<Rightarrow> bool"
  for create :: "'k \<Rightarrow> 'v \<Rightarrow> 'e option \<Rightarrow> bool" and k :: 'k where
  rm_solo_done: "rm_body create (\<lambda>_. False) k l m m' (Finish v e) \<Longrightarrow> rm_solo create k l m v e m'"
| rm_solo_more: "rm_body create (\<lambda>_. False) k l m m1 (Continue l') \<Longrightarrow>
    rm_solo create k l' m1 v e m' \<Longrightarrow> rm_solo create k l m v e m'"

inductive_simps rm_solo_simps:
  "rm_solo create k RM_Check m v e m'"
  "rm_solo create k RM_Create m v e m'"
  "rm_solo create k (RM_Store w) m v e m'"

lemma rm_solo_store:
  "rm_solo create k (RM_Store w) m v e m' \<longleftrightarrow>
     v = w \<and> e = None \<and>
     m' = m\<lparr>resources := (resources m)(k \<mapsto> w), stores := (stores m)(k := Suc (stores m k))\<rparr>"
  by (auto simp: rm_solo_simps)

lemma rm_solo_create:
  "rm_solo create k RM_Create m v e m' \<longleftrightarrow>
     create k v e \<and>
     m' = (if e = None
           then m\<lparr>resources := (resources m)(k \<mapsto> v), stores := (stores m)(k := Suc (stores m k))\<rparr>
           else m)"
  by (subst rm_solo_simps(2)) (auto simp: rm_solo_store)

lemma rm_solo_check:
  "rm_solo create k RM_Check m v e m' \<longleftrightarrow>
     (case resources m k of
        Some w \<Rightarrow> v = w \<and> e = None \<and> m' = m
      | None \<Rightarrow> rm_solo create k RM_Create m v e m')"
  by (subst rm_solo_simps(1)) (auto split: option.splits)

text \<open>It is what the closure does when it runs alone, for each thing \<open>create\<close> may return.\<close>

lemma rm_solo_get:
  "rm_solo create k RM_Check m v e m' \<longleftrightarrow>
     (\<exists>r. (resources m k = None \<longrightarrow> create k (fst r) (snd r)) \<and>
          get_resource k r (resources m) = ((v, e), resources m') \<and>
          m' = m\<lparr>resources := resources m',
                 stores := if resources m k = None \<and> e = None then (stores m)(k := Suc (stores m k))
                           else stores m\<rparr>)"
proof (cases "resources m k")
  case (Some w)
  then show ?thesis
    by (cases m; cases m') (auto simp: rm_solo_check get_resource_def)
next
  case None
  then show ?thesis
    by (cases e; cases m; cases m')
      (auto simp: rm_solo_check rm_solo_create get_resource_def split: option.splits)
qed

text \<open>What the clients of the package rely on.\<close>

locale resource_cache =
  fixes get :: "'k \<Rightarrow> 'v \<times> 'e option \<Rightarrow> ('k \<rightharpoonup> 'v) \<Rightarrow> ('v \<times> 'e option) \<times> ('k \<rightharpoonup> 'v)"
  assumes get_hit: "m k = Some v \<Longrightarrow> get k create m = ((v, None), m)"
    and get_miss: "m k = None \<Longrightarrow> get k (v, None) m = ((v, None), m(k \<mapsto> v))"
    and get_fail: "m k = None \<Longrightarrow> get k (v, Some e) m = ((v, Some e), m)"
begin

lemma get_eq:
  "get k create m =
     (case m k of
        Some w \<Rightarrow> ((w, None), m)
      | None \<Rightarrow> (create, if snd create = None then m(k \<mapsto> fst create) else m))"
proof (cases "m k")
  case None
  then show ?thesis
    using get_miss [of m k "fst create"] get_fail [of m k "fst create" "the (snd create)"]
    by (cases create; cases "snd create") simp_all
qed (simp add: get_hit)

lemma get_keeps: "m k' = Some v \<Longrightarrow> snd (get k create m) k' = Some v"
  by (auto simp: get_eq split: option.splits)

lemma get_stored: "get k create m = ((v, None), m') \<Longrightarrow> m' k = Some v"
  by (auto simp: get_eq split: option.splits)

lemma get_again: "get k create m = ((v, None), m') \<Longrightarrow> get k create' m' = ((v, None), m')"
  by (rule get_hit) (rule get_stored)

lemma get_error_keeps: "get k create m = ((v, Some e), m') \<Longrightarrow> m' = m \<and> create = (v, Some e)"
  by (auto simp: get_eq split: option.splits if_splits)

text \<open>If every stored resource satisfies \<open>P\<close> for its key, so does every one that is returned.\<close>

lemma get_invariant:
  assumes "\<And>k v. m k = Some v \<Longrightarrow> P k v" "snd create = None \<Longrightarrow> P k (fst create)"
    and "get k create m = ((v, e), m')"
  shows "(e = None \<longrightarrow> P k v) \<and> (\<forall>k v. m' k = Some v \<longrightarrow> P k v)"
proof (cases "m k")
  case None
  with assms(3) have "create = (v, e)" "m' = (if e = None then m(k \<mapsto> v) else m)"
    by (auto simp: get_eq split: if_splits)
  with assms(1,2) show ?thesis by simp
next
  case (Some w)
  with assms(1,3) show ?thesis by (auto simp: get_hit)
qed

end

interpretation rc: resource_cache get_resource
  by unfold_locales (auto simp: get_resource_def)

section \<open>One resource per key\<close>

text \<open>The reachable states of a manager whose keys in \<open>K\<close> are also injected.\<close>

abbreviation rm_reach ::
  "'v \<Rightarrow> ('k \<Rightarrow> 'v \<Rightarrow> 'e option \<Rightarrow> bool) \<Rightarrow> ('k \<Rightarrow> bool) \<Rightarrow> 'k set \<Rightarrow>
   ('k, 'v, 'e, 'v rm_pc, ('k, 'v) manager) flight \<Rightarrow> bool" where
  "rm_reach z create panics K \<equiv>
     reach (sf_init (\<lambda>m. m = new_manager)) (sf_step z RM_Check (rm_body create panics) (rm_env K))"

lemma rm_reach_glob:
  "rm_reach z create panics K s \<Longrightarrow>
   reach (sf_init rm_glob) (sf_step z RM_Check (rm_body create panics) (rm_env K)) s"
proof (induction rule: reach.induct)
  case (reach_init s)
  then show ?case by (intro reach.reach_init) (simp add: sf_init_def rm_glob_def new_manager_def)
qed (rule reach.reach_step)

definition rm_fun ::
  "('k \<Rightarrow> ('v \<times> 'e option) option) \<Rightarrow> 'k \<Rightarrow> 'v rm_pc \<Rightarrow> ('k, 'v) manager \<Rightarrow>
   ('k, 'v) manager \<times> ('v rm_pc, 'v, 'e) progress" where
  "rm_fun create k l m =
     (case l of
        RM_Check \<Rightarrow> (m, case resources m k of Some v \<Rightarrow> Finish v None | None \<Rightarrow> Continue RM_Create)
      | RM_Create \<Rightarrow> (m, case create k of
            None \<Rightarrow> Crash
          | Some (v, None) \<Rightarrow> Continue (RM_Store v)
          | Some (v, Some e) \<Rightarrow> Finish v (Some e))
      | RM_Store v \<Rightarrow>
          (m\<lparr>resources := (resources m)(k \<mapsto> v), stores := (stores m)(k := Suc (stores m k))\<rparr>,
           Finish v None))"

lemma rm_fun_body:
  "body_of (rm_fun create) k l m m' p \<Longrightarrow>
   rm_body (\<lambda>k v e. create k = Some (v, e)) (\<lambda>k. create k = None) k l m m' p"
  by (cases l) (auto simp: rm_fun_def split: option.splits)

lemma sf_step_mono:
  assumes "sf_step z b0 body env_step s s'" "\<And>k l x x' p. body k l x x' p \<Longrightarrow> body' k l x x' p"
    and "\<And>x x'. env_step x x' \<Longrightarrow> env_step' x x'"
  shows "sf_step z b0 body' env_step' s s'"
  using assms(1)
proof (cases rule: sf_step.cases)
  case (miss t k c)
  show ?thesis unfolding miss(1) by (rule sf_step.miss [OF miss(2-4)])
next
  case (signal t c p)
  show ?thesis unfolding signal(1) by (rule sf_step.signal [OF signal(2)])
qed (auto intro: sf_step.hit sf_step.run sf_step.finish sf_step.crash sf_step.unlink
    sf_step.signal sf_step.wake sf_step.other assms(2,3))

lemma rm_run_reach:
  assumes "sf_run z RM_Check (rm_fun create) as (sf_start z k0 new_manager) = Some s"
  shows "rm_reach z (\<lambda>k v e. create k = Some (v, e)) (\<lambda>k. create k = None) K s"
proof -
  have "reach (sf_init (\<lambda>m. m = new_manager))
      (sf_step z RM_Check (body_of (rm_fun create)) (\<lambda>_ _. False)) s"
    by (rule sf_run_reach [OF assms]) simp
  then show ?thesis
  proof (induction rule: reach.induct)
    case (reach_step s s')
    from reach_step(2) have "sf_step z RM_Check
        (rm_body (\<lambda>k v e. create k = Some (v, e)) (\<lambda>k. create k = None)) (rm_env K) s s'"
      by (rule sf_step_mono) (auto intro: rm_fun_body)
    with reach_step(3) show ?case by (rule reach.reach_step)
  qed (rule reach.reach_init)
qed

text \<open>
  A resource is created once. Whatever the schedule, whatever \<open>create\<close> returns and however
  often \<open>Inject\<close> runs, \<open>GetResource\<close> writes a key at most once, and no two goroutines are between
  the look-up of a key and the write of it at the same time.
\<close>

theorem stored_at_most_once:
  assumes "rm_reach z create panics K s"
  shows "stores (shared s) k \<le> 1 \<and>
    (\<forall>t u c c' l l'. pcs s t = Running c k l \<longrightarrow> pcs s u = Running c' k l' \<longrightarrow> t = u) \<and>
    (\<forall>t c v. pcs s t = Running c k (RM_Store v) \<longrightarrow> stores (shared s) k = 0)"
proof (intro conjI allI impI)
  from rm.client_inv_reach [OF rm_reach_glob [OF assms]]
  have inv: "sf_inv z s" "rm_glob (shared s)"
    and own: "pcs s t = Running c k l \<Longrightarrow> rm_own K k l (shared s)" for t c l
    unfolding client_inv_def by blast+
  show "stores (shared s) k \<le> 1" using inv(2) by (simp add: rm_glob_def)
  show "t = u" if "pcs s t = Running c k l" "pcs s u = Running c' k l'" for t u c c' l l'
    using that linked_unique(1) [OF inv(1), of t c k u c'] by simp
  show "stores (shared s) k = 0" if "pcs s t = Running c k (RM_Store v)" for t c v
    using own [OF that] by simp
qed

text \<open>A client: \<open>create\<close> panics for the key \<open>0\<close>, fails for \<open>1\<close> and makes \<open>10 k\<close> otherwise.\<close>

definition rm_create :: "nat \<Rightarrow> (nat \<times> string option) option" where
  "rm_create k =
     (if k = 0 then None else if k = 1 then Some (0, Some ''down'') else Some (k * 10, None))"

definition rm_example :: "nat action list \<Rightarrow> (nat, nat, string, nat rm_pc, (nat, nat) manager) flight" where
  "rm_example as = the (sf_run 0 RM_Check
     (rm_fun rm_create)
     as (sf_start 0 0 new_manager))"

abbreviation rm_example_reach ::
  "(nat, nat, string, nat rm_pc, (nat, nat) manager) flight \<Rightarrow> bool" where
  "rm_example_reach \<equiv> rm_reach 0
     (\<lambda>k v e. rm_create k = Some (v, e))
     (\<lambda>k. rm_create k = None)
     {9}"

lemma rm_example_reach:
  "sf_run 0 RM_Check
     (rm_fun rm_create)
     as (sf_start 0 0 new_manager) \<noteq> None \<Longrightarrow> rm_example_reach (rm_example as)"
  unfolding rm_example_def by (rule rm_run_reach) simp

lemmas rm_example_simps = rm_example_def rm_create_def rm_fun_def sf_start_def new_manager_def

theorem stored_at_most_once_witness:
  "pcs (rm_example [Call 1 5, Move 1, Move 1, Call 2 5]) 1 = Running 0 5 (RM_Store 50) \<and>
   stores (shared (rm_example [Call 1 5, Move 1, Move 1, Call 2 5])) 5 = 0"
proof -
  let ?s = "rm_example [Call 1 5, Move 1, Move 1, Call 2 5]"
  have 1: "rm_example_reach ?s" by (rule rm_example_reach) (simp add: rm_example_simps)
  have 2: "pcs ?s 1 = Running 0 5 (RM_Store 50)" by (simp add: rm_example_simps)
  show ?thesis using stored_at_most_once [OF 1, of 5] 2 by blast
qed

text \<open>
  C17: everybody gets the same resource. For a key that nobody injects, two calls of \<open>GetResource\<close>
  that return without an error, on the same key and however far apart, return the same value, the
  one in the map, unless the goroutine that ran the closure for one of them panicked in \<open>create\<close>.
\<close>

theorem resource_is_shared:
  assumes "rm_reach z create panics K s"
    and "pcs s t = Returned c v None f" "pcs s u = Returned c' v' None f'"
    and "ckey (cell s c) = k" "ckey (cell s c') = k" "k \<notin> K"
    and "\<And>w. pcs s w \<noteq> Panicked c \<and> pcs s w \<noteq> Panicked c'"
  shows "v = v' \<and> resources (shared s) k = Some v"
proof -
  note r = rm.returned_result [OF rm_reach_glob [OF assms(1)]]
  from r [OF assms(2)] assms(4,6,7) have "resources (shared s) k = Some v"
    by (auto simp: rm_res_def)
  moreover from r [OF assms(3)] assms(5,6,7) have "resources (shared s) k = Some v'"
    by (auto simp: rm_res_def)
  ultimately show ?thesis by simp
qed

theorem resource_is_shared_witness:
  "pcs (rm_example [Call 1 5, Move 1, Move 1, Move 1, Move 1, Move 1, Call 2 5, Move 2, Move 2, Move 2]) 2
     = Returned 1 50 None True \<and>
   resources (shared (rm_example [Call 1 5, Move 1, Move 1, Move 1, Move 1, Move 1, Call 2 5, Move 2, Move 2, Move 2])) 5
     = Some 50"
proof -
  let ?s = "rm_example [Call 1 5, Move 1, Move 1, Move 1, Move 1, Move 1, Call 2 5, Move 2, Move 2, Move 2]"
  have 1: "rm_example_reach ?s" by (rule rm_example_reach) (simp add: rm_example_simps)
  have 2: "pcs ?s 1 = Returned 0 50 None True" "pcs ?s 2 = Returned 1 50 None True"
    by (simp_all add: rm_example_simps)
  have 3: "ckey (cell ?s 0) = 5" "ckey (cell ?s 1) = 5" by (simp_all add: rm_example_simps)
  have 4: "pcs ?s w \<noteq> Panicked 0 \<and> pcs ?s w \<noteq> Panicked 1" for w
    by (simp add: rm_example_simps)
  show ?thesis using resource_is_shared [OF 1 2 3 _ 4] 2 by simp
qed

end
