(* ===== verification/Sql_Text.thy ===== *)
theory Sql_Text
  imports Go_Prelude
begin

text \<open>
  The text side of \<open>pgsql\<close>: \<open>strings.Join\<close>, \<open>strings.Replace\<close>, the renumbering of placeholders of
  \<open>WhereBuilder.buildSQL\<close>, and the meaning of a statement. A statement is a text in which \<open>$N\<close>
  stands for the \<open>N\<close>-th argument; \<open>fill\<close> reads it the way the server does. What the author of a
  condition means is \<open>fill_seq\<close>: the placeholders of his own text take his own arguments, one
  after the other. The lemmas say how the two agree after renumbering, and how texts compose.
\<close>

section \<open>Strings\<close>

fun join :: "'a list \<Rightarrow> 'a list list \<Rightarrow> 'a list" where
  "join sep [] = []"
| "join sep [x] = x"
| "join sep (x # y # xs) = x @ sep @ join sep (y # xs)"

fun starts_with :: "string \<Rightarrow> string \<Rightarrow> bool" where
  "starts_with [] s = True"
| "starts_with (c # cs) [] = False"
| "starts_with (c # cs) (d # ds) = (c = d \<and> starts_with cs ds)"

text \<open>\<open>strings.Replace(s, old, new, 1)\<close> for a non-empty \<open>old\<close>.\<close>

fun replace_first :: "string \<Rightarrow> string \<Rightarrow> string \<Rightarrow> string" where
  "replace_first old new [] = []"
| "replace_first old new (c # cs) =
     (if starts_with old (c # cs) then new @ drop (length old) (c # cs)
      else c # replace_first old new cs)"

text \<open>Texts without a placeholder, and texts that may follow one.\<close>

definition plain :: "string \<Rightarrow> bool" where
  "plain s \<longleftrightarrow> CHR ''$'' \<notin> set s"

definition no_digit :: "string \<Rightarrow> bool" where
  "no_digit s \<longleftrightarrow> (case s of [] \<Rightarrow> True | c # _ \<Rightarrow> \<not> is_digit c)"

lemma no_digit_simps [simp]: "no_digit []" "no_digit (c # cs) \<longleftrightarrow> \<not> is_digit c"
  by (simp_all add: no_digit_def)

lemma no_digit_append: "no_digit (s @ t) \<longleftrightarrow> (if s = [] then no_digit t else no_digit s)"
  by (cases s) auto

lemma no_digit_dropWhile [simp]: "no_digit (dropWhile is_digit s)"
  by (induction s) auto

lemma no_digit_dropWhile_id: "no_digit s \<Longrightarrow> dropWhile is_digit s = s"
  by (cases s) auto

lemma plain_simps [simp]: "plain []" "plain (c # cs) \<longleftrightarrow> c \<noteq> CHR ''$'' \<and> plain cs"
  by (auto simp: plain_def)

lemma plain_append [simp]: "plain (s @ t) \<longleftrightarrow> plain s \<and> plain t"
  by (auto simp: plain_def)

lemma not_digit_dollar [simp]: "\<not> is_digit (CHR ''$'')"
  by (simp add: is_digit_def)

lemma dec_all_digits: "list_all is_digit (dec n)"
  by (auto simp: list_all_iff dec_digits)

lemma dec_1_2: "dec 1 = ''1''" "dec 2 = ''2''"
  by (simp_all add: dec.simps digit_char_def char_of_eq_iff)

lemma plain_dec [simp]: "plain (dec n)"
  by (auto simp: plain_def dest: dec_digits)

lemma takeWhile_digits_append:
  "list_all is_digit d \<Longrightarrow> no_digit t \<Longrightarrow> takeWhile is_digit (d @ t) = d \<and> dropWhile is_digit (d @ t) = t"
  by (induction d) (auto simp: no_digit_def split: list.splits)

lemma takeWhile_no_digit:
  "no_digit t \<Longrightarrow> takeWhile is_digit (s @ t) = takeWhile is_digit s"
  by (induction s) (auto simp: no_digit_def split: list.splits)

lemma dropWhile_no_digit:
  "no_digit t \<Longrightarrow> dropWhile is_digit (s @ t) = dropWhile is_digit s @ t"
  by (induction s) (auto simp: no_digit_def split: list.splits)

section \<open>Renumbering\<close>

function reindex :: "nat \<Rightarrow> string \<Rightarrow> string \<times> nat" where
  "reindex argIdx [] = ([], argIdx)"
| "reindex argIdx (c # cond) =
     (if c = CHR ''$''
      then (let (newCond, idx) = reindex (argIdx + 1) (dropWhile is_digit cond)
            in (CHR ''$'' # dec argIdx @ newCond, idx))
      else (let (newCond, idx) = reindex argIdx cond in (c # newCond, idx)))"
  by pat_completeness auto
termination
  by (relation "measure (\<lambda>(_, s). length s)") (auto simp: less_Suc_eq_le length_dropWhile_le)

text \<open>The number of placeholders of a condition, however they are numbered.\<close>

definition holes :: "string \<Rightarrow> nat" where
  "holes s = length (filter (\<lambda>c. c = CHR ''$'') s)"

lemma holes_simps [simp]:
  "holes [] = 0" "holes (c # cs) = (if c = CHR ''$'' then 1 else 0) + holes cs"
  "holes (s @ t) = holes s + holes t"
  by (simp_all add: holes_def)

lemma holes_drop_digits [simp]: "holes (dropWhile is_digit s) = holes s"
  by (induction s) auto

lemma holes_plain: "plain s \<longleftrightarrow> holes s = 0"
  by (induction s) auto

section \<open>The meaning of a statement\<close>

datatype 'a token = Text char | Value 'a | Missing

definition argument :: "'a list \<Rightarrow> nat \<Rightarrow> 'a token" where
  "argument args n = (if 1 \<le> n \<and> n \<le> length args then Value (args ! (n - 1)) else Missing)"

function fill :: "'a list \<Rightarrow> string \<Rightarrow> 'a token list" where
  "fill args [] = []"
| "fill args (c # cs) =
     (if c = CHR ''$'' \<and> \<not> no_digit cs
      then argument args (read_dec 0 (takeWhile is_digit cs)) # fill args (dropWhile is_digit cs)
      else Text c # fill args cs)"
  by pat_completeness auto
termination
  by (relation "measure (\<lambda>(_, s). length s)") (auto simp: less_Suc_eq_le length_dropWhile_le)

function fill_seq :: "'a list \<Rightarrow> string \<Rightarrow> 'a token list" where
  "fill_seq vs [] = []"
| "fill_seq vs (c # cs) =
     (if c = CHR ''$''
      then (case vs of
              [] \<Rightarrow> Missing # fill_seq [] (dropWhile is_digit cs)
            | v # vs' \<Rightarrow> Value v # fill_seq vs' (dropWhile is_digit cs))
      else Text c # fill_seq vs cs)"
  by pat_completeness auto
termination
  by (relation "measure (\<lambda>(_, s). length s)") (auto simp: less_Suc_eq_le length_dropWhile_le)

lemma fill_plain: "plain s \<Longrightarrow> fill args s = map Text s"
  by (induction s) auto

lemma fill_seq_plain: "plain s \<Longrightarrow> fill_seq vs s = map Text s"
  by (induction s) auto

lemma fill_append: "no_digit t \<Longrightarrow> fill args (s @ t) = fill args s @ fill args t"
proof (induction args s rule: fill.induct)
  case (2 args c cs)
  have "no_digit (cs @ t) \<longleftrightarrow> no_digit cs" using 2(3) by (auto simp: no_digit_append)
  with 2 show ?case by (simp add: takeWhile_no_digit dropWhile_no_digit)
qed simp

lemma fill_plain_append: "plain s \<Longrightarrow> fill args (s @ t) = map Text s @ fill args t"
  by (induction s) auto

lemma fill_dec:
  assumes "no_digit t"
  shows "fill args (CHR ''$'' # dec n @ t) = argument args n # fill args t"
proof -
  have "\<not> no_digit (dec n @ t)"
    using dec_all_digits [of n] by (cases "dec n") simp_all
  with takeWhile_digits_append [OF dec_all_digits assms] show ?thesis by simp
qed

lemma no_digit_reindex: "no_digit s \<Longrightarrow> no_digit (fst (reindex k s))"
  by (cases s) (auto split: prod.splits)

lemma reindex_snd: "snd (reindex k s) = k + holes s"
  by (induction k s rule: reindex.induct) (auto split: prod.splits)

lemma reindex_append:
  "no_digit t \<Longrightarrow> fst (reindex k (s @ t)) = fst (reindex k s) @ fst (reindex (k + holes s) t)"
proof (induction k s rule: reindex.induct)
  case (2 k c s)
  then show ?case by (auto simp: case_prod_beta dropWhile_no_digit)
qed simp

lemma reindex_plain: "plain s \<Longrightarrow> fst (reindex k s) = s"
  by (induction s) (auto split: prod.splits)

text \<open>A renumbered text means to the server what its author means by it.\<close>

lemma fill_reindex:
  "holes s = length vs \<Longrightarrow>
   fill (pre @ vs @ post) (fst (reindex (length pre + 1) s)) = fill_seq vs s"
proof (induction vs s arbitrary: pre rule: fill_seq.induct)
  case (2 vs c cs)
  show ?case
  proof (cases "c = CHR ''$''")
    case True
    with 2(4) obtain v vs' where vs: "vs = v # vs'" by (cases vs) auto
    have "fill ((pre @ [v]) @ vs' @ post) (fst (reindex (length (pre @ [v]) + 1) (dropWhile is_digit cs)))
        = fill_seq vs' (dropWhile is_digit cs)"
      using 2(2) [OF True vs, of "pre @ [v]"] 2(4) True vs by simp
    moreover have "argument (pre @ v # vs' @ post) (Suc (length pre)) = Value v"
      by (simp add: argument_def nth_append)
    ultimately show ?thesis
      using True vs by (simp add: case_prod_beta fill_dec no_digit_reindex del: fill.simps)
  next
    case False
    with 2(3) 2(4) show ?thesis by (simp add: case_prod_beta)
  qed
qed simp

lemma fill_seq_append:
  "no_digit t \<Longrightarrow> holes s = length vs \<Longrightarrow> fill_seq (vs @ ws) (s @ t) = fill_seq vs s @ fill_seq ws t"
proof (induction vs s rule: fill_seq.induct)
  case (2 vs c cs)
  then show ?case by (cases vs) (auto simp: dropWhile_no_digit)
qed simp

end
