(* ===== verification/Pg_Value.thy ===== *)
theory Pg_Value
  imports Go_Prelude "HOL-Library.Word"
begin

text \<open>
  The values of entity fields on their way to the database and back (\<open>pgsql/table.go\<close>):
  \<open>classifyScanKind\<close>, \<open>getValue\<close>, \<open>toDBValue\<close>, \<open>ptrScanSlot.apply\<close> and the JSON half of
  \<open>finalizeScan\<close>. \<open>gtype\<close> is what the code asks \<open>reflect\<close> about a type: its kind, its element
  type and its identity (the name of a defined type, empty for an unnamed one).

  Parameters: \<open>scanner\<close> and \<open>valuer\<close> say which types implement \<open>sql.Scanner\<close> and
  \<open>driver.Valuer\<close>, \<open>call_value\<close> is the \<open>Value\<close> method of a type, \<open>marshal\<close> and \<open>unmarshal\<close> are
  \<open>encoding/json\<close>, \<open>narrow32\<close> is the conversion to \<open>float32\<close>. An instant is an integer, \<open>0\<close> the
  zero \<open>time.Time\<close>; a float is its bit pattern.
\<close>

section \<open>Types and values\<close>

text \<open>The kinds of integers: the native one and those of a fixed width, 64-bit platforms assumed.\<close>

datatype int_kind = K | K8 | K16 | K32 | K64

fun width :: "int_kind \<Rightarrow> nat" where
  "width K = 64"
| "width K8 = 8"
| "width K16 = 16"
| "width K32 = 32"
| "width K64 = 64"

datatype gtype =
    TBool string
  | TInt int_kind string
  | TUint int_kind string
  | TUintptr string
  | TFloat nat string
  | TString string
  | TStruct string
  | TSlice string gtype
  | TMap string gtype gtype
  | TPtr gtype
  | TOther string

definition timeType :: gtype where
  "timeType = TStruct ''time.Time''"

definition bytesType :: gtype where
  "bytesType = TSlice '''' (TUint K8 ''uint8'')"

datatype gval =
    VBool bool
  | VInt int
  | VUint int
  | VFloat "64 word"
  | VString string
  | VTime int
  | VStruct "gval list"
  | VNil
  | VPtr gval
  | VBytes string
  | VSlice "gval list"
  | VMap "(gval \<times> gval) list"
  | VOther string

fun is_struct :: "gtype \<Rightarrow> bool" where
  "is_struct (TStruct n) = True"
| "is_struct _ = False"

fun is_slice :: "gtype \<Rightarrow> bool" where
  "is_slice (TSlice n t) = True"
| "is_slice _ = False"

fun is_map :: "gtype \<Rightarrow> bool" where
  "is_map (TMap n k t) = True"
| "is_map _ = False"

text \<open>The zero value of a type; that of a struct is filled in by the parameter \<open>zeros\<close>.\<close>

fun zero_value :: "(string \<Rightarrow> gval list) \<Rightarrow> gtype \<Rightarrow> gval" where
  "zero_value zeros (TBool n) = VBool False"
| "zero_value zeros (TInt w n) = VInt 0"
| "zero_value zeros (TUint w n) = VUint 0"
| "zero_value zeros (TUintptr n) = VUint 0"
| "zero_value zeros (TFloat w n) = VFloat 0"
| "zero_value zeros (TString n) = VString ''''"
| "zero_value zeros (TStruct n) = (if TStruct n = timeType then VTime 0 else VStruct (zeros n))"
| "zero_value zeros (TOther n) = VOther ''''"
| "zero_value zeros _ = VNil"

text \<open>The values of a type. Integers lie in the range of their width.\<close>

fun has_type :: "gtype \<Rightarrow> gval \<Rightarrow> bool" where
  "has_type (TBool n) v = (case v of VBool b \<Rightarrow> True | _ \<Rightarrow> False)"
| "has_type (TInt k n) v = (case v of VInt i \<Rightarrow> - (2 ^ (width k - 1)) \<le> i \<and> i < 2 ^ (width k - 1) | _ \<Rightarrow> False)"
| "has_type (TUint k n) v = (case v of VUint i \<Rightarrow> 0 \<le> i \<and> i < 2 ^ width k | _ \<Rightarrow> False)"
| "has_type (TUintptr n) v = (case v of VUint i \<Rightarrow> 0 \<le> i \<and> i < 2 ^ 64 | _ \<Rightarrow> False)"
| "has_type (TFloat w n) v = (case v of VFloat f \<Rightarrow> True | _ \<Rightarrow> False)"
| "has_type (TString n) v = (case v of VString s \<Rightarrow> True | _ \<Rightarrow> False)"
| "has_type (TStruct n) v =
     (case v of VTime i \<Rightarrow> TStruct n = timeType | VStruct vs \<Rightarrow> TStruct n \<noteq> timeType | _ \<Rightarrow> False)"
| "has_type (TSlice n t) v =
     (case v of VNil \<Rightarrow> True | VBytes s \<Rightarrow> TSlice n t = bytesType
      | VSlice vs \<Rightarrow> TSlice n t \<noteq> bytesType | _ \<Rightarrow> False)"
| "has_type (TMap n k t) v = (case v of VNil \<Rightarrow> True | VMap kvs \<Rightarrow> True | _ \<Rightarrow> False)"
| "has_type (TPtr t) v = (case v of VNil \<Rightarrow> True | VPtr w \<Rightarrow> has_type t w | _ \<Rightarrow> False)"
| "has_type (TOther n) v = (case v of VOther s \<Rightarrow> True | _ \<Rightarrow> False)"

section \<open>Which way a field is scanned\<close>

datatype fieldScanKind =
    scanDirect | scanJSON | scanPtrString | scanPtrBool | scanPtrInt | scanPtrUint
  | scanPtrFloat | scanPtrTime

text \<open>The last \<open>switch\<close> on the kind of a pointer's element.\<close>

fun classify_elem :: "gtype \<Rightarrow> fieldScanKind \<times> gtype option" where
  "classify_elem (TString n) = (scanPtrString, Some (TString n))"
| "classify_elem (TBool n) = (scanPtrBool, Some (TBool n))"
| "classify_elem (TInt w n) = (scanPtrInt, Some (TInt w n))"
| "classify_elem (TUint w n) = (scanPtrUint, Some (TUint w n))"
| "classify_elem (TUintptr n) = (scanPtrUint, Some (TUintptr n))"
| "classify_elem (TFloat w n) = (scanPtrFloat, Some (TFloat w n))"
| "classify_elem _ = (scanDirect, None)"

fun classifyScanKind ::
  "(gtype \<Rightarrow> bool) \<Rightarrow> (gtype \<Rightarrow> bool) \<Rightarrow> gtype \<Rightarrow> fieldScanKind \<times> gtype option" where
  "classifyScanKind scanner valuer (TPtr elem) =
     (if is_struct elem then
        if elem = timeType then (scanPtrTime, Some elem)
        else if scanner (TPtr elem) \<or> valuer (TPtr elem) then (scanDirect, None)
        else if scanner elem \<or> valuer elem then (scanDirect, None)
        else (scanJSON, None)
      else if is_slice elem \<or> is_map elem then (scanJSON, None)
      else classify_elem elem)"
| "classifyScanKind scanner valuer fieldType =
     (if is_struct fieldType then
        if fieldType = timeType then (scanPtrTime, None)
        else if scanner fieldType \<or> valuer fieldType then (scanDirect, None)
        else if scanner (TPtr fieldType) \<or> valuer (TPtr fieldType) then (scanDirect, None)
        else (scanJSON, None)
      else if is_slice fieldType then
        if fieldType = bytesType then (scanDirect, None) else (scanJSON, None)
      else if is_map fieldType then (scanJSON, None)
      else (scanDirect, None))"

section \<open>Arguments of a statement\<close>

text \<open>
  What \<open>getValue\<close> returns for the driver: nil, JSON text, a time, the bytes of a \<open>[]byte\<close>, the
  field's value as it is, or what a \<open>Value\<close> method returned.
\<close>

datatype dbval = DNil | DJson string | DTime int | DBytes string | DRaw gtype gval | DCustom string

definition value_of ::
  "(gtype \<Rightarrow> bool) \<Rightarrow> (gtype \<Rightarrow> gval \<Rightarrow> string + dbval) \<Rightarrow> (gtype \<Rightarrow> gval \<Rightarrow> string + string) \<Rightarrow>
   bool \<Rightarrow> gtype \<Rightarrow> gval \<Rightarrow> string + dbval" where
  "value_of valuer call_value marshal addr t v =
     (if addr \<and> valuer (TPtr t) then call_value (TPtr t) (VPtr v)
      else if valuer t then call_value t v
      else if t = timeType then
        (case v of VTime i \<Rightarrow> if i = 0 then Inr DNil else Inr (DTime i) | _ \<Rightarrow> Inr (DRaw t v))
      else if is_struct t then
        (case marshal t v of Inl e \<Rightarrow> Inl (''json marshal error: '' @ e) | Inr j \<Rightarrow> Inr (DJson j))
      else if is_slice t \<or> is_map t then
        if v = VNil then Inr DNil
        else if t = bytesType then (case v of VBytes s \<Rightarrow> Inr (DBytes s) | _ \<Rightarrow> Inr (DRaw t v))
        else (case marshal t v of Inl e \<Rightarrow> Inl (''json marshal error: '' @ e) | Inr j \<Rightarrow> Inr (DJson j))
      else Inr (DRaw t v))"

text \<open>
  \<open>addr\<close> is \<open>CanAddr\<close>: true for a field reached through a pointer to its entity, and after any
  dereference.
\<close>

fun getValue ::
  "(gtype \<Rightarrow> bool) \<Rightarrow> (gtype \<Rightarrow> gval \<Rightarrow> string + dbval) \<Rightarrow> (gtype \<Rightarrow> gval \<Rightarrow> string + string) \<Rightarrow>
   bool \<Rightarrow> gtype \<Rightarrow> gval \<Rightarrow> string + dbval" where
  "getValue valuer call_value marshal addr (TPtr t) VNil = Inr DNil"
| "getValue valuer call_value marshal addr (TPtr t) (VPtr v) =
     (if valuer (TPtr t) then call_value (TPtr t) (VPtr v)
      else getValue valuer call_value marshal True t v)"
| "getValue valuer call_value marshal addr t v = value_of valuer call_value marshal addr t v"

text \<open>An argument of a builder: nil, or a value with its dynamic type.\<close>

definition toDBValue ::
  "(gtype \<Rightarrow> bool) \<Rightarrow> (gtype \<Rightarrow> gval \<Rightarrow> string + dbval) \<Rightarrow> (gtype \<Rightarrow> gval \<Rightarrow> string + string) \<Rightarrow>
   (gtype \<times> gval) option \<Rightarrow> string + dbval" where
  "toDBValue valuer call_value marshal arg =
     (case arg of None \<Rightarrow> Inr DNil | Some (t, v) \<Rightarrow> getValue valuer call_value marshal False t v)"

section \<open>Reading a row\<close>

text \<open>
  What \<open>Scan\<close> has left in the target of a column: NULL or a value in one of the \<open>sql.Null\<close>
  types, the bytes of a JSON buffer (empty for NULL), or the field itself when it is scanned
  directly.
\<close>

datatype cell = CNull | CBool bool | CInt int | CFloat "64 word" | CString string | CTime int
  | CJson string | CDirect gval

text \<open>\<open>reflect.Value.SetInt\<close> and \<open>SetUint\<close> keep the low bits that fit the element type.\<close>

fun set_int :: "gtype \<Rightarrow> int \<Rightarrow> gval" where
  "set_int (TInt k n) i = VInt (signed_take_bit (width k - 1) i)"
| "set_int _ i = VInt i"

fun set_uint :: "gtype \<Rightarrow> int \<Rightarrow> gval" where
  "set_uint (TUint k n) i = VUint (take_bit (width k) i)"
| "set_uint _ i = VUint (take_bit 64 i)"

fun set_float :: "(64 word \<Rightarrow> 64 word) \<Rightarrow> gtype \<Rightarrow> 64 word \<Rightarrow> gval" where
  "set_float narrow32 (TFloat w n) f = VFloat (if w = 32 then narrow32 f else f)"
| "set_float narrow32 _ f = VFloat f"

text \<open>
  \<open>ptrScanSlot.apply\<close> for a slot whose target is of the right type, as \<open>prepareScan\<close> makes it;
  \<open>zero\<close> is the zero value of the field's type. The value of a pointer field is a new pointer.
\<close>

definition ptr_apply ::
  "(64 word \<Rightarrow> 64 word) \<Rightarrow> fieldScanKind \<Rightarrow> gtype option \<Rightarrow> gval \<Rightarrow> cell \<Rightarrow> string + gval" where
  "ptr_apply narrow32 kind elemType zero c =
     (if c = CNull then Inr zero
      else case (kind, elemType, c) of
        (scanPtrString, Some elem, CString s) \<Rightarrow> Inr (VPtr (VString s))
      | (scanPtrBool, Some elem, CBool b) \<Rightarrow> Inr (VPtr (VBool b))
      | (scanPtrInt, Some elem, CInt i) \<Rightarrow> Inr (VPtr (set_int elem i))
      | (scanPtrUint, Some elem, CInt i) \<Rightarrow>
          if i < 0 then Inl ''cannot scan negative value into unsigned field''
          else Inr (VPtr (set_uint elem i))
      | (scanPtrFloat, Some elem, CFloat f) \<Rightarrow> Inr (VPtr (set_float narrow32 elem f))
      | (scanPtrTime, Some elem, CTime i) \<Rightarrow> Inr (VPtr (VTime i))
      | (scanPtrTime, None, CTime i) \<Rightarrow> Inr (VTime i)
      | _ \<Rightarrow> Inl ''target'')"

text \<open>
  The JSON half of \<open>finalizeScan\<close> for one field with the current value \<open>v\<close>. \<open>unmarshal\<close> reads the
  text into a variable of the type that holds the value it is given.
\<close>

definition json_apply ::
  "(string \<Rightarrow> gval list) \<Rightarrow> (gtype \<Rightarrow> gval \<Rightarrow> string \<Rightarrow> string + gval) \<Rightarrow> string \<Rightarrow> gtype \<Rightarrow> gval \<Rightarrow>
   string \<Rightarrow> string + gval" where
  "json_apply zeros unmarshal name t v buf =
     (if buf = '''' then Inr v
      else
        case (case t of
                TPtr e \<Rightarrow>
                  map_sum id VPtr (unmarshal e (case v of VPtr w \<Rightarrow> w | _ \<Rightarrow> zero_value zeros e) buf)
              | _ \<Rightarrow> unmarshal t v buf) of
          Inl e \<Rightarrow> Inl (''unmarshal json field '' @ name @ '' failed: '' @ e)
        | Inr w \<Rightarrow> Inr w)"

end
