(* ===== verification/Sql_Builder.thy ===== *)
theory Sql_Builder
  imports Sql_Text Pg_Value
begin

text \<open>
  The statement builders of \<open>pgsql\<close>: \<open>WhereBuilder\<close> (\<open>where.go\<close>), \<open>UpdateBuilder\<close>
  (\<open>update.go\<close>), \<open>buildValuesSQL\<close> and \<open>columnSQL\<close> (\<open>table.go\<close>). A builder is a record, each of
  its methods a function from builder to builder; a nil builder is \<open>None\<close>. The integers \<open>limit\<close>
  and \<open>offset\<close> are Go's \<open>int\<close>; the running placeholder number starts at 1 or behind the
  placeholders of another builder and is a natural number.
\<close>

section \<open>WhereBuilder\<close>

record 'v where_builder =
  conditions :: "string list"
  w_args :: "'v list"
  orderBy :: string
  w_limit :: int
  w_offset :: int

definition empty_where :: "'v where_builder" where
  "empty_where = \<lparr>conditions = [], w_args = [], orderBy = '''', w_limit = 0, w_offset = 0\<rparr>"

definition wb_and :: "string \<Rightarrow> 'v list \<Rightarrow> 'v where_builder \<Rightarrow> 'v where_builder" where
  "wb_and condition args wb =
     wb\<lparr>conditions := conditions wb @ [condition], w_args := w_args wb @ args\<rparr>"

definition wb_orderBy :: "string \<Rightarrow> 'v where_builder \<Rightarrow> 'v where_builder" where
  "wb_orderBy order wb = wb\<lparr>orderBy := order\<rparr>"

definition wb_limit :: "int \<Rightarrow> 'v where_builder \<Rightarrow> 'v where_builder" where
  "wb_limit limit wb = wb\<lparr>w_limit := limit\<rparr>"

definition wb_offset :: "int \<Rightarrow> 'v where_builder \<Rightarrow> 'v where_builder" where
  "wb_offset offset wb = wb\<lparr>w_offset := offset\<rparr>"

definition Where :: "string \<Rightarrow> 'v list \<Rightarrow> 'v where_builder" where
  "Where condition args = wb_and condition args empty_where"

definition OrderBy :: "string \<Rightarrow> 'v where_builder" where
  "OrderBy condition = wb_orderBy condition empty_where"

text \<open>The loop over the conditions; the placeholder number runs through all of them.\<close>

fun reindex_all :: "nat \<Rightarrow> string list \<Rightarrow> string list" where
  "reindex_all argIdx [] = []"
| "reindex_all argIdx (cond # conds) =
     (let (newCond, idx) = reindex argIdx cond in newCond # reindex_all idx conds)"

definition where_tail :: "'v where_builder \<Rightarrow> string" where
  "where_tail wb =
     (if orderBy wb \<noteq> '''' then '' ORDER BY '' @ orderBy wb else '''') @
     (if 0 < w_limit wb then '' LIMIT '' @ dec (nat (w_limit wb)) else '''') @
     (if 0 < w_offset wb then '' OFFSET '' @ dec (nat (w_offset wb)) else '''')"

definition where_sql :: "'v where_builder option \<Rightarrow> nat \<Rightarrow> string \<times> 'v list" where
  "where_sql wbo startIdx =
     (case wbo of
        None \<Rightarrow> ('''', [])
      | Some wb \<Rightarrow>
          if conditions wb = [] \<and> orderBy wb = '''' \<and> w_limit wb = 0 then ('''', [])
          else
            (let reindexed = reindex_all startIdx (conditions wb);
                 clause = (if reindexed \<noteq> [] then '' WHERE '' @ join '' AND '' reindexed else '''')
             in (clause @ where_tail wb, w_args wb)))"

section \<open>UpdateBuilder\<close>

record set_entry =
  column :: string
  expr :: string
  s_args :: "dbval list"

type_synonym update_builder = "set_entry list"

text \<open>\<open>to_db\<close> is \<open>toDBValue\<close>; its error makes the method panic.\<close>

definition ub_set ::
  "('a \<Rightarrow> string + dbval) \<Rightarrow> string \<Rightarrow> 'a \<Rightarrow> update_builder \<Rightarrow> update_builder outcome" where
  "ub_set to_db col value ub =
     (case to_db value of
        Inl e \<Rightarrow> Panic (''UpdateBuilder.Set error: '' @ e)
      | Inr val \<Rightarrow> Return (ub @ [\<lparr>column = col, expr = '''', s_args = [val]\<rparr>]))"

text \<open>The constructors \<open>Set\<close> and \<open>SetExpr\<close> start from an empty builder.\<close>

definition Set_new :: "('a \<Rightarrow> string + dbval) \<Rightarrow> string \<Rightarrow> 'a \<Rightarrow> update_builder outcome" where
  "Set_new to_db col value = ub_set to_db col value []"

fun convert_all :: "('a \<Rightarrow> string + dbval) \<Rightarrow> 'a list \<Rightarrow> string + dbval list" where
  "convert_all to_db [] = Inr []"
| "convert_all to_db (arg # args) =
     (case to_db arg of
        Inl e \<Rightarrow> Inl e
      | Inr val \<Rightarrow> map_sum id ((#) val) (convert_all to_db args))"

definition ub_set_expr ::
  "('a \<Rightarrow> string + dbval) \<Rightarrow> string \<Rightarrow> 'a list \<Rightarrow> update_builder \<Rightarrow> update_builder outcome" where
  "ub_set_expr to_db ex args ub =
     (case convert_all to_db args of
        Inl e \<Rightarrow> Panic (''UpdateBuilder.SetExpr error: '' @ e)
      | Inr vals \<Rightarrow> Return (ub @ [\<lparr>column = '''', expr = ex, s_args = vals\<rparr>]))"

definition SetExpr_new :: "('a \<Rightarrow> string + dbval) \<Rightarrow> string \<Rightarrow> 'a list \<Rightarrow> update_builder outcome" where
  "SetExpr_new to_db ex args = ub_set_expr to_db ex args []"

text \<open>The inner loop for an expression: each argument replaces the first \<open>$1\<close> that is left.\<close>

fun resolve_expr :: "string \<Rightarrow> nat \<Rightarrow> 'v list \<Rightarrow> string" where
  "resolve_expr resolved idx [] = resolved"
| "resolve_expr resolved idx (arg # args) =
     resolve_expr (replace_first ''$1'' (CHR ''$'' # dec idx) resolved) (idx + 1) args"

text \<open>One entry: its text and its arguments. \<open>entry.args[0]\<close> panics when there is none.\<close>

definition set_part :: "nat \<Rightarrow> set_entry \<Rightarrow> (string \<times> dbval list) outcome" where
  "set_part idx entry =
     (if expr entry = ''''
      then (case s_args entry of
              [] \<Rightarrow> Panic ''index out of range''
            | v # _ \<Rightarrow> Return (column entry @ '' = $'' @ dec idx, [v]))
      else Return (resolve_expr (expr entry) idx (s_args entry), s_args entry))"

fun set_parts :: "nat \<Rightarrow> set_entry list \<Rightarrow> (string list \<times> dbval list \<times> nat) outcome" where
  "set_parts idx [] = Return ([], [], idx)"
| "set_parts idx (entry # sets) =
     bind_outcome (set_part idx entry) (\<lambda>(part, vals).
     bind_outcome (set_parts (idx + length vals) sets) (\<lambda>(parts, allArgs, idx').
     Return (part # parts, vals @ allArgs, idx')))"

definition update_sql :: "update_builder option \<Rightarrow> nat \<Rightarrow> (string \<times> dbval list \<times> nat) outcome" where
  "update_sql ubo startIdx =
     (case ubo of
        None \<Rightarrow> Return ('''', [], startIdx)
      | Some sets \<Rightarrow>
          if sets = [] then Return ('''', [], startIdx)
          else bind_outcome (set_parts startIdx sets) (\<lambda>(parts, allArgs, idx).
            Return (''SET '' @ join '', '' parts, allArgs, idx)))"

section \<open>Values and columns\<close>

definition buildValuesSQL :: "nat \<Rightarrow> nat \<Rightarrow> string" where
  "buildValuesSQL rowCount colCount =
     join '', '' (map (\<lambda>i. ''('' @ join '', '' (map (\<lambda>j. CHR ''$'' # dec (i * colCount + j + 1))
       [0..<colCount]) @ '')'') [0..<rowCount])"

end
