(* ===== verification/Sql_Props.thy ===== *)
theory Sql_Props
  imports Sql_Builder
begin

text \<open>
  The builders produce statements that mean what their callers wrote. A fragment of a statement is
  given by what it renders, from a given placeholder number on, and by what it means; the locale
  \<open>sql_fragment\<close> is the contract between the two, \<open>sql_statement\<close> puts two fragments behind
  each other the way \<open>Table.Update\<close> does. Both builders are interpretations.
\<close>

abbreviation texts :: "string \<Rightarrow> 'v token list" where
  "texts s \<equiv> map Text s"

section \<open>Fragments and statements\<close>

locale sql_fragment =
  fixes build :: "'b \<Rightarrow> nat \<Rightarrow> string \<times> 'v list"
    and ok :: "'b \<Rightarrow> bool"
    and meaning :: "'b \<Rightarrow> 'v token list"
  assumes frag_fill: "ok b \<Longrightarrow> build b (length pre + 1) = (s, vs) \<Longrightarrow> fill (pre @ vs @ post) s = meaning b"
    and frag_head: "ok b \<Longrightarrow> no_digit (fst (build b i))"
begin

lemma frag_alone:
  assumes "ok b" "build b 1 = (s, vs)" "plain p"
  shows "fill vs (p @ s) = texts p @ meaning b"
  using frag_fill [OF assms(1), of "[]" s vs "[]"] assms(2,3) by (simp add: fill_plain_append)

lemma frag_then:
  assumes "ok b" "build b 1 = (s, vs)" "plain p" "plain q" "no_digit q"
  shows "fill vs (p @ s @ q) = texts p @ meaning b @ texts q"
  using frag_fill [OF assms(1), of "[]" s vs "[]"] assms(2-)
  by (simp add: fill_plain_append fill_append fill_plain)

end

locale sql_statement =
  a: sql_fragment build ok meaning + b: sql_fragment build' ok' meaning'
  for build :: "'b \<Rightarrow> nat \<Rightarrow> string \<times> 'v list" and ok meaning
    and build' :: "'c \<Rightarrow> nat \<Rightarrow> string \<times> 'v list" and ok' meaning'
begin

text \<open>The second fragment is numbered from behind the arguments of the first.\<close>

lemma statement_fill:
  assumes "ok b" "ok' c" "build b 1 = (s, vs)" "build' c (1 + length vs) = (s', vs')" "plain p"
  shows "fill (vs @ vs') (p @ s @ s') = texts p @ meaning b @ meaning' c"
proof -
  have "no_digit s'" using b.frag_head [OF assms(2), of "1 + length vs"] assms(4) by simp
  moreover have "fill (vs @ vs') s = meaning b"
    using a.frag_fill [OF assms(1), of "[]" s vs vs'] assms(3) by simp
  moreover have "fill (vs @ vs') s' = meaning' c"
    using b.frag_fill [OF assms(2), of vs s' vs' "[]"] assms(4) by simp
  ultimately show ?thesis using assms(5) by (simp add: fill_plain_append fill_append)
qed

end

lemma fill_join:
  assumes "plain sep" "sep \<noteq> []" "no_digit sep"
  shows "fill args (join sep parts) = join (texts sep) (map (fill args) parts)"
proof (induction parts rule: induct_list012)
  case (3 x y xs)
  have "no_digit (sep @ join sep (y # xs))" using assms by (simp add: no_digit_append)
  with 3(2) assms(1) show ?case by (simp add: fill_append fill_plain_append)
qed simp_all

section \<open>Where clauses\<close>

definition where_ok :: "'v where_builder \<Rightarrow> bool" where
  "where_ok wb \<longleftrightarrow> holes (concat (conditions wb)) = length (w_args wb) \<and> plain (orderBy wb)"

definition where_meaning :: "'v where_builder \<Rightarrow> 'v token list" where
  "where_meaning wb =
     (if conditions wb = [] then []
      else texts '' WHERE '' @ fill_seq (w_args wb) (join '' AND '' (conditions wb))) @
     (if conditions wb = [] \<and> orderBy wb = '''' \<and> w_limit wb = 0 then [] else texts (where_tail wb))"

lemma reindex_all_join: "join '' AND '' (reindex_all k conds) = fst (reindex k (join '' AND '' conds))"
proof (induction conds arbitrary: k rule: induct_list012)
  case (3 x y conds)
  have nd: "no_digit ('' AND '' @ join '' AND '' (y # conds))"
    by (simp add: is_digit_def)
  have "fst (reindex k (join '' AND '' (x # y # conds))) =
      fst (reindex k x) @ fst (reindex (k + holes x) ('' AND '' @ join '' AND '' (y # conds)))"
    by (simp only: join.simps reindex_append [OF nd])
  then show ?case
    using 3(2) [of "k + holes x"] by (simp add: case_prod_beta reindex_snd)
qed (simp_all add: case_prod_beta)

lemma holes_join: "holes (join '' AND '' conds) = holes (concat conds)"
  by (induction conds rule: induct_list012) simp_all

lemma plain_where_tail: "plain (orderBy wb) \<Longrightarrow> plain (where_tail wb)"
  by (simp add: where_tail_def)

lemma no_digit_where_tail: "no_digit (where_tail wb)"
  by (simp add: where_tail_def no_digit_append is_digit_def)

lemma where_clause_split:
  "where_sql (Some wb) i =
     (if conditions wb = [] \<and> orderBy wb = '''' \<and> w_limit wb = 0 then ('''', [])
      else ((if conditions wb = [] then ''''
             else '' WHERE '' @ fst (reindex i (join '' AND '' (conditions wb)))) @ where_tail wb,
            w_args wb))"
proof -
  have "reindex_all i (conditions wb) = [] \<longleftrightarrow> conditions wb = []"
    by (cases "conditions wb") (simp_all add: case_prod_beta)
  then show ?thesis by (simp add: where_sql_def reindex_all_join)
qed

interpretation where_frag: sql_fragment "where_sql \<circ> Some" where_ok where_meaning
proof (unfold_locales, goal_cases)
  case (2 wb i)
  show ?case
    by (simp add: where_clause_split no_digit_append no_digit_where_tail is_digit_def)
next
  case (1 wb pre s vs post)
  note ok = 1(1) and b = 1(2)
  have tail: "fill (pre @ vs @ post) (where_tail wb) = texts (where_tail wb)"
    using ok by (simp add: where_ok_def fill_plain plain_where_tail)
  show ?case
  proof (cases "conditions wb = []")
    case True
    with b tail show ?thesis by (auto simp: where_clause_split where_meaning_def split: if_splits)
  next
    case False
    with b have s: "s = '' WHERE '' @ fst (reindex (length pre + 1) (join '' AND '' (conditions wb))) @ where_tail wb"
      and vs: "vs = w_args wb"
      by (simp_all add: where_clause_split)
    have "holes (join '' AND '' (conditions wb)) = length vs"
      using ok vs by (simp add: where_ok_def holes_join)
    from fill_reindex [OF this, of pre post] tail show ?thesis
      using False vs unfolding s where_meaning_def
      by (simp only: fill_append [OF no_digit_where_tail] fill_plain_append) 
        (simp add: fill_append no_digit_where_tail)
  qed
qed

section \<open>Set clauses\<close>

text \<open>
  An entry that renders as its author means it: a column, or an expression with at most one
  argument, whose placeholder is the text \<open>$1\<close>.
\<close>

definition single_hole :: "string \<Rightarrow> bool" where
  "single_hole s \<longleftrightarrow>
     (case dropWhile (\<lambda>c. c \<noteq> CHR ''$'') s of
        d # c # q \<Rightarrow> c = CHR ''1'' \<and> plain q \<and> no_digit q
      | _ \<Rightarrow> False)"

definition entry_ok :: "set_entry \<Rightarrow> bool" where
  "entry_ok e \<longleftrightarrow>
     (if expr e = '''' then length (s_args e) = 1 \<and> plain (column e)
      else if s_args e = [] then plain (expr e)
      else length (s_args e) = 1 \<and> single_hole (expr e))"

definition entry_meaning :: "set_entry \<Rightarrow> dbval token list" where
  "entry_meaning e =
     (if expr e = '''' then texts (column e @ '' = '') @ map Value (s_args e)
      else fill_seq (s_args e) (expr e))"

definition update_ok :: "update_builder \<Rightarrow> bool" where
  "update_ok ub \<longleftrightarrow> ub \<noteq> [] \<and> list_all entry_ok ub"

definition update_meaning :: "update_builder \<Rightarrow> dbval token list" where
  "update_meaning ub = texts ''SET '' @ join (texts '', '') (map entry_meaning ub)"

lemma single_holeE:
  assumes "single_hole s"
  obtains p q where "s = p @ ''$1'' @ q" "plain p" "plain q" "no_digit q"
proof -
  let ?p = "takeWhile (\<lambda>c. c \<noteq> CHR ''$'') s" and ?r = "dropWhile (\<lambda>c. c \<noteq> CHR ''$'') s"
  from assms obtain d q where r: "?r = d # CHR ''1'' # q" "plain q" "no_digit q"
    by (auto simp: single_hole_def split: list.splits)
  have "d = CHR ''$''" using r(1) hd_dropWhile [of "\<lambda>c. c \<noteq> CHR ''$''" s] by simp
  moreover have "s = ?p @ ?r" by simp
  moreover have "plain ?p" by (auto simp: plain_def dest: set_takeWhileD)
  ultimately show thesis using that [of ?p q] r by simp
qed

lemma replace_hole: "plain p \<Longrightarrow> replace_first ''$1'' new (p @ ''$1'' @ q) = p @ new @ q"
  by (induction p) auto

lemma set_part_ok:
  assumes "entry_ok e"
  obtains part where "set_part (length pre + 1) e = Return (part, s_args e)"
    "fill (pre @ s_args e @ post) part = entry_meaning e"
proof (cases "expr e = ''''")
  case True
  with assms obtain v where v: "s_args e = [v]" "plain (column e)"
    by (auto simp: entry_ok_def length_Suc_conv)
  have "argument (pre @ v # post) (length pre + 1) = Value v"
    by (simp add: argument_def nth_append)
  with v have "fill (pre @ s_args e @ post) (column e @ '' = $'' @ dec (length pre + 1)) = entry_meaning e"
    using fill_dec [of "[]" "pre @ v # post" "length pre + 1"] True
    by (simp add: fill_plain_append entry_meaning_def del: fill.simps) (simp add: fill_plain)
  with True v show thesis by (intro that [of "column e @ '' = $'' @ dec (length pre + 1)"])
      (simp_all add: set_part_def)
next
  case False
  show thesis
  proof (cases "s_args e = []")
    case True
    with False assms show thesis
      by (intro that [of "expr e"])
        (simp_all add: set_part_def entry_ok_def entry_meaning_def fill_plain fill_seq_plain)
  next
    case args: False
    with False assms obtain v where v: "s_args e = [v]" "single_hole (expr e)"
      by (auto simp: entry_ok_def length_Suc_conv)
    from v(2) obtain p q where x: "expr e = p @ ''$1'' @ q" "plain p" "plain q" "no_digit q"
      by (rule single_holeE)
    let ?part = "p @ CHR ''$'' # dec (length pre + 1) @ q"
    have a: "argument (pre @ v # post) (length pre + 1) = Value v"
      by (simp add: argument_def nth_append)
    have "fill (pre @ v # post) ?part = texts p @ Value v # texts q"
      using fill_dec [OF x(4), of "pre @ v # post" "length pre + 1"] a x(2,3)
      by (simp add: fill_plain_append fill_plain del: fill.simps)
    moreover have "fill_seq [v] (p @ ''$1'' @ q) = texts p @ Value v # texts q"
      using x(2-4) by (induction p) (simp_all add: is_digit_def [of "CHR ''1''"] fill_seq_plain no_digit_dropWhile_id)
    ultimately show thesis using False v x(1) replace_hole [OF x(2), of "CHR ''$'' # dec (length pre + 1)" q]
      by (intro that [of ?part]) (simp_all add: set_part_def entry_meaning_def)
  qed
qed

lemma set_parts_ok:
  assumes "list_all entry_ok ub"
  shows "\<exists>parts. set_parts (length pre + 1) ub =
      Return (parts, concat (map s_args ub), length pre + 1 + length (concat (map s_args ub))) \<and>
    map (fill (pre @ concat (map s_args ub) @ post)) parts = map entry_meaning ub"
  using assms
proof (induction ub arbitrary: pre)
  case (Cons e ub)
  from Cons(2) have e: "entry_ok e" and ub: "list_all entry_ok ub" by simp_all
  obtain part where p: "set_part (length pre + 1) e = Return (part, s_args e)"
    "fill (pre @ s_args e @ concat (map s_args ub) @ post) part = entry_meaning e"
    using set_part_ok [OF e] by blast
  obtain parts where r:
    "set_parts (length (pre @ s_args e) + 1) ub =
       Return (parts, concat (map s_args ub), length (pre @ s_args e) + 1 + length (concat (map s_args ub)))"
    "map (fill ((pre @ s_args e) @ concat (map s_args ub) @ post)) parts = map entry_meaning ub"
    using Cons.IH [OF ub, of "pre @ s_args e"] by blast
  then show ?case using p by (intro exI [of _ "part # parts"]) (simp add: ac_simps)
qed simp

text \<open>\<open>UpdateBuilder.buildSQL\<close> as a fragment: the text and the arguments it returns.\<close>

definition update_build :: "update_builder \<Rightarrow> nat \<Rightarrow> string \<times> dbval list" where
  "update_build ub i =
     (case update_sql (Some ub) i of Return (s, vs, _) \<Rightarrow> (s, vs) | Panic _ \<Rightarrow> ('''', []))"

lemma update_sql_ok:
  assumes "update_ok ub"
  shows "\<exists>s. update_sql (Some ub) (length pre + 1) =
      Return (s, concat (map s_args ub), length pre + 1 + length (concat (map s_args ub))) \<and>
    no_digit s \<and> fill (pre @ concat (map s_args ub) @ post) s = update_meaning ub"
proof -
  from assms have ub: "list_all entry_ok ub" "ub \<noteq> []" by (simp_all add: update_ok_def)
  obtain parts where p:
    "set_parts (length pre + 1) ub =
       Return (parts, concat (map s_args ub), length pre + 1 + length (concat (map s_args ub)))"
    "map (fill (pre @ concat (map s_args ub) @ post)) parts = map entry_meaning ub"
    using set_parts_ok [OF ub(1)] by blast
  have "fill (pre @ concat (map s_args ub) @ post) (''SET '' @ join '', '' parts) = update_meaning ub"
    unfolding update_meaning_def p(2) [symmetric]
    by (subst fill_plain_append) (simp_all add: fill_join is_digit_def)
  then show ?thesis using p(1) ub(2)
    by (intro exI [of _ "''SET '' @ join '', '' parts"]) (simp add: update_sql_def is_digit_def)
qed

interpretation update_frag: sql_fragment update_build update_ok update_meaning
proof (unfold_locales, goal_cases)
  case (1 ub pre s vs post)
  with update_sql_ok [OF 1(1), of pre post] show ?case by (auto simp: update_build_def)
next
  case (2 ub i)
  show ?case
  proof (cases "update_sql (Some ub) i")
    case (Return r)
    then have "\<exists>parts. fst r = ''SET '' @ join '', '' parts"
      using 2 by (auto simp: update_sql_def update_ok_def bind_outcome_Return_iff split: if_splits)
    with Return show ?thesis by (auto simp: update_build_def is_digit_def split: prod.splits)
  qed (simp add: update_build_def)
qed

interpretation update_where: sql_statement
  update_build update_ok update_meaning "where_sql \<circ> Some" where_ok where_meaning ..

section \<open>Value lists\<close>

definition values_meaning :: "'v list list \<Rightarrow> 'v token list" where
  "values_meaning rows =
     join (texts '', '')
       (map (\<lambda>row. Text CHR ''('' # join (texts '', '') (map (\<lambda>v. [Value v]) row) @ [Text CHR '')'']) rows)"

lemma fill_one: "fill args (CHR ''$'' # dec n) = [argument args n]"
  using fill_dec [of "[]" args n] by simp

lemma nth_concat_uniform:
  "list_all (\<lambda>r. length r = c) rows \<Longrightarrow> i < length rows \<Longrightarrow> j < c \<Longrightarrow>
   i * c + j < length (concat rows) \<and> concat rows ! (i * c + j) = rows ! i ! j"
proof (induction rows arbitrary: i)
  case (Cons r rows)
  then show ?case by (cases i) (auto simp: nth_append ac_simps)
qed simp

lemma fill_values:
  assumes "list_all (\<lambda>r. length r = c) rows"
  shows "fill (concat rows) (buildValuesSQL (length rows) c) = values_meaning rows"
proof -
  let ?args = "concat rows"
  have cell: "fill ?args (CHR ''$'' # dec (i * c + j + 1)) = [Value (rows ! i ! j)]"
    if "i < length rows" "j < c" for i j
    using nth_concat_uniform [OF assms that] by (simp add: fill_one argument_def del: fill.simps)
  have row: "fill ?args (''('' @ join '', '' (map (\<lambda>j. CHR ''$'' # dec (i * c + j + 1)) [0..<c]) @ '')'')
      = Text CHR ''('' # join (texts '', '') (map (\<lambda>v. [Value v]) (rows ! i)) @ [Text CHR '')'']"
    if i: "i < length rows" for i
  proof -
    have "length (rows ! i) = c" using assms i by (simp add: list_all_length)
    then have "map (fill ?args) (map (\<lambda>j. CHR ''$'' # dec (i * c + j + 1)) [0..<c]) =
        map (\<lambda>v. [Value v]) (rows ! i)"
      using cell [OF i] by (intro nth_equalityI) simp_all
    then show ?thesis
      by (simp add: fill_plain_append fill_append fill_join is_digit_def)
  qed
  have "map (fill ?args) (map (\<lambda>i. ''('' @ join '', '' (map (\<lambda>j. CHR ''$'' # dec (i * c + j + 1)) [0..<c]) @ '')'')
        [0..<length rows]) =
      map (\<lambda>row. Text CHR ''('' # join (texts '', '') (map (\<lambda>v. [Value v]) row) @ [Text CHR '')'']) rows"
    using row by (intro nth_equalityI) simp_all
  then show ?thesis
    unfolding buildValuesSQL_def values_meaning_def by (subst fill_join) (simp_all add: is_digit_def)
qed

section \<open>Properties\<close>

definition where_calls :: "(string \<times> 'v list) list \<Rightarrow> 'v where_builder" where
  "where_calls calls = foldl (\<lambda>wb (c, a). wb_and c a wb) empty_where calls"

lemma where_calls_snoc: "where_calls (calls @ [(c, a)]) = wb_and c a (where_calls calls)"
  by (simp add: where_calls_def)

lemma where_calls_fields:
  "conditions (where_calls calls) = map fst calls \<and> w_args (where_calls calls) = concat (map snd calls) \<and>
   orderBy (where_calls calls) = '''' \<and> w_limit (where_calls calls) = 0 \<and> w_offset (where_calls calls) = 0"
  by (induction calls rule: rev_induct) (auto simp: where_calls_snoc wb_and_def, simp_all add: where_calls_def empty_where_def)

lemma fill_seq_join:
  "list_all (\<lambda>(c, a). holes c = length a) calls \<Longrightarrow>
   fill_seq (concat (map snd calls)) (join '' AND '' (map fst calls)) =
   join (texts '' AND '') (map (\<lambda>(c, a). fill_seq a c) calls)"
proof (induction calls rule: induct_list012)
  case (3 x y calls)
  have nd: "no_digit ('' AND '' @ join '' AND '' (map fst (y # calls)))"
    by (simp add: is_digit_def)
  have "fill_seq (concat (map snd (x # y # calls))) (join '' AND '' (map fst (x # y # calls))) =
      fill_seq (snd x) (fst x) @
      fill_seq (concat (map snd (y # calls))) ('' AND '' @ join '' AND '' (map fst (y # calls)))"
    using 3(3) by (subst fill_seq_append [OF nd, symmetric]) (simp_all add: case_prod_beta)
  then show ?case using 3(2,3) by (simp add: case_prod_beta)
qed (simp_all add: case_prod_beta)

text \<open>
  A where clause means what its conditions mean. Whatever number its placeholders start from,
  that is, however many arguments stand before it in the statement, the clause rendered for a
  sequence of \<open>And\<close> calls gives each condition its own arguments, in order; the builder returns
  the arguments of all calls, one after the other; and the ordering, limit and offset follow.
\<close>

theorem where_clause_meaning:
  assumes "calls \<noteq> []" "list_all (\<lambda>(c, a). holes c = length a) calls" "plain order"
    and "where_sql (Some (wb_offset offset (wb_limit limit (wb_orderBy order (where_calls calls)))))
           (length pre + 1) = (s, vs)"
  shows "vs = concat (map snd calls) \<and>
    fill (pre @ vs @ post) s =
      texts '' WHERE '' @ join (texts '' AND '') (map (\<lambda>(c, a). fill_seq a c) calls) @
      texts ((if order \<noteq> '''' then '' ORDER BY '' @ order else '''') @
             (if 0 < limit then '' LIMIT '' @ dec (nat limit) else '''') @
             (if 0 < offset then '' OFFSET '' @ dec (nat offset) else ''''))"
proof -
  let ?wb = "wb_offset offset (wb_limit limit (wb_orderBy order (where_calls calls)))"
  have f: "conditions ?wb = map fst calls" "w_args ?wb = concat (map snd calls)"
    "orderBy ?wb = order" "w_limit ?wb = limit" "w_offset ?wb = offset"
    using where_calls_fields [of calls] by (simp_all add: wb_offset_def wb_limit_def wb_orderBy_def)
  have "holes (concat (map fst calls)) = length (concat (map snd calls))"
    using assms(2) by (induction calls) auto
  then have "where_ok ?wb" using assms(3) f by (simp add: where_ok_def)
  from where_frag.frag_fill [OF this, of pre s vs post] assms(4)
  have "fill (pre @ vs @ post) s = where_meaning ?wb" by simp
  moreover have "vs = concat (map snd calls)" using assms(1,4) f by (simp add: where_clause_split)
  ultimately show ?thesis
    using assms(1) fill_seq_join [OF assms(2)] unfolding where_meaning_def where_tail_def f by simp
qed

theorem where_clause_meaning_witness:
  "\<exists>s. where_sql (Some (wb_offset 0 (wb_limit 5 (wb_orderBy ''id'' (where_calls
       [(''a = $1'', [True]), (''b > $1 OR c < $2'', [False, True])]))))) 3 = (s, [True, False, True]) \<and>
     fill ([False, False] @ [True, False, True] @ []) s =
       texts '' WHERE a = '' @ [Value True] @ texts '' AND b > '' @ [Value False] @ texts '' OR c < '' @
       [Value True] @ texts '' ORDER BY id LIMIT 5''"
proof -
  let ?calls = "[(''a = $1'', [True]), (''b > $1 OR c < $2'', [False, True])]"
  obtain s vs where 2: "where_sql (Some (wb_offset 0 (wb_limit 5 (wb_orderBy ''id'' (where_calls ?calls)))))
      (length [False, False] + 1) = (s, vs)" by fastforce
  have 1: "?calls \<noteq> []" "list_all (\<lambda>(c, a). holes c = length a) ?calls" "plain ''id''"
    by simp_all
  have "dec 5 = ''5''" by (simp add: dec.simps digit_char_def char_of_eq_iff)
  with where_clause_meaning [OF 1 2, of "[]"] have
    "vs = [True, False, True] \<and> fill ([False, False] @ vs @ []) s =
       texts '' WHERE a = '' @ [Value True] @ texts '' AND b > '' @ [Value False] @ texts '' OR c < '' @
       [Value True] @ texts '' ORDER BY id LIMIT 5''"
    by (auto simp: is_digit_def simp del: fill.simps)
  moreover have "length [False, False] + 1 = (3::nat)" by simp
  ultimately show ?thesis using 2 by (intro exI [of _ s]) (metis append_Nil2)
qed

text \<open>
  \<open>SetExpr\<close> with two arguments swaps them when it comes first: the second argument looks for
  \<open>$1\<close> again and finds the placeholder the first one has just been given, so the text's first
  placeholder takes the second argument.
\<close>

theorem set_expr_swaps_arguments:
  assumes "plain p" "plain q" "plain r" "no_digit q" "no_digit r"
  shows "\<exists>part. set_part 1 \<lparr>column = '''', expr = p @ ''$1'' @ q @ ''$1'' @ r, s_args = [v, w]\<rparr>
      = Return (part, [v, w]) \<and>
    fill ([v, w] @ post) part = texts p @ [Value w] @ texts q @ [Value v] @ texts r"
proof (intro exI conjI)
  let ?e = "\<lparr>column = '''', expr = p @ ''$1'' @ q @ ''$1'' @ r, s_args = [v, w]\<rparr>"
  let ?part = "p @ ''$2'' @ q @ ''$1'' @ r"
  note d = dec_1_2
  have "resolve_expr (p @ ''$1'' @ q @ ''$1'' @ r) 1 [v, w] = ?part"
    using replace_hole [OF assms(1), of "''$1''" "q @ ''$1'' @ r"]
      replace_hole [OF assms(1), of "''$2''" "q @ ''$1'' @ r"] d
    by (simp add: numeral_2_eq_2)
  then show "set_part 1 ?e = Return (?part, [v, w])" by (simp add: set_part_def)
  have 1: "fill args (''$1'' @ t) = argument args 1 # fill args t" if "no_digit t" for args t
    using fill_dec [OF that, of args 1, unfolded d] by (simp del: fill.simps)
  have 2: "fill args (''$2'' @ t) = argument args 2 # fill args t" if "no_digit t" for args t
    using fill_dec [OF that, of args 2, unfolded d] by (simp del: fill.simps)
  have "no_digit (q @ ''$1'' @ r)" using assms(4) by (simp add: no_digit_append)
  then have "fill ([v, w] @ post) ?part =
      texts p @ argument ([v, w] @ post) 2 # texts q @ argument ([v, w] @ post) 1 # texts r"
    using assms by (simp only: fill_plain_append 2 1) (simp only: fill_plain)
  then show "fill ([v, w] @ post) ?part = texts p @ [Value w] @ texts q @ [Value v] @ texts r"
    by (simp add: argument_def del: fill.simps)
qed

theorem set_expr_swaps_arguments_witness:
  "\<exists>part. set_part 1 \<lparr>column = '''', expr = ''n = $1 - $1'', s_args = [DTime 1, DTime 2]\<rparr>
      = Return (part, [DTime 1, DTime 2]) \<and>
    fill [DTime 1, DTime 2] part = texts ''n = '' @ [Value (DTime 2)] @ texts '' - '' @ [Value (DTime 1)]"
  using set_expr_swaps_arguments [of "''n = ''" "'' - ''" "[]" "DTime 1" "DTime 2" "[]"]
  by (simp add: is_digit_def)

end
