(* ===== verification/Pg_Value_Props.thy ===== *)
theory Pg_Value_Props
  imports Pg_Value
begin

text \<open>
  Which values of which field types survive being stored and read back. \<open>scan_field\<close> is what
  \<open>prepareScan\<close> and \<open>finalizeScan\<close> together do to one field, \<open>faithful_column\<close> what the database
  is assumed to do: a column returns what was stored in it, in the form the scan target asks for.
  The exceptions are properties of their own: a pointer to the zero time, a pointer to a nil slice
  or map, \<open>*[]byte\<close>, an unsigned pointer above the range of \<open>int64\<close>, and integers too wide for
  the field.
\<close>

section \<open>One field\<close>

definition scan_field ::
  "(gtype \<Rightarrow> bool) \<Rightarrow> (gtype \<Rightarrow> bool) \<Rightarrow> (string \<Rightarrow> gval list) \<Rightarrow> (64 word \<Rightarrow> 64 word) \<Rightarrow>
   (gtype \<Rightarrow> gval \<Rightarrow> string \<Rightarrow> string + gval) \<Rightarrow> string \<Rightarrow> gtype \<Rightarrow> cell \<Rightarrow> string + gval" where
  "scan_field scanner valuer zeros narrow32 unmarshal name t c =
     (case classifyScanKind scanner valuer t of (kind, elem) \<Rightarrow>
        if kind = scanDirect then (case c of CDirect v \<Rightarrow> Inr v | _ \<Rightarrow> Inl ''target'')
        else if kind = scanJSON
        then json_apply zeros unmarshal name t (zero_value zeros t)
               (case c of CJson j \<Rightarrow> j | _ \<Rightarrow> '''')
        else ptr_apply narrow32 kind elem (zero_value zeros t) c)"

definition faithful_column :: "(fieldScanKind \<Rightarrow> dbval \<Rightarrow> cell) \<Rightarrow> bool" where
  "faithful_column stored \<longleftrightarrow>
     (\<forall>k. stored k DNil = (if k = scanDirect then CDirect VNil else CNull)) \<and>
     (\<forall>t s. stored scanPtrString (DRaw t (VString s)) = CString s) \<and>
     (\<forall>t b. stored scanPtrBool (DRaw t (VBool b)) = CBool b) \<and>
     (\<forall>t i. stored scanPtrInt (DRaw t (VInt i)) = CInt i) \<and>
     (\<forall>t i. i < 2 ^ 63 \<longrightarrow> stored scanPtrUint (DRaw t (VUint i)) = CInt i) \<and>
     (\<forall>t f. stored scanPtrFloat (DRaw t (VFloat f)) = CFloat f) \<and>
     (\<forall>i. stored scanPtrTime (DTime i) = CTime i) \<and>
     (\<forall>j. stored scanJSON (DJson j) = CJson j) \<and>
     (\<forall>s. stored scanJSON (DBytes s) = CJson s) \<and>
     (\<forall>s. stored scanDirect (DBytes s) = CDirect (VBytes s)) \<and>
     (\<forall>t v. stored scanDirect (DRaw t v) = CDirect v)"

text \<open>A column that does so.\<close>

fun mirror :: "dbval \<Rightarrow> cell" where
  "mirror DNil = CNull"
| "mirror (DJson j) = CJson j"
| "mirror (DTime i) = CTime i"
| "mirror (DBytes s) = CJson s"
| "mirror (DRaw t (VString s)) = CString s"
| "mirror (DRaw t (VBool b)) = CBool b"
| "mirror (DRaw t (VInt i)) = CInt i"
| "mirror (DRaw t (VUint i)) = CInt i"
| "mirror (DRaw t (VFloat f)) = CFloat f"
| "mirror (DRaw t v) = CNull"
| "mirror (DCustom s) = CJson s"

fun mirror_column :: "fieldScanKind \<Rightarrow> dbval \<Rightarrow> cell" where
  "mirror_column scanDirect (DRaw t v) = CDirect v"
| "mirror_column scanDirect (DBytes s) = CDirect (VBytes s)"
| "mirror_column scanDirect _ = CDirect VNil"
| "mirror_column _ d = mirror d"

lemma faithful_mirror: "faithful_column mirror_column"
  unfolding faithful_column_def
proof (intro conjI allI impI)
  show "mirror_column k DNil = (if k = scanDirect then CDirect VNil else CNull)" for k
    by (cases k) simp_all
qed simp_all

text \<open>Types without methods of their own, and values that are not changed on the way.\<close>

definition plain_type :: "(gtype \<Rightarrow> bool) \<Rightarrow> (gtype \<Rightarrow> bool) \<Rightarrow> gtype \<Rightarrow> bool" where
  "plain_type scanner valuer t \<longleftrightarrow>
     list_all (\<lambda>t. \<not> scanner t \<and> \<not> valuer t)
       (case t of TPtr e \<Rightarrow> [t, TPtr t, e] | _ \<Rightarrow> [t, TPtr t])"

fun lossless :: "(64 word \<Rightarrow> 64 word) \<Rightarrow> gtype \<Rightarrow> gval \<Rightarrow> bool" where
  "lossless narrow32 (TPtr (TUint w n)) v = (case v of VPtr (VUint i) \<Rightarrow> i < 2 ^ 63 | _ \<Rightarrow> True)"
| "lossless narrow32 (TPtr (TUintptr n)) v = (case v of VPtr (VUint i) \<Rightarrow> i < 2 ^ 63 | _ \<Rightarrow> True)"
| "lossless narrow32 (TPtr (TFloat w n)) v =
     (case v of VPtr (VFloat f) \<Rightarrow> w = 32 \<longrightarrow> narrow32 f = f | _ \<Rightarrow> True)"
| "lossless narrow32 (TPtr (TStruct n)) v = (v \<noteq> VPtr (VTime 0))"
| "lossless narrow32 (TPtr (TSlice n t)) v = (v \<noteq> VPtr VNil \<and> (TSlice n t = bytesType \<longrightarrow> v = VNil))"
| "lossless narrow32 (TPtr (TMap n k t)) v = (v \<noteq> VPtr VNil)"
| "lossless narrow32 (TPtr (TPtr t)) v = (v = VNil)"
| "lossless narrow32 (TPtr (TOther n)) v = (v = VNil)"
| "lossless narrow32 t v = True"

text \<open>JSON reads back what it wrote, for the value at hand.\<close>

definition json_ok ::
  "(string \<Rightarrow> gval list) \<Rightarrow> (gtype \<Rightarrow> gval \<Rightarrow> string + string) \<Rightarrow>
   (gtype \<Rightarrow> gval \<Rightarrow> string \<Rightarrow> string + gval) \<Rightarrow> gtype \<Rightarrow> gval \<Rightarrow> bool" where
  "json_ok zeros marshal unmarshal t v \<longleftrightarrow>
     (\<forall>j. marshal t v = Inr j \<longrightarrow> j \<noteq> '''' \<and> unmarshal t (zero_value zeros t) j = Inr v)"

fun json_part :: "gtype \<Rightarrow> gval \<Rightarrow> gtype \<times> gval" where
  "json_part (TPtr t) (VPtr v) = (t, v)"
| "json_part t v = (t, v)"

text \<open>The types that go through JSON, themselves or through a pointer.\<close>

definition composite :: "gtype \<Rightarrow> bool" where
  "composite t \<longleftrightarrow> (is_struct t \<or> is_slice t \<or> is_map t) \<and> t \<noteq> timeType \<and> t \<noteq> bytesType"

section \<open>Round trips\<close>

lemma timeType_struct [simp]: "is_struct timeType"
  by (simp add: timeType_def)

lemma bytesType_slice [simp]: "bytesType \<noteq> timeType" "\<not> is_struct bytesType" "is_slice bytesType"
  by (simp_all add: timeType_def bytesType_def)

lemma value_of_plain:
  assumes "plain_type scanner valuer t"
  shows "value_of valuer call_value marshal addr t v = value_of (\<lambda>_. False) call_value marshal addr t v"
  using assms by (cases t) (simp_all add: value_of_def plain_type_def)

lemma signed_fits: "- (2 ^ n) \<le> i \<Longrightarrow> i < 2 ^ n \<Longrightarrow> signed_take_bit n i = (i::int)"
  by (rule signed_take_bit_int_eq_self)

lemma unsigned_fits: "0 \<le> i \<Longrightarrow> i < 2 ^ w \<Longrightarrow> take_bit w i = (i::int)"
  by (simp add: take_bit_int_eq_self)

lemmas field_defs = scan_field_def value_of_def ptr_apply_def json_apply_def plain_type_def

lemma column_laws:
  assumes "faithful_column stored"
  shows "stored k DNil = (if k = scanDirect then CDirect VNil else CNull)"
    "stored scanPtrString (DRaw t (VString s)) = CString s"
    "stored scanPtrBool (DRaw t (VBool b)) = CBool b"
    "stored scanPtrInt (DRaw t (VInt i)) = CInt i"
    "i < 2 ^ 63 \<Longrightarrow> stored scanPtrUint (DRaw t (VUint i)) = CInt i"
    "stored scanPtrFloat (DRaw t (VFloat f)) = CFloat f"
    "stored scanPtrTime (DTime i) = CTime i"
    "stored scanJSON (DJson j) = CJson j"
    "stored scanJSON (DBytes s) = CJson s"
    "stored scanDirect (DBytes s) = CDirect (VBytes s)"
    "stored scanDirect (DRaw t v) = CDirect v"
  using assms unfolding faithful_column_def by blast+

lemma round_trip_basic:
  assumes col: "faithful_column stored" and ty: "has_type t v" and pl: "plain_type scanner valuer t"
    and b: "\<not> is_struct t" "\<not> is_slice t" "\<not> is_map t" "\<And>e. t \<noteq> TPtr e"
    and get: "getValue valuer call_value marshal True t v = Inr d"
  shows "scan_field scanner valuer zeros narrow32 unmarshal name t
    (stored (fst (classifyScanKind scanner valuer t)) d) = Inr v"
  using pl b get
  by (cases t) (auto simp: field_defs timeType_def column_laws [OF col])

lemma time_simps:
  "classifyScanKind scanner valuer timeType = (scanPtrTime, None)"
  "classifyScanKind scanner valuer (TPtr timeType) = (scanPtrTime, Some timeType)"
  "zero_value zeros timeType = VTime 0"
  "value_of (\<lambda>_. False) call_value marshal addr timeType (VTime i) =
     (if i = 0 then Inr DNil else Inr (DTime i))"
  by (simp_all add: timeType_def value_of_def)

lemma bytes_simps:
  "classifyScanKind scanner valuer bytesType = (scanDirect, None)"
  "value_of (\<lambda>_. False) call_value marshal addr bytesType VNil = Inr DNil"
  "value_of (\<lambda>_. False) call_value marshal addr bytesType (VBytes s) = Inr (DBytes s)"
  by (simp_all add: value_of_def) (simp add: bytesType_def)

lemma has_type_bytes: "has_type bytesType v \<longleftrightarrow> v = VNil \<or> (\<exists>s. v = VBytes s)"
  by (auto simp: bytesType_def split: gval.splits)

lemma has_type_time: "has_type timeType v \<longleftrightarrow> (\<exists>i. v = VTime i)"
  by (auto simp: timeType_def split: gval.splits)

lemma round_trip_time:
  assumes col: "faithful_column stored" and get: "value_of (\<lambda>_. False) call_value marshal addr timeType (VTime i) = Inr d"
  shows "ptr_apply narrow32 scanPtrTime None (VTime 0) (stored scanPtrTime d) = Inr (VTime i)"
    and "i \<noteq> 0 \<Longrightarrow> ptr_apply narrow32 scanPtrTime (Some e) z (stored scanPtrTime d) = Inr (VPtr (VTime i))"
  using get by (auto simp: time_simps ptr_apply_def column_laws [OF col] split: if_splits)

lemma json_apply_back:
  assumes "json_ok zeros marshal unmarshal t v" "marshal t v = Inr j"
    "is_struct t \<or> is_slice t \<or> is_map t"
  shows "json_apply zeros unmarshal name t (zero_value zeros t) j = Inr v"
  using assms by (cases t) (simp_all add: json_ok_def json_apply_def)

lemma json_apply_back_ptr:
  assumes "json_ok zeros marshal unmarshal t v" "marshal t v = Inr j"
  shows "json_apply zeros unmarshal name (TPtr t) VNil j = Inr (VPtr v)"
  using assms by (simp add: json_ok_def json_apply_def)

text \<open>What \<open>getValue\<close> makes of a composite that has no methods, once its pointers are gone.\<close>

lemma value_of_json:
  assumes "value_of (\<lambda>_. False) call_value marshal addr t v = Inr d"
    and "is_struct t \<or> is_slice t \<or> is_map t" "t \<noteq> timeType" "t \<noteq> bytesType" "is_struct t \<or> v \<noteq> VNil"
  obtains j where "d = DJson j" "marshal t v = Inr j"
  using assms by (auto simp: value_of_def split: if_splits sum.splits)

lemma round_trip_composite:
  assumes col: "faithful_column stored" and ty: "has_type t v" and pl: "plain_type scanner valuer t"
    and b: "is_struct t \<or> is_slice t \<or> is_map t"
    and js: "composite t \<Longrightarrow> json_ok zeros marshal unmarshal t v"
    and get: "getValue valuer call_value marshal True t v = Inr d"
  shows "scan_field scanner valuer zeros narrow32 unmarshal name t
    (stored (fst (classifyScanKind scanner valuer t)) d) = Inr v"
proof -
  have get': "value_of (\<lambda>_. False) call_value marshal True t v = Inr d"
  proof -
    have "getValue valuer call_value marshal True t v = value_of valuer call_value marshal True t v"
      using b by (cases t) simp_all
    with get value_of_plain [OF pl] show ?thesis by metis
  qed
  consider (time) "t = timeType" | (bytes) "t = bytesType" | (nil) "v = VNil" "\<not> is_struct t" "t \<noteq> bytesType"
    | (json) "t \<noteq> timeType" "t \<noteq> bytesType" "is_struct t \<or> v \<noteq> VNil" by blast
  then show ?thesis
  proof cases
    case time
    with ty obtain i where v: "v = VTime i" by (auto simp: has_type_time)
    show ?thesis using round_trip_time(1) [OF col] get'
      unfolding time v by (simp add: scan_field_def time_simps(1,3))
  next
    case bytes
    with ty have "v = VNil \<or> (\<exists>s. v = VBytes s)" by (simp add: has_type_bytes)
    then show ?thesis using get' unfolding bytes
      by (elim disjE exE) (auto simp: bytes_simps scan_field_def column_laws [OF col])
  next
    case nil
    then have "t \<noteq> timeType" by auto
    with nil b get' have "d = DNil" by (auto simp: value_of_def)
    with nil b show ?thesis
      by (cases t) (simp_all add: scan_field_def json_apply_def column_laws [OF col])
  next
    case json
    from value_of_json [OF get' b json] obtain j where "d = DJson j" "marshal t v = Inr j" .
    moreover have "classifyScanKind scanner valuer t = (scanJSON, None)"
      using b pl json(1,2) by (cases t) (simp_all add: plain_type_def)
    ultimately show ?thesis using json_apply_back [OF js _ b] b json(1,2)
      by (simp add: scan_field_def column_laws [OF col] composite_def)
  qed
qed

lemma round_trip_pointer:
  assumes col: "faithful_column stored" and ty: "has_type (TPtr e) v"
    and pl: "plain_type scanner valuer (TPtr e)" and ll: "lossless narrow32 (TPtr e) v"
    and js: "\<And>w. v = VPtr w \<Longrightarrow> composite e \<Longrightarrow> json_ok zeros marshal unmarshal e w"
    and get: "getValue valuer call_value marshal True (TPtr e) v = Inr d"
  shows "scan_field scanner valuer zeros narrow32 unmarshal name (TPtr e)
    (stored (fst (classifyScanKind scanner valuer (TPtr e))) d) = Inr v"
proof (cases "v = VNil")
  case True
  with get have "d = DNil" by simp
  with True pl show ?thesis
    by (cases e) (auto simp: scan_field_def ptr_apply_def json_apply_def timeType_def plain_type_def
        column_laws [OF col])
next
  case False
  with ty obtain w where v: "v = VPtr w" "has_type e w" by (auto split: gval.splits)
  have nv: "\<not> valuer (TPtr e)" "\<not> valuer e" "\<not> scanner e" "\<not> scanner (TPtr e)"
    using pl by (simp_all add: plain_type_def)
  show ?thesis
  proof (cases "is_struct e \<or> is_slice e \<or> is_map e")
    case False
    with ll v nv get show ?thesis
      by (cases e) (auto simp: field_defs timeType_def column_laws [OF col] signed_fits unsigned_fits
          split: gval.splits if_splits)
  next
    case comp: True
    have get': "value_of (\<lambda>_. False) call_value marshal True e w = Inr d"
      using get v comp nv by (cases e) (simp_all add: value_of_def)
    show ?thesis
    proof (cases "e = timeType")
      case True
      with v obtain i where i: "w = VTime i" by (auto simp: has_type_time)
      with ll v True have "i \<noteq> 0" by (auto simp: timeType_def)
      then show ?thesis using round_trip_time(2) [OF col] get'
        unfolding True v i by (simp add: scan_field_def time_simps(2))
    next
      case False
      have "e \<noteq> bytesType"
      proof
        assume "e = bytesType"
        with ll v(1) show False by (simp add: bytesType_def)
      qed
      moreover have "is_struct e \<or> w \<noteq> VNil"
      proof (cases e)
        case (TSlice n t)
        with ll v(1) show ?thesis by simp
      next
        case (TMap n k t)
        with ll v(1) show ?thesis by simp
      qed (use comp in simp_all)
      ultimately have nb: "e \<noteq> bytesType" "is_struct e \<or> w \<noteq> VNil" .
      with value_of_json [OF get' comp False] obtain j where "d = DJson j" "marshal e w = Inr j"
        by blast
      moreover have "classifyScanKind scanner valuer (TPtr e) = (scanJSON, None)"
        using comp nv False by auto
      ultimately show ?thesis using json_apply_back_ptr [OF js [OF v(1)]] v(1) comp False nb(1)
        by (simp add: scan_field_def column_laws [OF col] composite_def)
    qed
  qed
qed

lemma field_restored:
  assumes "faithful_column stored" "has_type t v" "plain_type scanner valuer t" "lossless narrow32 t v"
    and "composite (fst (json_part t v)) \<Longrightarrow>
      json_ok zeros marshal unmarshal (fst (json_part t v)) (snd (json_part t v))"
    and "getValue valuer call_value marshal True t v = Inr d"
  shows "scan_field scanner valuer zeros narrow32 unmarshal name t
    (stored (fst (classifyScanKind scanner valuer t)) d) = Inr v"
proof (cases "\<exists>e. t = TPtr e")
  case True
  then obtain e where t: "t = TPtr e" by blast
  show ?thesis using assms unfolding t
    by (intro round_trip_pointer) simp_all
next
  case False
  then have "json_part t v = (t, v)" by (cases t) simp_all
  with assms False show ?thesis
    by (cases "is_struct t \<or> is_slice t \<or> is_map t") (auto intro: round_trip_composite round_trip_basic)
qed

text \<open>
  A field value survives being stored and read back. If the type has no scanner or valuer
  methods, the column returns what was stored, JSON reads back the value of a composite it wrote, and the value is
  not one of the exceptions of \<open>lossless\<close>, then scanning what \<open>getValue\<close> sent, by the way
  \<open>classifyScanKind\<close> chose for the type, restores the value: through NULL for nil and the zero time,
  through a new pointer for pointer fields, through JSON for structs, slices and maps.
\<close>

theorem field_round_trip:
  assumes "faithful_column stored" "has_type t v" "plain_type scanner valuer t" "lossless narrow32 t v"
    and "composite (fst (json_part t v)) \<Longrightarrow>
      json_ok zeros marshal unmarshal (fst (json_part t v)) (snd (json_part t v))"
    and "getValue valuer call_value marshal True t v = Inr d"
  shows "scan_field scanner valuer zeros narrow32 unmarshal name t
    (stored (fst (classifyScanKind scanner valuer t)) d) = Inr v"
  using assms by (rule field_restored)

definition example_marshal :: "gtype \<Rightarrow> gval \<Rightarrow> string + string" where
  "example_marshal t v = (if v = VSlice [VInt 7] then Inr ''[7]'' else Inl ''unsupported'')"

definition example_unmarshal :: "gtype \<Rightarrow> gval \<Rightarrow> string \<Rightarrow> string + gval" where
  "example_unmarshal t v s = (if s = ''[7]'' then Inr (VSlice [VInt 7]) else Inl ''invalid'')"

theorem field_round_trip_witness:
  "scan_field (\<lambda>_. False) (\<lambda>_. False) (\<lambda>_. []) id example_unmarshal ''Tags'' (TPtr (TSlice '''' (TInt K ''int'')))
     (mirror_column scanJSON (DJson ''[7]'')) = Inr (VPtr (VSlice [VInt 7]))"
proof -
  let ?t = "TPtr (TSlice '''' (TInt K ''int''))" and ?v = "VPtr (VSlice [VInt 7])"
  have 1: "has_type ?t ?v" "plain_type (\<lambda>_. False) (\<lambda>_. False) ?t" "lossless id ?t ?v"
    by (simp_all add: plain_type_def bytesType_def)
  have 2: "json_ok (\<lambda>_. []) example_marshal example_unmarshal (fst (json_part ?t ?v)) (snd (json_part ?t ?v))"
    by (simp add: json_ok_def example_marshal_def example_unmarshal_def)
  have 3: "getValue (\<lambda>_. False) (\<lambda>_ _. Inl '''') example_marshal True ?t ?v = Inr (DJson ''[7]'')"
    by (simp add: value_of_def timeType_def bytesType_def example_marshal_def)
  from field_round_trip [OF faithful_mirror 1 2 3, of "''Tags''"] show ?thesis by simp
qed

section \<open>What does not survive\<close>

text \<open>
  The exceptions. A pointer to the zero time, and a pointer to a nil slice or map, are stored
  as NULL and come back as nil pointers.
\<close>

theorem pointers_to_nothing_are_lost:
  assumes "faithful_column stored" "plain_type scanner valuer (TPtr e)"
    and "(e, v) = (timeType, VTime 0) \<or> (is_slice e \<or> is_map e) \<and> v = VNil"
  shows "getValue valuer call_value marshal True (TPtr e) (VPtr v) = Inr DNil \<and>
    scan_field scanner valuer zeros narrow32 unmarshal name (TPtr e)
      (stored (fst (classifyScanKind scanner valuer (TPtr e))) DNil) = Inr VNil"
proof -
  have nv: "\<not> valuer (TPtr e)" "\<not> valuer e" "\<not> scanner e" "\<not> scanner (TPtr e)"
    using assms(2) by (simp_all add: plain_type_def)
  from assms(3) show ?thesis
  proof
    assume "(e, v) = (timeType, VTime 0)"
    then show ?thesis using nv
      by (simp add: timeType_def value_of_def scan_field_def ptr_apply_def column_laws [OF assms(1)])
  next
    assume "(is_slice e \<or> is_map e) \<and> v = VNil"
    then show ?thesis using nv
      by (cases e) (simp_all add: timeType_def value_of_def scan_field_def json_apply_def
          column_laws [OF assms(1)])
  qed
qed

theorem pointers_to_nothing_are_lost_witness:
  "getValue (\<lambda>_. False) (\<lambda>_ _. Inl '''') example_marshal True (TPtr timeType) (VPtr (VTime 0)) = Inr DNil \<and>
   scan_field (\<lambda>_. False) (\<lambda>_. False) (\<lambda>_. []) id example_unmarshal ''At'' (TPtr timeType)
     (mirror_column (fst (classifyScanKind (\<lambda>_. False) (\<lambda>_. False) (TPtr timeType))) DNil) = Inr VNil"
proof -
  have "plain_type (\<lambda>_. False) (\<lambda>_. False) (TPtr timeType)" by (simp add: plain_type_def)
  from pointers_to_nothing_are_lost [OF faithful_mirror this] show ?thesis by blast
qed

text \<open>
  A pointer to a narrow integer takes the low bits of the column without an error: a column of
  any \<open>int64\<close> value read into a \<open>*intN\<close> field gives the value modulo \<open>2 ^ N\<close>, so it is the
  column's value exactly when that fits.
\<close>

theorem narrow_integers_wrap:
  "\<exists>r. scan_field scanner valuer zeros narrow32 unmarshal name (TPtr (TInt k n)) (CInt i) = Inr (VPtr (VInt r)) \<and>
    - (2 ^ (width k - 1)) \<le> r \<and> r < 2 ^ (width k - 1) \<and> r mod 2 ^ width k = i mod 2 ^ width k \<and>
    (r = i \<longleftrightarrow> - (2 ^ (width k - 1)) \<le> i \<and> i < 2 ^ (width k - 1))"
proof (intro exI conjI)
  let ?r = "signed_take_bit (width k - 1) i"
  show "scan_field scanner valuer zeros narrow32 unmarshal name (TPtr (TInt k n)) (CInt i) = Inr (VPtr (VInt ?r))"
    by (simp add: scan_field_def ptr_apply_def)
  show r: "- (2 ^ (width k - 1)) \<le> ?r" "?r < 2 ^ (width k - 1)"
    by (simp_all add: signed_take_bit_int_greater_eq_minus_exp signed_take_bit_int_less_exp)
  have "take_bit (width k) ?r = take_bit (width k) i"
    by (cases k) (simp_all add: take_bit_signed_take_bit)
  then show "?r mod 2 ^ width k = i mod 2 ^ width k" by (simp add: take_bit_eq_mod)
  show "?r = i \<longleftrightarrow> - (2 ^ (width k - 1)) \<le> i \<and> i < 2 ^ (width k - 1)"
    using r signed_fits by metis
qed

end
