(* ===== verification/Pg_Table.thy ===== *)
theory Pg_Table
  imports Sql_Props Pg_Value_Props Resource_Manager
begin

text \<open>
  \<open>pgsql/table.go\<close>: the description of an entity type (\<open>GetTable\<close> and its cache), the columns and
  arguments of an insert, and the reading of rows (\<open>prepareScan\<close>, \<open>finalizeScan\<close>, \<open>scanRows\<close>). An
  entity is the list of the values of its struct's fields. \<open>scanner\<close>, \<open>valuer\<close>, \<open>call_value\<close>,
  \<open>marshal\<close>, \<open>unmarshal\<close>, \<open>zeros\<close> and \<open>narrow32\<close> are the parameters of Pg\_Value.
\<close>

section \<open>Entity types and tables\<close>

record sfield =
  sf_name :: string
  sf_exported :: bool
  sf_db :: string
  sf_type :: gtype

record stype =
  pkgPath :: string
  typeName :: string
  sfields :: "sfield list"

record fieldMeta =
  fm_name :: string
  DBName :: string
  Index :: nat
  IsPrimaryKey :: bool
  GoType :: gtype
  ScanKind :: fieldScanKind
  ElemType :: "gtype option"

record table =
  t_name :: string
  pkField :: fieldMeta
  t_fields :: "fieldMeta list"
  insertFields :: "fieldMeta list"
  selectOneSQL :: string

definition field_meta :: "(gtype \<Rightarrow> bool) \<Rightarrow> (gtype \<Rightarrow> bool) \<Rightarrow> nat \<Rightarrow> sfield \<Rightarrow> fieldMeta" where
  "field_meta scanner valuer i f =
     (let dbName = (if sf_db f = '''' then sf_name f else sf_db f);
          (scanKind, elemType) = classifyScanKind scanner valuer (sf_type f)
      in \<lparr>fm_name = sf_name f, DBName = dbName, Index = i, IsPrimaryKey = (dbName = ''id''),
          GoType = sf_type f, ScanKind = scanKind, ElemType = elemType\<rparr>)"

text \<open>The loop over the struct's fields, with the three variables it fills.\<close>

fun table_loop ::
  "(gtype \<Rightarrow> bool) \<Rightarrow> (gtype \<Rightarrow> bool) \<Rightarrow> nat \<Rightarrow> sfield list \<Rightarrow>
   fieldMeta list \<times> fieldMeta list \<times> fieldMeta option \<Rightarrow>
   string + fieldMeta list \<times> fieldMeta list \<times> fieldMeta option" where
  "table_loop scanner valuer i [] acc = Inr acc"
| "table_loop scanner valuer i (f # fs) (flds, ins, pk) =
     (if \<not> sf_exported f then table_loop scanner valuer (i + 1) fs (flds, ins, pk)
      else if sf_db f = ''-'' then table_loop scanner valuer (i + 1) fs (flds, ins, pk)
      else
        (let meta = field_meta scanner valuer i f in
         if IsPrimaryKey meta then
           if \<not> (case sf_type f of TInt K64 n \<Rightarrow> True | _ \<Rightarrow> False) then Inl ''db id must be int64''
           else table_loop scanner valuer (i + 1) fs (flds @ [meta], ins, Some meta)
         else table_loop scanner valuer (i + 1) fs (flds @ [meta], ins @ [meta], pk)))"

definition build_table :: "(gtype \<Rightarrow> bool) \<Rightarrow> (gtype \<Rightarrow> bool) \<Rightarrow> stype \<Rightarrow> string \<Rightarrow> string + table" where
  "build_table scanner valuer T tableName =
     (case table_loop scanner valuer 0 (sfields T) ([], [], None) of
        Inl e \<Rightarrow> Inl e
      | Inr (flds, ins, None) \<Rightarrow> Inl (''table '' @ typeName T @ '' must have an id field'')
      | Inr (flds, ins, Some pk) \<Rightarrow>
          Inr \<lparr>t_name = tableName, pkField = pk, t_fields = flds, insertFields = ins,
            selectOneSQL = ''SELECT '' @ join '', '' (map DBName flds) @ '' FROM \"'' @ tableName @
              ''\" WHERE id = $1''\<rparr>)"

text \<open>
  The cache holds a table with the type it was built for; the type assertion at the end panics when
  it is another one. \<open>None\<close> stands for a type parameter that is not a struct.
\<close>

type_synonym table_store = "string \<rightharpoonup> ((string \<times> string) \<times> table) option"

definition table_key :: "stype \<Rightarrow> string \<Rightarrow> string" where
  "table_key T tableName = pkgPath T @ ''.'' @ typeName T @ tableName"

definition GetTable ::
  "(gtype \<Rightarrow> bool) \<Rightarrow> (gtype \<Rightarrow> bool) \<Rightarrow> stype option \<Rightarrow> string \<Rightarrow> table_store \<Rightarrow> table outcome \<times> table_store"
  where
  "GetTable scanner valuer To tableName store =
     (case To of
        None \<Rightarrow> (Panic ''T must be a struct'', store)
      | Some T \<Rightarrow>
          (let create = (case build_table scanner valuer T tableName of
                           Inl e \<Rightarrow> (None, Some e)
                         | Inr t \<Rightarrow> (Some ((pkgPath T, typeName T), t), None));
               ((tableObj, failed), store') = get_resource (table_key T tableName) create store
           in (case failed of
                 Some e \<Rightarrow> (Panic e, store')
               | None \<Rightarrow>
                   (case tableObj of
                      Some (ty, t) \<Rightarrow>
                        if ty = (pkgPath T, typeName T) then (Return t, store')
                        else (Panic ''interface conversion'', store')
                    | None \<Rightarrow> (Panic ''interface conversion'', store')))))"

section \<open>Columns and arguments\<close>

definition columnSQL :: "fieldMeta list \<Rightarrow> string" where
  "columnSQL fs = join '', '' (map DBName fs)"

definition allColumnSQL :: "table \<Rightarrow> string" where
  "allColumnSQL t = join '', '' (map DBName (t_fields t))"

definition insertColumnSQL :: "table \<Rightarrow> string" where
  "insertColumnSQL t = join '', '' (map DBName (insertFields t))"

text \<open>\<open>reflect.Value.IsZero\<close> of an integer field.\<close>

definition hasExplicitPK :: "table \<Rightarrow> gval list \<Rightarrow> bool" where
  "hasExplicitPK t entity \<longleftrightarrow> entity ! Index (pkField t) \<noteq> VInt 0"

definition insertColumns :: "table \<Rightarrow> bool \<Rightarrow> fieldMeta list" where
  "insertColumns t includePK = (if \<not> includePK then insertFields t else pkField t # insertFields t)"

fun extractArgsByFields ::
  "(gtype \<Rightarrow> bool) \<Rightarrow> (gtype \<Rightarrow> gval \<Rightarrow> string + dbval) \<Rightarrow> (gtype \<Rightarrow> gval \<Rightarrow> string + string) \<Rightarrow>
   gval list \<Rightarrow> fieldMeta list \<Rightarrow> string + dbval list" where
  "extractArgsByFields valuer call_value marshal entity [] = Inr []"
| "extractArgsByFields valuer call_value marshal entity (f # fs) =
     (case getValue valuer call_value marshal True (GoType f) (entity ! Index f) of
        Inl e \<Rightarrow> Inl e
      | Inr v \<Rightarrow> map_sum id ((#) v) (extractArgsByFields valuer call_value marshal entity fs))"

section \<open>Reading a row\<close>

text \<open>
  The target \<open>prepareScan\<close> makes for a field: a JSON buffer, one of the \<open>sql.Null\<close> types with the
  slot that is applied afterwards, or the field itself.
\<close>

datatype target = JsonBuffer | Slot fieldScanKind "gtype option" | FieldItself

definition scan_target :: "fieldMeta \<Rightarrow> target" where
  "scan_target f =
     (case ScanKind f of
        scanJSON \<Rightarrow> JsonBuffer
      | scanDirect \<Rightarrow> FieldItself
      | kind \<Rightarrow> Slot kind (ElemType f))"

text \<open>
  \<open>rows.Scan\<close> writes the fields that are their own targets; the other targets hold the cells.
\<close>

fun scan_direct :: "(fieldMeta \<times> cell) list \<Rightarrow> gval list \<Rightarrow> gval list" where
  "scan_direct [] entity = entity"
| "scan_direct ((f, c) # fcs) entity =
     scan_direct fcs (case (scan_target f, c) of
        (FieldItself, CDirect v) \<Rightarrow> entity[Index f := v]
      | _ \<Rightarrow> entity)"

text \<open>The first loop of \<open>finalizeScan\<close>, over the slots.\<close>

fun apply_slots ::
  "(string \<Rightarrow> gval list) \<Rightarrow> (64 word \<Rightarrow> 64 word) \<Rightarrow> (fieldMeta \<times> cell) list \<Rightarrow> gval list \<Rightarrow>
   string + gval list" where
  "apply_slots zeros narrow32 [] entity = Inr entity"
| "apply_slots zeros narrow32 ((f, c) # fcs) entity =
     (case scan_target f of
        Slot kind elem \<Rightarrow>
          (case ptr_apply narrow32 kind elem (zero_value zeros (GoType f)) c of
             Inl e \<Rightarrow> Inl e
           | Inr v \<Rightarrow> apply_slots zeros narrow32 fcs (entity[Index f := v]))
      | _ \<Rightarrow> apply_slots zeros narrow32 fcs entity)"

text \<open>The second one, over the JSON buffers, which are empty for all other fields and for NULL.\<close>

fun apply_json ::
  "(string \<Rightarrow> gval list) \<Rightarrow> (gtype \<Rightarrow> gval \<Rightarrow> string \<Rightarrow> string + gval) \<Rightarrow> (fieldMeta \<times> cell) list \<Rightarrow>
   gval list \<Rightarrow> string + gval list" where
  "apply_json zeros unmarshal [] entity = Inr entity"
| "apply_json zeros unmarshal ((f, c) # fcs) entity =
     (let buf = (case (scan_target f, c) of (JsonBuffer, CJson j) \<Rightarrow> j | _ \<Rightarrow> '''') in
      if buf = '''' then apply_json zeros unmarshal fcs entity
      else
        (case json_apply zeros unmarshal (fm_name f) (GoType f) (entity ! Index f) buf of
           Inl e \<Rightarrow> Inl e
         | Inr v \<Rightarrow> apply_json zeros unmarshal fcs (entity[Index f := v])))"

definition zero_entity :: "(string \<Rightarrow> gval list) \<Rightarrow> stype \<Rightarrow> gval list" where
  "zero_entity zeros T = map (zero_value zeros \<circ> sf_type) (sfields T)"

text \<open>
  One row: \<open>var entity T\<close>, \<open>prepareScan\<close>, the scan, whose error is \<open>Inl\<close>, and \<open>finalizeScan\<close>.
\<close>

definition scan_entity ::
  "(string \<Rightarrow> gval list) \<Rightarrow> (64 word \<Rightarrow> 64 word) \<Rightarrow> (gtype \<Rightarrow> gval \<Rightarrow> string \<Rightarrow> string + gval) \<Rightarrow>
   stype \<Rightarrow> table \<Rightarrow> string + cell list \<Rightarrow> string + gval list" where
  "scan_entity zeros narrow32 unmarshal T t row =
     (case row of
        Inl e \<Rightarrow> Inl e
      | Inr cells \<Rightarrow>
          (let fcs = zip (t_fields t) cells in
           case apply_slots zeros narrow32 fcs (scan_direct fcs (zero_entity zeros T)) of
             Inl e \<Rightarrow> Inl e
           | Inr entity \<Rightarrow> apply_json zeros unmarshal fcs entity))"

text \<open>\<open>scanRows\<close>: the rows up to the end or the first error, and \<open>rows.Err()\<close>.\<close>

fun scanRows ::
  "(string \<Rightarrow> gval list) \<Rightarrow> (64 word \<Rightarrow> 64 word) \<Rightarrow> (gtype \<Rightarrow> gval \<Rightarrow> string \<Rightarrow> string + gval) \<Rightarrow>
   stype \<Rightarrow> table \<Rightarrow> (string + cell list) list \<Rightarrow> string option \<Rightarrow> string + gval list list" where
  "scanRows zeros narrow32 unmarshal T t [] rowsErr =
     (case rowsErr of None \<Rightarrow> Inr [] | Some e \<Rightarrow> Inl (''scanRows iteration error: '' @ e))"
| "scanRows zeros narrow32 unmarshal T t (row # rows) rowsErr =
     (case row of
        Inl e \<Rightarrow> Inl (''scanRows scan error: '' @ e)
      | Inr cells \<Rightarrow>
          (case scan_entity zeros narrow32 unmarshal T t (Inr cells) of
             Inl e \<Rightarrow> Inl e
           | Inr entity \<Rightarrow>
               map_sum id ((#) entity) (scanRows zeros narrow32 unmarshal T t rows rowsErr)))"

end
