(* ===== verification/Pg_Table_Props.thy ===== *)
theory Pg_Table_Props
  imports Pg_Table
begin

text \<open>
  \<open>GetTable\<close> describes its type, its cache returns the description of the type that asks, and an
  entity that is inserted and read back is the same entity in all mapped fields.
\<close>

section \<open>The description of a type\<close>

definition mapped :: "sfield \<Rightarrow> bool" where
  "mapped f \<longleftrightarrow> sf_exported f \<and> sf_db f \<noteq> ''-''"

definition metas :: "(gtype \<Rightarrow> bool) \<Rightarrow> (gtype \<Rightarrow> bool) \<Rightarrow> nat \<Rightarrow> sfield list \<Rightarrow> fieldMeta list" where
  "metas scanner valuer i fs =
     map (\<lambda>(i, f). field_meta scanner valuer i f) (filter (mapped \<circ> snd) (enumerate i fs))"

lemma metas_simps [simp]:
  "metas scanner valuer i [] = []"
  "metas scanner valuer i (f # fs) =
     (if mapped f then [field_meta scanner valuer i f] else []) @ metas scanner valuer (i + 1) fs"
  by (simp_all add: metas_def)

lemma field_meta_simps [simp]:
  "Index (field_meta scanner valuer i f) = i"
  "GoType (field_meta scanner valuer i f) = sf_type f"
  "fm_name (field_meta scanner valuer i f) = sf_name f"
  "DBName (field_meta scanner valuer i f) = (if sf_db f = '''' then sf_name f else sf_db f)"
  "IsPrimaryKey (field_meta scanner valuer i f) \<longleftrightarrow> DBName (field_meta scanner valuer i f) = ''id''"
  "ScanKind (field_meta scanner valuer i f) = fst (classifyScanKind scanner valuer (sf_type f))"
  "ElemType (field_meta scanner valuer i f) = snd (classifyScanKind scanner valuer (sf_type f))"
  by (simp_all add: field_meta_def case_prod_beta Let_def)

fun last_pk :: "fieldMeta option \<Rightarrow> fieldMeta list \<Rightarrow> fieldMeta option" where
  "last_pk pk [] = pk"
| "last_pk pk (m # ms) = last_pk (if IsPrimaryKey m then Some m else pk) ms"

lemma last_pk_cases: "last_pk pk ms = Some m \<Longrightarrow> pk = Some m \<or> m \<in> set ms \<and> IsPrimaryKey m"
  by (induction ms arbitrary: pk) (auto split: if_splits)

lemma table_loop_skip:
  "\<not> mapped f \<Longrightarrow> table_loop scanner valuer i (f # fs) acc = table_loop scanner valuer (i + 1) fs acc"
  by (cases acc) (auto simp: mapped_def)

lemma table_loop_take:
  assumes "mapped f" "m = field_meta scanner valuer i f"
  shows "table_loop scanner valuer i (f # fs) (flds, ins, pk) =
    (if IsPrimaryKey m then
       if \<exists>n. GoType m = TInt K64 n then table_loop scanner valuer (i + 1) fs (flds @ [m], ins, Some m)
       else Inl ''db id must be int64''
     else table_loop scanner valuer (i + 1) fs (flds @ [m], ins @ [m], pk))"
proof -
  have "(case sf_type f of TInt K64 n \<Rightarrow> True | _ \<Rightarrow> False) \<longleftrightarrow> (\<exists>n. GoType m = TInt K64 n)"
    by (auto simp: assms(2) split: gtype.splits int_kind.splits)
  then show ?thesis using assms by (simp add: mapped_def Let_def del: field_meta_simps)
qed

declare table_loop.simps(2) [simp del]

lemma table_loop_result:
  "table_loop scanner valuer i fs (flds, ins, pk) = Inr (flds', ins', pk') \<Longrightarrow>
   flds' = flds @ metas scanner valuer i fs \<and>
   ins' = ins @ filter (\<lambda>m. \<not> IsPrimaryKey m) (metas scanner valuer i fs) \<and>
   pk' = last_pk pk (metas scanner valuer i fs) \<and>
   (\<forall>m \<in> set (metas scanner valuer i fs). IsPrimaryKey m \<longrightarrow> (\<exists>n. GoType m = TInt K64 n))"
proof (induction fs arbitrary: i flds ins pk)
  case (Cons f fs)
  show ?case
  proof (cases "mapped f")
    case True
    define m where "m = field_meta scanner valuer i f"
    note take = table_loop_take [OF True m_def, of fs flds ins pk]
    show ?thesis
    proof (cases "IsPrimaryKey m")
      case pk: True
      with Cons.prems take have n: "\<exists>n. GoType m = TInt K64 n"
        and "table_loop scanner valuer (i + 1) fs (flds @ [m], ins, Some m) = Inr (flds', ins', pk')"
        by (auto split: if_splits)
      from Cons.IH [OF this(2)] n pk True show ?thesis by (simp flip: m_def del: field_meta_simps)
    next
      case npk: False
      with Cons.prems take have
        "table_loop scanner valuer (i + 1) fs (flds @ [m], ins @ [m], pk) = Inr (flds', ins', pk')" by simp
      from Cons.IH [OF this] npk True show ?thesis by (simp flip: m_def del: field_meta_simps)
    qed
  next
    case False
    with Cons show ?thesis by (simp add: table_loop_skip)
  qed
qed simp

lemma table_loop_error:
  "table_loop scanner valuer i fs acc = Inl e \<Longrightarrow>
   \<exists>m \<in> set (metas scanner valuer i fs). DBName m = ''id'' \<and> (\<forall>n. GoType m \<noteq> TInt K64 n)"
proof (induction fs arbitrary: i acc)
  case (Cons f fs)
  obtain flds ins pk where acc: "acc = (flds, ins, pk)" by (cases acc)
  show ?case
  proof (cases "mapped f")
    case True
    define m where "m = field_meta scanner valuer i f"
    have pk: "IsPrimaryKey m \<longleftrightarrow> DBName m = ''id''" unfolding m_def by (rule field_meta_simps(5))
    note take = table_loop_take [OF True m_def, of fs flds ins pk]
    show ?thesis
    proof (cases "DBName m = ''id'' \<and> (\<forall>n. GoType m \<noteq> TInt K64 n)")
      case bad: True
      show ?thesis using bad True
        by (intro bexI [of _ m]) (simp_all flip: m_def del: field_meta_simps)
    next
      case False
      have "\<exists>acc'. table_loop scanner valuer (i + 1) fs acc' = Inl e"
      proof (cases "IsPrimaryKey m")
        case True
        with False pk have "\<exists>n. GoType m = TInt K64 n" by blast
        with True Cons.prems take acc show ?thesis by auto
      next
        case np: False
        with Cons.prems take acc show ?thesis by auto
      qed
      then obtain acc' where "table_loop scanner valuer (i + 1) fs acc' = Inl e" ..
      from Cons.IH [OF this] obtain m' where "m' \<in> set (metas scanner valuer (i + 1) fs)"
        "DBName m' = ''id'' \<and> (\<forall>n. GoType m' \<noteq> TInt K64 n)" by (elim bexE)
      then show ?thesis by (intro bexI [of _ m']) (simp_all del: field_meta_simps)
    qed
  next
    case False
    with Cons show ?thesis by (simp add: table_loop_skip)
  qed
qed simp

lemma last_pk_None: "last_pk pk ms = None \<Longrightarrow> pk = None \<and> (\<forall>m \<in> set ms. \<not> IsPrimaryKey m)"
proof (induction ms arbitrary: pk)
  case (Cons m ms)
  from Cons.IH [OF Cons.prems [unfolded last_pk.simps]] show ?case by (auto split: if_splits)
qed simp

lemma index_metas:
  "map Index (metas scanner valuer i fs) = map fst (filter (mapped \<circ> snd) (enumerate i fs))"
  by (simp add: metas_def case_prod_beta comp_def)

lemma distinct_metas: "distinct (map Index (metas scanner valuer i fs))"
  unfolding index_metas by (intro distinct_map_filter) simp

lemma metas_nth:
  assumes "m \<in> set (metas scanner valuer 0 fs)"
  shows "Index m < length fs \<and> mapped (fs ! Index m) \<and> m = field_meta scanner valuer (Index m) (fs ! Index m)"
  using assms by (auto simp: metas_def in_set_enumerate_eq)

lemma table_description:
  "(case build_table scanner valuer T name of
      Inr t \<Rightarrow>
        t_name t = name \<and> t_fields t = metas scanner valuer 0 (sfields T) \<and>
        insertFields t = filter (\<lambda>m. DBName m \<noteq> ''id'') (t_fields t) \<and>
        pkField t \<in> set (t_fields t) \<and> DBName (pkField t) = ''id'' \<and>
        (\<forall>m \<in> set (t_fields t). DBName m = ''id'' \<longrightarrow> (\<exists>n. GoType m = TInt K64 n)) \<and>
        distinct (map Index (t_fields t)) \<and>
        (\<forall>m \<in> set (t_fields t). Index m < length (sfields T) \<and> GoType m = sf_type (sfields T ! Index m))
    | Inl e \<Rightarrow>
        (\<exists>m \<in> set (metas scanner valuer 0 (sfields T)). DBName m = ''id'' \<and> (\<forall>n. GoType m \<noteq> TInt K64 n)) \<or>
        (\<forall>m \<in> set (metas scanner valuer 0 (sfields T)). DBName m \<noteq> ''id''))"
proof (cases "table_loop scanner valuer 0 (sfields T) ([], [], None)")
  case (Inl e)
  with table_loop_error [OF Inl] show ?thesis by (auto simp: build_table_def)
next
  case (Inr r)
  obtain flds ins pk where r: "r = (flds, ins, pk)" by (cases r)
  from table_loop_result [OF Inr [unfolded r]]
  have loop: "flds = metas scanner valuer 0 (sfields T)"
    "ins = filter (\<lambda>m. \<not> IsPrimaryKey m) flds" "pk = last_pk None flds"
    "\<forall>m \<in> set flds. IsPrimaryKey m \<longrightarrow> (\<exists>n. GoType m = TInt K64 n)" by simp_all
  have pk_iff: "IsPrimaryKey m \<longleftrightarrow> DBName m = ''id''" if "m \<in> set flds" for m
    using that metas_nth [of m scanner valuer "sfields T"] loop(1) by (metis field_meta_simps(5))
  show ?thesis
  proof (cases pk)
    case None
    then have "\<forall>m \<in> set flds. \<not> IsPrimaryKey m"
      using loop(3) last_pk_None [of None flds] by simp
    with None Inr r pk_iff loop(1) show ?thesis by (simp add: build_table_def)
  next
    case (Some m)
    with loop(3) have "m \<in> set flds" "IsPrimaryKey m" by (auto dest!: sym [of "Some m"] last_pk_cases)
    moreover have "ins = filter (\<lambda>m. DBName m \<noteq> ''id'') flds"
      unfolding loop(2) by (intro filter_cong refl) (simp add: pk_iff)
    ultimately show ?thesis
      using Some Inr r pk_iff loop(1,4) distinct_metas [of scanner valuer 0 "sfields T"]
        metas_nth [of _ scanner valuer "sfields T"]
      by (auto simp: build_table_def) (metis field_meta_simps(2))+
  qed
qed

text \<open>
  C33: the table of an entity type. Its fields are the exported fields of the struct that are not
  tagged away, in order, each with its position, its column name and the scan kind of its type; the
  insert fields are those but the primary key; the key is a mapped \<open>int64\<close> field with the column
  \<open>id\<close>; and building fails exactly when a field with that column has another type or there is no
  such field.
\<close>

theorem table_describes_type:
  "(case build_table scanner valuer T name of
      Inr t \<Rightarrow>
        t_name t = name \<and> t_fields t = metas scanner valuer 0 (sfields T) \<and>
        insertFields t = filter (\<lambda>m. DBName m \<noteq> ''id'') (t_fields t) \<and>
        pkField t \<in> set (t_fields t) \<and> DBName (pkField t) = ''id'' \<and>
        (\<forall>m \<in> set (t_fields t). DBName m = ''id'' \<longrightarrow> (\<exists>n. GoType m = TInt K64 n)) \<and>
        distinct (map Index (t_fields t)) \<and>
        (\<forall>m \<in> set (t_fields t). Index m < length (sfields T) \<and> GoType m = sf_type (sfields T ! Index m))
    | Inl e \<Rightarrow>
        (\<exists>m \<in> set (metas scanner valuer 0 (sfields T)). DBName m = ''id'' \<and> (\<forall>n. GoType m \<noteq> TInt K64 n)) \<or>
        (\<forall>m \<in> set (metas scanner valuer 0 (sfields T)). DBName m \<noteq> ''id''))"
  by (rule table_description)

text \<open>An entity type for the examples: a key, a plain column, a JSON column and a field left out.\<close>

definition user_type :: stype where
  "user_type = \<lparr>pkgPath = ''demo'', typeName = ''User'', sfields = [
     \<lparr>sf_name = ''ID'', sf_exported = True, sf_db = ''id'', sf_type = TInt K64 ''int64''\<rparr>,
     \<lparr>sf_name = ''cache'', sf_exported = False, sf_db = '''', sf_type = TOther ''chan''\<rparr>,
     \<lparr>sf_name = ''Name'', sf_exported = True, sf_db = '''', sf_type = TString ''string''\<rparr>,
     \<lparr>sf_name = ''Age'', sf_exported = True, sf_db = ''age'', sf_type = TPtr (TInt K8 ''int8'')\<rparr>,
     \<lparr>sf_name = ''Tags'', sf_exported = True, sf_db = ''tags'', sf_type = TSlice '''' (TInt K ''int'')\<rparr>]\<rparr>"

abbreviation no_methods :: "gtype \<Rightarrow> bool" where
  "no_methods \<equiv> \<lambda>_. False"

definition user_table :: table where
  "user_table = (case build_table no_methods no_methods user_type ''users'' of Inr t \<Rightarrow> t)"

lemma user_table: "build_table no_methods no_methods user_type ''users'' = Inr user_table"
  by (simp add: user_table_def build_table_def user_type_def table_loop.simps Let_def)

theorem table_describes_type_witness:
  "t_name user_table = ''users'' \<and> map DBName (insertFields user_table) = [''Name'', ''age'', ''tags''] \<and>
   DBName (pkField user_table) = ''id''"
proof -
  from table_describes_type [of no_methods no_methods user_type "''users''"]
  have "t_name user_table = ''users''" "DBName (pkField user_table) = ''id''"
    "insertFields user_table = filter (\<lambda>m. DBName m \<noteq> ''id'') (metas no_methods no_methods 0 (sfields user_type))"
    by (simp_all add: user_table)
  then show ?thesis by (simp add: user_type_def mapped_def)
qed

section \<open>The cache\<close>

text \<open>Every stored object is the table of a type of the program under the key of that type.\<close>

definition store_ok ::
  "(gtype \<Rightarrow> bool) \<Rightarrow> (gtype \<Rightarrow> bool) \<Rightarrow> stype set \<Rightarrow> table_store \<Rightarrow> bool" where
  "store_ok scanner valuer prog store \<longleftrightarrow>
     (\<forall>key x. store key = Some x \<longrightarrow>
        (\<exists>T name t. T \<in> prog \<and> key = table_key T name \<and> build_table scanner valuer T name = Inr t \<and>
           x = Some ((pkgPath T, typeName T), t)))"

lemma table_key_same: "table_key T n = table_key T n' \<longleftrightarrow> n = n'"
  by (simp add: table_key_def)

text \<open>
  C32: the cache is transparent. If the types of the program are told apart by package and name,
  \<open>GetTable\<close> returns the table its own type describes, cached or not, and keeps the cache so; it
  panics when the type cannot be described, or when an object built for another type sits under the
  same key.
\<close>

theorem get_table_transparent:
  assumes "store_ok scanner valuer prog store" "T \<in> prog"
    and "\<And>T'. T' \<in> prog \<Longrightarrow> pkgPath T' = pkgPath T \<Longrightarrow> typeName T' = typeName T \<Longrightarrow> T' = T"
    and "GetTable scanner valuer (Some T) name store = (r, store')"
  shows "store_ok scanner valuer prog store' \<and>
    (case r of
       Return t \<Rightarrow> build_table scanner valuer T name = Inr t
     | Panic m \<Rightarrow> build_table scanner valuer T name = Inl m \<or>
         (\<exists>T' \<in> prog. T' \<noteq> T \<and> (\<exists>name'. table_key T' name' = table_key T name)))"
proof -
  let ?P = "\<lambda>key x. \<exists>T name t. T \<in> prog \<and> key = table_key T name \<and>
    build_table scanner valuer T name = Inr t \<and> x = Some ((pkgPath T, typeName T), t)"
  let ?create = "case build_table scanner valuer T name of
      Inl e \<Rightarrow> (None, Some e) | Inr t \<Rightarrow> (Some ((pkgPath T, typeName T), t), None)"
  obtain x e where g: "get_resource (table_key T name) ?create store = ((x, e), store')"
    using assms(4) by (auto simp: GetTable_def Let_def split: prod.splits option.splits if_splits)
  have inv: "(e = None \<longrightarrow> ?P (table_key T name) x) \<and> (\<forall>k v. store' k = Some v \<longrightarrow> ?P k v)"
  proof (rule rc.get_invariant [OF _ _ g])
    show "store k = Some v \<Longrightarrow> ?P k v" for k v using assms(1) unfolding store_ok_def by blast
    show "snd ?create = None \<Longrightarrow> ?P (table_key T name) (fst ?create)"
      using assms(2) by (cases "build_table scanner valuer T name") auto
  qed
  then have ok: "store_ok scanner valuer prog store'" unfolding store_ok_def by blast
  show ?thesis
  proof (cases e)
    case (Some m)
    with rc.get_error_keeps [of "table_key T name" ?create store x m store'] g
    have "?create = (x, Some m)" by simp
    then have "build_table scanner valuer T name = Inl m"
      by (cases "build_table scanner valuer T name") auto
    moreover have "r = Panic m" using assms(4) g Some by (simp add: GetTable_def)
    ultimately show ?thesis using ok by simp
  next
    case None
    with inv obtain T' name' t where T': "T' \<in> prog" "table_key T name = table_key T' name'"
      "build_table scanner valuer T' name' = Inr t" "x = Some ((pkgPath T', typeName T'), t)" by blast
    show ?thesis
    proof (cases "T' = T")
      case True
      with T' have "name' = name" by (simp add: table_key_same)
      with True T' assms(4) g None ok show ?thesis by (auto simp: GetTable_def)
    next
      case False
      with assms(3) [OF T'(1)] have "(pkgPath T', typeName T') \<noteq> (pkgPath T, typeName T)" by auto
      with assms(4) g None T'(4) have "r = Panic ''interface conversion''"
        by (auto simp: GetTable_def)
      with ok False T'(1,2) show ?thesis by (auto intro!: bexI [of _ T'])
    qed
  qed
qed

theorem get_table_transparent_witness:
  "store_ok no_methods no_methods {user_type}
     (snd (GetTable no_methods no_methods (Some user_type) ''users'' Map.empty)) \<and>
   fst (GetTable no_methods no_methods (Some user_type) ''users'' Map.empty) = Return user_table"
proof -
  let ?g = "GetTable no_methods no_methods (Some user_type) ''users'' Map.empty"
  have 1: "store_ok no_methods no_methods {user_type} Map.empty" by (simp add: store_ok_def)
  have 2: "?g = (fst ?g, snd ?g)" by simp
  have 3: "fst ?g = Return user_table"
    by (simp add: GetTable_def user_table get_resource_def)
  from get_table_transparent [OF 1 _ _ 2] 3 show ?thesis by simp
qed

text \<open>
  The key of the cache runs the type's name and the table's name together, so two types of one
  package whose names differ by a suffix can collide: the second \<open>GetTable\<close> panics although its
  type could be described.
\<close>

theorem table_key_collision:
  assumes "build_table scanner valuer T (suffix @ name) = Inr t"
    and "T' = T\<lparr>typeName := typeName T @ suffix\<rparr>" "suffix \<noteq> []"
    and "GetTable scanner valuer (Some T) (suffix @ name) Map.empty = (r, store)"
  shows "r = Return t \<and> GetTable scanner valuer (Some T') name store = (Panic ''interface conversion'', store)"
proof -
  have key: "table_key T' name = table_key T (suffix @ name)" by (simp add: table_key_def assms(2))
  have r: "r = Return t" and st: "store (table_key T (suffix @ name)) = Some (Some ((pkgPath T, typeName T), t))"
    using assms(1,4) by (auto simp: GetTable_def get_resource_def)
  have hit: "get_resource (table_key T' name) create store = ((Some ((pkgPath T, typeName T), t), None), store)"
    for create by (rule rc.get_hit) (simp add: key st)
  have "typeName T \<noteq> typeName T'" using assms(2,3) by simp
  with r show ?thesis by (simp add: GetTable_def hit)
qed

theorem table_key_collision_witness:
  "fst (GetTable no_methods no_methods (Some (user_type\<lparr>typeName := ''Users''\<rparr>)) ''x''
     (snd (GetTable no_methods no_methods (Some user_type) ''sx'' Map.empty))) = Panic ''interface conversion''"
proof -
  let ?g = "GetTable no_methods no_methods (Some user_type) (''s'' @ ''x'') Map.empty"
  have 1: "build_table no_methods no_methods user_type (''s'' @ ''x'') =
      Inr (user_table\<lparr>t_name := ''sx'', selectOneSQL := ''SELECT id, Name, age, tags FROM \"sx\" WHERE id = $1''\<rparr>)"
    by (simp add: user_table_def build_table_def user_type_def table_loop.simps Let_def)
  have 2: "user_type\<lparr>typeName := ''Users''\<rparr> = user_type\<lparr>typeName := typeName user_type @ ''s''\<rparr>"
    by (simp add: user_type_def)
  have 3: "?g = (fst ?g, snd ?g)" by simp
  from table_key_collision [OF 1 2 _ 3] show ?thesis by simp
qed

section \<open>Entities through the database\<close>

lemma in_set_mapI: "x \<in> set xs \<Longrightarrow> f x \<in> set (map f xs)"
  by simp

text \<open>
  Each of the three passes over a row writes the fields it is responsible for and no other. The
  \<open>distinct\<close> and length conditions are those of every table that \<open>build_table\<close> makes.
\<close>

abbreviation row_ok :: "(fieldMeta \<times> cell) list \<Rightarrow> gval list \<Rightarrow> bool" where
  "row_ok fcs e \<equiv> distinct (map (\<lambda>fc. Index (fst fc)) fcs) \<and> (\<forall>fc \<in> set fcs. Index (fst fc) < length e)"

definition keeps_others :: "(fieldMeta \<times> cell) list \<Rightarrow> gval list \<Rightarrow> gval list \<Rightarrow> bool" where
  "keeps_others fcs e e' \<longleftrightarrow> length e' = length e \<and> (\<forall>i. i \<notin> (\<lambda>fc. Index (fst fc)) ` set fcs \<longrightarrow> e' ! i = e ! i)"

lemma keeps_others_upd:
  "keeps_others fcs (e[Index f := v]) e' \<Longrightarrow> keeps_others ((f, c) # fcs) e e'"
  by (auto simp: keeps_others_def)

lemma keeps_others_Cons: "keeps_others fcs e e' \<Longrightarrow> keeps_others ((f, c) # fcs) e e'"
  by (auto simp: keeps_others_def)

lemma keeps_others_head:
  "keeps_others fcs e e' \<Longrightarrow> row_ok ((f, c) # fcs) e \<Longrightarrow> e' ! Index f = e ! Index f"
  by (auto simp: keeps_others_def)

lemma row_ok_other:
  assumes "Index f \<notin> (\<lambda>fc. Index (fst fc)) ` set fcs" "x \<in> set fcs"
  shows "Index (fst x) \<noteq> Index f"
  using imageI [OF assms(2), of "\<lambda>fc. Index (fst fc)"] assms(1) by metis

lemma scan_direct_pass:
  assumes "row_ok fcs e"
    and "\<And>f c. (f, c) \<in> set fcs \<Longrightarrow> scan_target f = FieldItself \<Longrightarrow> c = CDirect (g f)"
  shows "keeps_others fcs e (scan_direct fcs e) \<and>
    (\<forall>fc \<in> set fcs. scan_direct fcs e ! Index (fst fc) =
       (if scan_target (fst fc) = FieldItself then g (fst fc) else e ! Index (fst fc)))"
  using assms
proof (induction fcs arbitrary: e)
  case (Cons fc fcs)
  obtain f c where fc: "fc = (f, c)" by (cases fc)
  let ?e = "if scan_target f = FieldItself then e[Index f := g f] else e"
  have step: "scan_direct (fc # fcs) e = scan_direct fcs ?e"
    using Cons.prems(2) [of f c] fc by (auto split: target.splits cell.splits)
  have "row_ok fcs ?e" using Cons.prems(1) by simp
  from Cons.IH [OF this Cons.prems(2)]
  have ih: "keeps_others fcs ?e (scan_direct fcs ?e)"
    "\<forall>fc \<in> set fcs. scan_direct fcs ?e ! Index (fst fc) =
       (if scan_target (fst fc) = FieldItself then g (fst fc) else ?e ! Index (fst fc))"
    by (auto simp del: scan_direct.simps)
  have "keeps_others (fc # fcs) e (scan_direct fcs ?e)"
    using ih(1) keeps_others_upd keeps_others_Cons fc by (cases "scan_target f = FieldItself") auto
  moreover have "scan_direct fcs ?e ! Index f = ?e ! Index f"
    using keeps_others_head [OF ih(1), of f c] Cons.prems(1) fc by simp
  moreover have "?e ! Index (fst x) = e ! Index (fst x)" if "x \<in> set fcs" for x
  proof -
    have "Index (fst x) \<noteq> Index f" using that Cons.prems(1) fc by (intro row_ok_other) auto
    then show ?thesis by simp
  qed
  ultimately show ?case
    unfolding step using ih(2) Cons.prems(1) fc by auto
qed (simp add: keeps_others_def)

lemma apply_slots_pass:
  assumes "row_ok fcs e"
    and "\<And>f c k el. (f, c) \<in> set fcs \<Longrightarrow> scan_target f = Slot k el \<Longrightarrow>
      ptr_apply narrow32 k el (zero_value zeros (GoType f)) c = Inr (g f)"
  shows "\<exists>e'. apply_slots zeros narrow32 fcs e = Inr e' \<and> keeps_others fcs e e' \<and>
    (\<forall>fc \<in> set fcs. e' ! Index (fst fc) =
       (if \<exists>k el. scan_target (fst fc) = Slot k el then g (fst fc) else e ! Index (fst fc)))"
  using assms
proof (induction fcs arbitrary: e)
  case (Cons fc fcs)
  obtain f c where fc: "fc = (f, c)" by (cases fc)
  let ?e = "if \<exists>k el. scan_target f = Slot k el then e[Index f := g f] else e"
  have step: "apply_slots zeros narrow32 (fc # fcs) e = apply_slots zeros narrow32 fcs ?e"
    using Cons.prems(2) [of f c] fc by (auto split: target.splits)
  have "row_ok fcs ?e" using Cons.prems(1) by simp
  from Cons.IH [OF this Cons.prems(2)] obtain e' where
    ih: "apply_slots zeros narrow32 fcs ?e = Inr e'" "keeps_others fcs ?e e'"
    "\<forall>fc \<in> set fcs. e' ! Index (fst fc) =
       (if \<exists>k el. scan_target (fst fc) = Slot k el then g (fst fc) else ?e ! Index (fst fc))"
    by (auto simp del: apply_slots.simps)
  have "keeps_others (fc # fcs) e e'"
    using ih(2) keeps_others_upd keeps_others_Cons fc by (cases "\<exists>k el. scan_target f = Slot k el") auto
  moreover have "e' ! Index f = ?e ! Index f"
    using keeps_others_head [OF ih(2), of f c] Cons.prems(1) fc by simp
  moreover have "?e ! Index (fst x) = e ! Index (fst x)" if "x \<in> set fcs" for x
  proof -
    have "Index (fst x) \<noteq> Index f" using that Cons.prems(1) fc by (intro row_ok_other) auto
    then show ?thesis by simp
  qed
  ultimately show ?case
    unfolding step using ih(1,3) Cons.prems(1) fc by auto
qed (simp add: keeps_others_def)

lemma apply_json_pass:
  assumes "row_ok fcs e"
    and "\<And>f c. (f, c) \<in> set fcs \<Longrightarrow> scan_target f = JsonBuffer \<Longrightarrow>
      json_apply zeros unmarshal (fm_name f) (GoType f) (e ! Index f) (case c of CJson j \<Rightarrow> j | _ \<Rightarrow> '''') = Inr (g f)"
  shows "\<exists>e'. apply_json zeros unmarshal fcs e = Inr e' \<and> keeps_others fcs e e' \<and>
    (\<forall>fc \<in> set fcs. e' ! Index (fst fc) =
       (if scan_target (fst fc) = JsonBuffer then g (fst fc) else e ! Index (fst fc)))"
  using assms
proof (induction fcs arbitrary: e)
  case (Cons fc fcs)
  obtain f c where fc: "fc = (f, c)" by (cases fc)
  let ?e = "if scan_target f = JsonBuffer then e[Index f := g f] else e"
  have step: "apply_json zeros unmarshal (fc # fcs) e = apply_json zeros unmarshal fcs ?e"
  proof (cases "scan_target f = JsonBuffer")
    case True
    have "e ! Index f = g f \<Longrightarrow> e[Index f := g f] = e" by (metis list_update_id)
    with True Cons.prems(2) [of f c] fc show ?thesis
      by (cases c) (auto simp: Let_def json_apply_def split: if_splits)
  qed (cases "scan_target f"; simp add: fc)
  have other: "?e ! Index (fst x) = e ! Index (fst x)" if "x \<in> set fcs" for x
  proof -
    have "Index (fst x) \<noteq> Index f" using that Cons.prems(1) fc by (intro row_ok_other) auto
    then show ?thesis by simp
  qed
  have "row_ok fcs ?e" using Cons.prems(1) by simp
  moreover have "json_apply zeros unmarshal (fm_name f') (GoType f') (?e ! Index f')
      (case c' of CJson j \<Rightarrow> j | _ \<Rightarrow> '''') = Inr (g f')"
    if "(f', c') \<in> set fcs" "scan_target f' = JsonBuffer" for f' c'
    using other [OF that(1)] Cons.prems(2) [of f' c'] that by simp
  ultimately obtain e' where
    ih: "apply_json zeros unmarshal fcs ?e = Inr e'" "keeps_others fcs ?e e'"
    "\<forall>fc \<in> set fcs. e' ! Index (fst fc) =
       (if scan_target (fst fc) = JsonBuffer then g (fst fc) else ?e ! Index (fst fc))"
    using Cons.IH [of ?e] by blast
  have "keeps_others (fc # fcs) e e'"
    using ih(2) keeps_others_upd keeps_others_Cons fc by (cases "scan_target f = JsonBuffer") auto
  moreover have "e' ! Index f = ?e ! Index f"
    using keeps_others_head [OF ih(2), of f c] Cons.prems(1) fc by simp
  ultimately show ?case
    unfolding step using ih(1,3) other Cons.prems(1) fc by auto
qed (simp add: keeps_others_def)

lemma scan_field_target:
  assumes "ScanKind f = fst (classifyScanKind scanner valuer (GoType f))"
    and "ElemType f = snd (classifyScanKind scanner valuer (GoType f))"
    and "scan_field scanner valuer zeros narrow32 unmarshal (fm_name f) (GoType f) c = Inr v"
  shows "scan_target f = FieldItself \<Longrightarrow> c = CDirect v"
    and "scan_target f = Slot k el \<Longrightarrow> ptr_apply narrow32 k el (zero_value zeros (GoType f)) c = Inr v"
    and "scan_target f = JsonBuffer \<Longrightarrow>
      json_apply zeros unmarshal (fm_name f) (GoType f) (zero_value zeros (GoType f))
        (case c of CJson j \<Rightarrow> j | _ \<Rightarrow> '''') = Inr v"
proof -
  have c: "classifyScanKind scanner valuer (GoType f) = (ScanKind f, ElemType f)"
    by (simp add: assms(1,2))
  show "c = CDirect v" if "scan_target f = FieldItself"
    using that assms(3) c by (auto simp: scan_target_def scan_field_def split: fieldScanKind.splits cell.splits)
  show "ptr_apply narrow32 k el (zero_value zeros (GoType f)) c = Inr v" if "scan_target f = Slot k el"
    using that assms(3) c by (auto simp: scan_target_def scan_field_def split: fieldScanKind.splits)
  show "json_apply zeros unmarshal (fm_name f) (GoType f) (zero_value zeros (GoType f))
      (case c of CJson j \<Rightarrow> j | _ \<Rightarrow> '''') = Inr v" if "scan_target f = JsonBuffer"
    using that assms(3) c by (auto simp: scan_target_def scan_field_def split: fieldScanKind.splits)
qed

lemma extractArgs_nth:
  "extractArgsByFields valuer call_value marshal entity fs = Inr args \<Longrightarrow>
   length args = length fs \<and>
   (\<forall>i < length fs. getValue valuer call_value marshal True (GoType (fs ! i)) (entity ! Index (fs ! i)) = Inr (args ! i))"
proof (induction fs arbitrary: args)
  case (Cons f fs)
  then obtain v vs where v: "getValue valuer call_value marshal True (GoType f) (entity ! Index f) = Inr v"
    "extractArgsByFields valuer call_value marshal entity fs = Inr vs" "args = v # vs"
    by (auto split: sum.splits simp: map_sum_def)
  from Cons.IH [OF v(2)] v(1,3) show ?case by (auto simp: nth_Cons split: nat.splits)
qed simp

lemma scan_entity_fields:
  assumes row: "row_ok fcs (zero_entity zeros T)" and fcs: "fcs = zip (t_fields t) cells"
    and meta: "\<And>f c. (f, c) \<in> set fcs \<Longrightarrow>
      ScanKind f = fst (classifyScanKind scanner valuer (GoType f)) \<and>
      ElemType f = snd (classifyScanKind scanner valuer (GoType f)) \<and>
      GoType f = sf_type (sfields T ! Index f)"
    and field: "\<And>f c. (f, c) \<in> set fcs \<Longrightarrow>
      scan_field scanner valuer zeros narrow32 unmarshal (fm_name f) (GoType f) c = Inr (g f)"
  shows "\<exists>e. scan_entity zeros narrow32 unmarshal T t (Inr cells) = Inr e \<and>
    keeps_others fcs (zero_entity zeros T) e \<and> (\<forall>fc \<in> set fcs. e ! Index (fst fc) = g (fst fc))"
proof -
  let ?e0 = "zero_entity zeros T"
  have target: "scan_target f = FieldItself \<Longrightarrow> c = CDirect (g f)"
    "scan_target f = Slot k el \<Longrightarrow> ptr_apply narrow32 k el (zero_value zeros (GoType f)) c = Inr (g f)"
    "scan_target f = JsonBuffer \<Longrightarrow>
      json_apply zeros unmarshal (fm_name f) (GoType f) (zero_value zeros (GoType f))
        (case c of CJson j \<Rightarrow> j | _ \<Rightarrow> '''') = Inr (g f)"
    if "(f, c) \<in> set fcs" for f c k el
    using scan_field_target [OF _ _ field [OF that]] meta [OF that] by blast+
  let ?e1 = "scan_direct fcs ?e0"
  have e1: "keeps_others fcs ?e0 ?e1"
    "\<And>fc. fc \<in> set fcs \<Longrightarrow> ?e1 ! Index (fst fc) = (if scan_target (fst fc) = FieldItself then g (fst fc) else ?e0 ! Index (fst fc))"
    using scan_direct_pass [where g = g, OF row] target(1) by blast+
  have row1: "row_ok fcs ?e1" using row e1(1) by (simp add: keeps_others_def)
  obtain e2 where e2: "apply_slots zeros narrow32 fcs ?e1 = Inr e2" "keeps_others fcs ?e1 e2"
    "\<And>fc. fc \<in> set fcs \<Longrightarrow> e2 ! Index (fst fc) = (if \<exists>k el. scan_target (fst fc) = Slot k el then g (fst fc) else ?e1 ! Index (fst fc))"
    using apply_slots_pass [where g = g, OF row1] target(2) by blast
  have row2: "row_ok fcs e2" using row1 e2(2) by (simp add: keeps_others_def)
  have zero: "?e0 ! Index f = zero_value zeros (GoType f)" if "(f, c) \<in> set fcs" for f c
    using that row meta [OF that] by (auto simp: zero_entity_def)
  have json: "json_apply zeros unmarshal (fm_name f) (GoType f) (e2 ! Index f)
      (case c of CJson j \<Rightarrow> j | _ \<Rightarrow> '''') = Inr (g f)"
    if "(f, c) \<in> set fcs" "scan_target f = JsonBuffer" for f c
    using target(3) [OF that] e2(3) [OF that(1)] e1(2) [OF that(1)] that(2)
      zero [OF that(1)] by simp
  obtain e3 where e3: "apply_json zeros unmarshal fcs e2 = Inr e3" "keeps_others fcs e2 e3"
    "\<And>fc. fc \<in> set fcs \<Longrightarrow> e3 ! Index (fst fc) = (if scan_target (fst fc) = JsonBuffer then g (fst fc) else e2 ! Index (fst fc))"
    using apply_json_pass [where g = g, OF row2] json by blast
  have "e3 ! Index (fst fc) = g (fst fc)" if "fc \<in> set fcs" for fc
    using e3(3) [OF that] e2(3) [OF that] e1(2) [OF that] by (cases "scan_target (fst fc)") auto
  moreover have "keeps_others fcs ?e0 e3" using e1(1) e2(2) e3(2) by (simp add: keeps_others_def)
  moreover have "scan_entity zeros narrow32 unmarshal T t (Inr cells) = Inr e3"
    using e2(1) e3(1) by (simp add: scan_entity_def Let_def fcs)
  ultimately show ?thesis by blast
qed

text \<open>What a value must satisfy to be stored and read back; see Pg\_Value\_Props.\<close>

definition storable ::
  "(gtype \<Rightarrow> bool) \<Rightarrow> (gtype \<Rightarrow> bool) \<Rightarrow> (string \<Rightarrow> gval list) \<Rightarrow> (64 word \<Rightarrow> 64 word) \<Rightarrow>
   (gtype \<Rightarrow> gval \<Rightarrow> string + string) \<Rightarrow> (gtype \<Rightarrow> gval \<Rightarrow> string \<Rightarrow> string + gval) \<Rightarrow>
   gtype \<Rightarrow> gval \<Rightarrow> bool" where
  "storable scanner valuer zeros narrow32 marshal unmarshal t v \<longleftrightarrow>
     has_type t v \<and> plain_type scanner valuer t \<and> lossless narrow32 t v \<and>
     (composite (fst (json_part t v)) \<longrightarrow>
        json_ok zeros marshal unmarshal (fst (json_part t v)) (snd (json_part t v)))"

text \<open>The row a query returns for stored arguments.\<close>

definition stored_row :: "(fieldScanKind \<Rightarrow> dbval \<Rightarrow> cell) \<Rightarrow> table \<Rightarrow> dbval list \<Rightarrow> cell list" where
  "stored_row colm t args = map2 (\<lambda>f d. colm (ScanKind f) d) (t_fields t) args"

text \<open>The cells of a stored row restore the fields they belong to.\<close>

lemma stored_row_fields:
  assumes "build_table scanner valuer T name = Inr t"
    and "faithful_column colm"
    and "\<forall>f \<in> set (t_fields t).
      storable scanner valuer zeros narrow32 marshal unmarshal (GoType f) (entity ! Index f)"
    and "extractArgsByFields valuer call_value marshal entity (t_fields t) = Inr args"
    and fcs: "fcs = zip (t_fields t) (stored_row colm t args)"
  shows "map fst fcs = t_fields t" and "row_ok fcs (zero_entity zeros T)"
    and "(f, c) \<in> set fcs \<Longrightarrow>
      scan_field scanner valuer zeros narrow32 unmarshal (fm_name f) (GoType f) c = Inr (entity ! Index f)"
    and "(f, c) \<in> set fcs \<Longrightarrow>
      ScanKind f = fst (classifyScanKind scanner valuer (GoType f)) \<and>
      ElemType f = snd (classifyScanKind scanner valuer (GoType f)) \<and> GoType f = sf_type (sfields T ! Index f)"
proof -
  from table_description [of scanner valuer T name] have tf:
    "t_fields t = metas scanner valuer 0 (sfields T)"
    by (simp add: assms(1))
  note meta = metas_nth [of _ scanner valuer "sfields T", folded tf]
  from extractArgs_nth [OF assms(4)] have len: "length args = length (t_fields t)"
    and arg: "\<And>i. i < length (t_fields t) \<Longrightarrow>
      getValue valuer call_value marshal True (GoType (t_fields t ! i)) (entity ! Index (t_fields t ! i)) = Inr (args ! i)"
    by blast+
  show keys: "map fst fcs = t_fields t" using len by (simp add: stored_row_def fcs)
  show "row_ok fcs (zero_entity zeros T)"
  proof -
    have "map (\<lambda>fc. Index (fst fc)) fcs = map Index (map fst fcs)" by simp
    then have "map (\<lambda>fc. Index (fst fc)) fcs = map Index (t_fields t)" unfolding keys .
    moreover have "distinct (map Index (t_fields t))" using tf distinct_metas by simp
    moreover have "Index (fst fc) < length (sfields T)" if "fc \<in> set fcs" for fc
    proof -
      from that have "fst fc \<in> set (map fst fcs)" by (rule in_set_mapI)
      then show ?thesis using meta unfolding keys by blast
    qed
    ultimately show ?thesis by (simp add: zero_entity_def)
  qed
  have cell: "scan_field scanner valuer zeros narrow32 unmarshal (fm_name f) (GoType f) c = Inr (entity ! Index f) \<and>
      ScanKind f = fst (classifyScanKind scanner valuer (GoType f)) \<and>
      ElemType f = snd (classifyScanKind scanner valuer (GoType f)) \<and> GoType f = sf_type (sfields T ! Index f)"
    if fc: "(f, c) \<in> set fcs" for f c
  proof -
    from fc len obtain i where i: "i < length (t_fields t)" "f = t_fields t ! i"
      "c = colm (ScanKind f) (args ! i)"
      by (auto simp: set_zip stored_row_def fcs)
    then have "f \<in> set (t_fields t)" by simp
    with meta have *: "ScanKind f = fst (classifyScanKind scanner valuer (GoType f)) \<and>
      ElemType f = snd (classifyScanKind scanner valuer (GoType f)) \<and> GoType f = sf_type (sfields T ! Index f)"
      by (metis field_meta_simps(2,6,7))
    from assms(3) \<open>f \<in> set (t_fields t)\<close> have st: "has_type (GoType f) (entity ! Index f)"
      "plain_type scanner valuer (GoType f)" "lossless narrow32 (GoType f) (entity ! Index f)"
      "composite (fst (json_part (GoType f) (entity ! Index f))) \<Longrightarrow>
         json_ok zeros marshal unmarshal (fst (json_part (GoType f) (entity ! Index f)))
         (snd (json_part (GoType f) (entity ! Index f)))"
      by (simp_all add: storable_def)
    have "scan_field scanner valuer zeros narrow32 unmarshal (fm_name f) (GoType f) c = Inr (entity ! Index f)"
      using field_restored [OF assms(2) st] arg [OF i(1)] i * by metis
    with * show ?thesis by simp
  qed
  show "(f, c) \<in> set fcs \<Longrightarrow>
      scan_field scanner valuer zeros narrow32 unmarshal (fm_name f) (GoType f) c = Inr (entity ! Index f)"
    using cell by blast
  show "(f, c) \<in> set fcs \<Longrightarrow>
      ScanKind f = fst (classifyScanKind scanner valuer (GoType f)) \<and>
      ElemType f = snd (classifyScanKind scanner valuer (GoType f)) \<and> GoType f = sf_type (sfields T ! Index f)"
    using cell by blast
qed

lemma entity_restored:
  assumes "build_table scanner valuer T name = Inr t" "length entity = length (sfields T)"
    and "faithful_column colm"
    and "\<forall>f \<in> set (t_fields t).
      storable scanner valuer zeros narrow32 marshal unmarshal (GoType f) (entity ! Index f)"
    and "extractArgsByFields valuer call_value marshal entity (t_fields t) = Inr args"
  shows "\<exists>e. scan_entity zeros narrow32 unmarshal T t (Inr (stored_row colm t args)) = Inr e \<and>
    length e = length entity \<and>
    (\<forall>i < length entity. e ! i = (if i \<in> Index ` set (t_fields t) then entity ! i
                                  else zero_value zeros (sf_type (sfields T ! i))))"
proof -
  let ?fcs = "zip (t_fields t) (stored_row colm t args)"
  note fields = stored_row_fields [OF assms(1,3-5) refl]
  have "\<exists>e. scan_entity zeros narrow32 unmarshal T t (Inr (stored_row colm t args)) = Inr e \<and>
      keeps_others ?fcs (zero_entity zeros T) e \<and> (\<forall>fc \<in> set ?fcs. e ! Index (fst fc) = entity ! Index (fst fc))"
    by (rule scan_entity_fields [where g = "\<lambda>f. entity ! Index f", OF fields(2) refl]) (fact fields(4), fact fields(3))
  then obtain e where
    e: "scan_entity zeros narrow32 unmarshal T t (Inr (stored_row colm t args)) = Inr e"
    "keeps_others ?fcs (zero_entity zeros T) e" "\<forall>fc \<in> set ?fcs. e ! Index (fst fc) = entity ! Index (fst fc)"
    by blast
  have idx: "(\<lambda>fc. Index (fst fc)) ` set ?fcs = Index ` set (t_fields t)"
  proof -
    have "(\<lambda>fc. Index (fst fc)) ` set ?fcs = Index ` set (map fst ?fcs)" by (simp add: image_image)
    then show ?thesis unfolding fields(1) .
  qed
  have "e ! i = (if i \<in> Index ` set (t_fields t) then entity ! i
      else zero_value zeros (sf_type (sfields T ! i)))" if "i < length entity" for i
  proof (cases "i \<in> Index ` set (t_fields t)")
    case True
    with idx e(3) show ?thesis by (metis (mono_tags, lifting) imageE)
  next
    case False
    with idx e(2) that assms(2) show ?thesis by (simp add: keeps_others_def zero_entity_def)
  qed
  moreover have "length e = length entity" using e(2) assms(2) by (simp add: keeps_others_def zero_entity_def)
  ultimately show ?thesis using e(1) by blast
qed

text \<open>
  C5: an entity survives the database. For an entity of a type with a table, whose mapped fields
  are all storable, the arguments extracted from it, stored in faithful columns and scanned from a
  row into a zero entity by \<open>prepareScan\<close> and \<open>finalizeScan\<close>, give an entity that is equal to it in
  every mapped field and zero in every other one, and no step of it fails.
\<close>

theorem entity_round_trip:
  assumes "build_table scanner valuer T name = Inr t" "length entity = length (sfields T)"
    and "faithful_column colm"
    and "\<forall>f \<in> set (t_fields t).
      storable scanner valuer zeros narrow32 marshal unmarshal (GoType f) (entity ! Index f)"
    and "extractArgsByFields valuer call_value marshal entity (t_fields t) = Inr args"
  shows "\<exists>e. scan_entity zeros narrow32 unmarshal T t (Inr (stored_row colm t args)) = Inr e \<and>
    length e = length entity \<and>
    (\<forall>i < length entity. e ! i = (if i \<in> Index ` set (t_fields t) then entity ! i
                                  else zero_value zeros (sf_type (sfields T ! i))))"
  using assms by (rule entity_restored)

definition user_bob :: "gval list" where
  "user_bob = [VInt 7, VOther ''open'', VString ''bob'', VPtr (VInt 30), VSlice [VInt 7]]"

lemma metas_user:
  "t_fields user_table = metas no_methods no_methods 0 (sfields user_type)"
  using table_description [of no_methods no_methods user_type "''users''"] by (simp add: user_table)

theorem entity_round_trip_witness:
  "\<exists>e. scan_entity (\<lambda>_. []) id example_unmarshal user_type user_table
      (Inr (stored_row mirror_column user_table
         [DRaw (TInt K64 ''int64'') (VInt 7), DRaw (TString ''string'') (VString ''bob''),
          DRaw (TInt K8 ''int8'') (VInt 30), DJson ''[7]''])) = Inr e \<and>
    e ! 2 = VString ''bob'' \<and> e ! 3 = VPtr (VInt 30) \<and> e ! 1 = VOther ''''"
proof -
  let ?args = "[DRaw (TInt K64 ''int64'') (VInt 7), DRaw (TString ''string'') (VString ''bob''),
          DRaw (TInt K8 ''int8'') (VInt 30), DJson ''[7]'']"
  have fields: "t_fields user_table = map (\<lambda>i. field_meta no_methods no_methods i (sfields user_type ! i)) [0, 2, 3, 4]"
    by (simp add: metas_user user_type_def mapped_def)
  have 1: "length user_bob = length (sfields user_type)" by (simp add: user_bob_def user_type_def)
  have 2: "\<forall>f \<in> set (t_fields user_table).
      storable no_methods no_methods (\<lambda>_. []) id example_marshal example_unmarshal (GoType f) (user_bob ! Index f)"
    by (simp add: fields user_bob_def user_type_def storable_def plain_type_def json_ok_def
        example_marshal_def example_unmarshal_def bytesType_def)
  have 3: "extractArgsByFields no_methods (\<lambda>_ _. Inl '''') example_marshal user_bob (t_fields user_table) = Inr ?args"
    by (simp add: fields user_bob_def user_type_def value_of_def timeType_def bytesType_def example_marshal_def)
  from entity_round_trip [OF user_table 1 faithful_mirror 2 3] obtain e where
    e: "scan_entity (\<lambda>_. []) id example_unmarshal user_type user_table (Inr (stored_row mirror_column user_table ?args)) = Inr e"
    "\<forall>i < length user_bob. e ! i = (if i \<in> Index ` set (t_fields user_table) then user_bob ! i
        else zero_value (\<lambda>_. []) (sf_type (sfields user_type ! i)))" by blast
  have idx: "Index ` set (t_fields user_table) = {0, 2, 3, 4}" unfolding fields by simp
  have len: "length user_bob = 5" by (simp add: user_bob_def)
  have "e ! 2 = user_bob ! 2" "e ! 3 = user_bob ! 3"
    "e ! 1 = zero_value (\<lambda>_. []) (sf_type (sfields user_type ! 1))"
    using e(2) [rule_format, of 2] e(2) [rule_format, of 3] e(2) [rule_format, of 1]
    unfolding idx len by simp_all
  with e(1) show ?thesis by (simp add: user_bob_def user_type_def)
qed

end
