(* ===== verification/Pg_Operation.thy ===== *)
theory Pg_Operation
  imports Pg_Table_Props
begin

text \<open>
  \<open>pgsql/table_operation.go\<close> and the look-up of a pool in \<open>pgsql/pool.go\<close>. The database is a
  parameter: \<open>db\<close> holds what \<open>QueryRow(..).Scan\<close>, \<open>Query\<close> and \<open>Exec\<close> of a pool do with a statement,
  its arguments and the state \<open>'d\<close> of the database. An operation returns a value or an error, the
  new state, or panics. Entities that are inserted are written through their pointers, so these
  operations work on a store from addresses to entities.
\<close>

section \<open>Pools and the database\<close>

record 'd db =
  query_row :: "string \<Rightarrow> dbval list \<Rightarrow> 'd \<Rightarrow> (string + cell list) \<times> 'd"
  query_rows :: "string \<Rightarrow> dbval list \<Rightarrow> 'd \<Rightarrow>
    (string + (string + cell list) list \<times> string option) \<times> 'd"
  db_exec :: "string \<Rightarrow> dbval list \<Rightarrow> 'd \<Rightarrow> (string + nat) \<times> 'd"

text \<open>
  \<open>newPool\<close>: the settings of the connection string, with the limits of this program; times are in
  seconds. \<open>parse_config\<close> and \<open>new_with_config\<close> are \<open>pgxpool\<close>.
\<close>

record pool_config =
  conn_target :: string
  MaxConns :: nat
  MinConns :: nat
  MaxConnLifetime :: nat
  MaxConnIdleTime :: nat

definition newPool ::
  "(string \<Rightarrow> string + pool_config) \<Rightarrow> (pool_config \<Rightarrow> string + 'd db) \<Rightarrow> string \<Rightarrow> string + 'd db" where
  "newPool parse_config new_with_config connString =
     (case parse_config connString of
        Inl e \<Rightarrow> Inl e
      | Inr config \<Rightarrow>
          new_with_config (config\<lparr>MaxConns := 20, MinConns := 4, MaxConnLifetime := 30 * 60, MaxConnIdleTime := 30\<rparr>))"

text \<open>
  \<open>Init\<close>: the manager is set up before the pool is made, with \<open>newPool\<close>, so an error leaves a manager
  without pools.
\<close>

definition pool_init :: "string + 'd db \<Rightarrow> (string + unit) \<times> (string \<rightharpoonup> 'd db)" where
  "pool_init created =
     (case created of
        Inl e \<Rightarrow> (Inl e, Map.empty)
      | Inr pool \<Rightarrow> (Inr (), [''''  \<mapsto> pool]))"

text \<open>\<open>poolManager.Get\<close>: the pool under the key of the context; creating one panics.\<close>

definition pool_get :: "string option \<Rightarrow> (string \<rightharpoonup> 'd db) \<Rightarrow> 'd db outcome" where
  "pool_get poolKey pools =
     (let key = (case poolKey of None \<Rightarrow> '''' | Some k \<Rightarrow> k) in
      case pools key of
        Some pool \<Rightarrow> Return pool
      | None \<Rightarrow> if key = '''' then Panic ''please init'' else Panic ''not implemented'')"

type_synonym ('r, 'd) op = "((string + 'r) \<times> 'd) outcome"

text \<open>A row with one integer, as \<open>Scan(&id)\<close> reads it.\<close>

fun scan_int :: "string + cell list \<Rightarrow> string + int" where
  "scan_int (Inl e) = Inl e"
| "scan_int (Inr [CInt i]) = Inr i"
| "scan_int (Inr _) = Inl ''cannot scan''"

definition int64_arg :: "int \<Rightarrow> dbval" where
  "int64_arg i = DRaw (TInt K64 ''int64'') (VInt i)"

definition quoted :: "string \<Rightarrow> string" where
  "quoted s = ''\"'' @ s @ ''\"''"

definition table_ID :: "'d db outcome \<Rightarrow> table \<Rightarrow> 'd \<Rightarrow> (int, 'd) op" where
  "table_ID poolo t d =
     bind_outcome poolo (\<lambda>pool.
       (let (r, d') = query_row pool
              (''SELECT nextval(pg_get_serial_sequence('' @ [CHR 0x27] @ t_name t @ [CHR 0x27] @
               '', '' @ [CHR 0x27] @ ''id'' @ [CHR 0x27] @ ''))'') [] d
        in Return (scan_int r, d')))"

section \<open>Insert\<close>

definition insert_sql :: "string \<Rightarrow> fieldMeta list \<Rightarrow> nat \<Rightarrow> string" where
  "insert_sql tableName flds rowCount =
     ''INSERT INTO '' @ tableName @ '' ('' @ columnSQL flds @ '') VALUES '' @
     buildValuesSQL rowCount (length flds) @ '' RETURNING id''"

definition InsertOne ::
  "(gtype \<Rightarrow> bool) \<Rightarrow> (gtype \<Rightarrow> gval \<Rightarrow> string + dbval) \<Rightarrow> (gtype \<Rightarrow> gval \<Rightarrow> string + string) \<Rightarrow>
   'd db outcome \<Rightarrow> table \<Rightarrow> gval list \<Rightarrow> 'd \<Rightarrow> (gval list, 'd) op" where
  "InsertOne valuer call_value marshal poolo t entity d =
     bind_outcome poolo (\<lambda>pool.
       (let flds = insertColumns t (hasExplicitPK t entity) in
        case extractArgsByFields valuer call_value marshal entity flds of
          Inl e \<Rightarrow> Return (Inl e, d)
        | Inr args \<Rightarrow>
            (case query_row pool (insert_sql (quoted (t_name t)) flds 1) args d of
               (row, d') \<Rightarrow>
                 (case scan_int row of
                    Inl e \<Rightarrow> Return (Inl e, d')
                  | Inr returnedID \<Rightarrow> Return (Inr (entity[Index (pkField t) := VInt returnedID]), d')))))"

text \<open>The arguments of a batch, entity by entity.\<close>

fun batch_args ::
  "(gtype \<Rightarrow> bool) \<Rightarrow> (gtype \<Rightarrow> gval \<Rightarrow> string + dbval) \<Rightarrow> (gtype \<Rightarrow> gval \<Rightarrow> string + string) \<Rightarrow>
   fieldMeta list \<Rightarrow> gval list list \<Rightarrow> string + dbval list" where
  "batch_args valuer call_value marshal flds [] = Inr []"
| "batch_args valuer call_value marshal flds (e # es) =
     (case extractArgsByFields valuer call_value marshal e flds of
        Inl err' \<Rightarrow> Inl err'
      | Inr args \<Rightarrow> map_sum id ((@) args) (batch_args valuer call_value marshal flds es))"

text \<open>
  The loop over the returned rows: row \<open>i\<close> holds the id of entity \<open>i\<close>. A row without an entity is
  an index out of range.
\<close>

fun assign_ids ::
  "nat \<Rightarrow> (string + cell list) list \<Rightarrow> string option \<Rightarrow> nat list \<Rightarrow> (nat \<Rightarrow> gval list) \<Rightarrow>
   (string option \<times> (nat \<Rightarrow> gval list)) outcome" where
  "assign_ids pk [] rowsErr entities st = Return (rowsErr, st)"
| "assign_ids pk (row # rows) rowsErr entities st =
     (case scan_int row of
        Inl e \<Rightarrow> Return (Some e, st)
      | Inr returnedID \<Rightarrow>
          (case entities of
             [] \<Rightarrow> Panic ''index out of range''
           | a # as \<Rightarrow> assign_ids pk rows rowsErr as (st(a := (st a)[pk := VInt returnedID]))))"

definition insertManyBatch ::
  "(gtype \<Rightarrow> bool) \<Rightarrow> (gtype \<Rightarrow> gval \<Rightarrow> string + dbval) \<Rightarrow> (gtype \<Rightarrow> gval \<Rightarrow> string + string) \<Rightarrow>
   'd db outcome \<Rightarrow> table \<Rightarrow> nat list \<Rightarrow> bool \<Rightarrow> (nat \<Rightarrow> gval list) \<Rightarrow> 'd \<Rightarrow>
   (string option \<times> (nat \<Rightarrow> gval list) \<times> 'd) outcome" where
  "insertManyBatch valuer call_value marshal poolo t entities includePK st d =
     bind_outcome poolo (\<lambda>pool.
       (let flds = insertColumns t includePK in
        case batch_args valuer call_value marshal flds (map st entities) of
          Inl e \<Rightarrow> Return (Some e, st, d)
        | Inr allArgs \<Rightarrow>
            (case query_rows pool (insert_sql (t_name t) flds (length entities)) allArgs d of
               (Inl e, d') \<Rightarrow> Return (Some e, st, d')
             | (Inr (rows, rowsErr), d') \<Rightarrow>
                 bind_outcome (assign_ids (Index (pkField t)) rows rowsErr entities st)
                   (\<lambda>(e, st'). Return (e, st', d')))))"

definition InsertMany ::
  "(gtype \<Rightarrow> bool) \<Rightarrow> (gtype \<Rightarrow> gval \<Rightarrow> string + dbval) \<Rightarrow> (gtype \<Rightarrow> gval \<Rightarrow> string + string) \<Rightarrow>
   'd db outcome \<Rightarrow> table \<Rightarrow> nat list \<Rightarrow> (nat \<Rightarrow> gval list) \<Rightarrow> 'd \<Rightarrow>
   (string option \<times> (nat \<Rightarrow> gval list) \<times> 'd) outcome" where
  "InsertMany valuer call_value marshal poolo t entities st d =
     (if entities = [] then Return (None, st, d)
      else
        (let withPK = filter (\<lambda>a. hasExplicitPK t (st a)) entities;
             withoutPK = filter (\<lambda>a. \<not> hasExplicitPK t (st a)) entities;
             batch = insertManyBatch valuer call_value marshal poolo t
         in bind_outcome
              (if withoutPK \<noteq> [] then batch withoutPK False st d else Return (None, st, d))
              (\<lambda>(e, st1, d1).
                 if e \<noteq> None then Return (e, st1, d1)
                 else if withPK \<noteq> [] then batch withPK True st1 d1
                 else Return (None, st1, d1))))"

section \<open>Queries\<close>

text \<open>
  The parameters of a scan, \<open>zeros\<close>, \<open>narrow32\<close>, \<open>unmarshal\<close> and the entity type, are bundled in
  \<open>scan\<close>, which is \<open>scan_entity\<close> applied to them.
\<close>

type_synonym scanner_fun = "table \<Rightarrow> string + cell list \<Rightarrow> string + gval list"

definition FindByID :: "scanner_fun \<Rightarrow> 'd db outcome \<Rightarrow> table \<Rightarrow> int \<Rightarrow> 'd \<Rightarrow> (gval list, 'd) op" where
  "FindByID scan poolo t i d =
     bind_outcome poolo (\<lambda>pool.
       (case query_row pool (selectOneSQL t) [int64_arg i] d of (row, d') \<Rightarrow> Return (scan t row, d')))"

definition FindOne ::
  "scanner_fun \<Rightarrow> 'd db outcome \<Rightarrow> table \<Rightarrow> dbval where_builder option \<Rightarrow> 'd \<Rightarrow> (gval list, 'd) op" where
  "FindOne scan poolo t wb d =
     bind_outcome poolo (\<lambda>pool.
       (let (whereClause, whereArgs) = where_sql wb 1;
            query = ''SELECT '' @ allColumnSQL t @ '' FROM '' @ quoted (t_name t) @ whereClause @ '' LIMIT 1''
        in case query_row pool query whereArgs d of (row, d') \<Rightarrow> Return (scan t row, d')))"

text \<open>\<open>scanRows\<close> with the bundled parameters, over the result of \<open>Query\<close>.\<close>

definition find_rows ::
  "(table \<Rightarrow> (string + cell list) list \<Rightarrow> string option \<Rightarrow> string + gval list list) \<Rightarrow> 'd db \<Rightarrow> table \<Rightarrow>
   string \<Rightarrow> dbval list \<Rightarrow> 'd \<Rightarrow> (string + gval list list) \<times> 'd" where
  "find_rows scan_all pool t query args d =
     (case query_rows pool query args d of
        (Inl e, d') \<Rightarrow> (Inl e, d')
      | (Inr (rows, rowsErr), d') \<Rightarrow> (scan_all t rows rowsErr, d'))"

definition select_sql :: "table \<Rightarrow> string" where
  "select_sql t = ''SELECT '' @ allColumnSQL t @ '' FROM '' @ t_name t"

definition Find ::
  "(table \<Rightarrow> (string + cell list) list \<Rightarrow> string option \<Rightarrow> string + gval list list) \<Rightarrow> 'd db outcome \<Rightarrow> table \<Rightarrow>
   dbval where_builder option \<Rightarrow> 'd \<Rightarrow> (gval list list, 'd) op" where
  "Find scan_all poolo t wb d =
     bind_outcome poolo (\<lambda>pool.
       (let (whereClause, whereArgs) = where_sql wb 1
        in Return (find_rows scan_all pool t (select_sql t @ whereClause) whereArgs d)))"

text \<open>\<open>wb.conditions\<close> of a nil builder panics.\<close>

definition Count :: "'d db outcome \<Rightarrow> table \<Rightarrow> dbval where_builder option \<Rightarrow> 'd \<Rightarrow> (int, 'd) op" where
  "Count poolo t wbo d =
     bind_outcome poolo (\<lambda>pool.
       (case wbo of
          None \<Rightarrow> Panic ''nil pointer dereference''
        | Some wb \<Rightarrow>
            (let newWb = empty_where\<lparr>conditions := conditions wb, w_args := w_args wb\<rparr>;
                 (whereClause, whereArgs) = where_sql (Some newWb) 1;
                 (row, d') = query_row pool (''SELECT COUNT(*) FROM '' @ t_name t @ whereClause) whereArgs d
             in Return (scan_int row, d'))))"

text \<open>Go's \<open>int\<close> arithmetic.\<close>

definition int64 :: "int \<Rightarrow> int" where
  "int64 i = signed_take_bit 63 i"

record page_result =
  Total :: int
  Items :: "gval list list"

definition page_where :: "dbval where_builder \<Rightarrow> int \<Rightarrow> int \<Rightarrow> dbval where_builder" where
  "page_where wb page pageSize =
     (let dataWb = \<lparr>conditions = conditions wb, w_args = w_args wb, orderBy = orderBy wb,
            w_limit = pageSize, w_offset = int64 (int64 (page - 1) * pageSize)\<rparr>
      in if orderBy dataWb = '''' then dataWb\<lparr>orderBy := ''id ASC''\<rparr> else dataWb)"

definition FindPage ::
  "(table \<Rightarrow> (string + cell list) list \<Rightarrow> string option \<Rightarrow> string + gval list list) \<Rightarrow> 'd db outcome \<Rightarrow> table \<Rightarrow>
   dbval where_builder option \<Rightarrow> int \<Rightarrow> int \<Rightarrow> 'd \<Rightarrow> (page_result, 'd) op" where
  "FindPage scan_all poolo t wbo page0 pageSize0 d =
     (let page = (if page0 < 1 then 1 else page0);
          pageSize = (if pageSize0 < 1 then 10 else pageSize0)
      in bind_outcome poolo (\<lambda>pool.
         bind_outcome (Count poolo t wbo d) (\<lambda>(count, d1).
           case (count, wbo) of
             (Inl e, _) \<Rightarrow> Return (Inl e, d1)
           | (Inr _, None) \<Rightarrow> Panic ''nil pointer dereference''
           | (Inr n, Some wb) \<Rightarrow>
               if n = 0 then Return (Inr \<lparr>Total = n, Items = []\<rparr>, d1)
               else
                 (let (dataClause, dataArgs) = where_sql (Some (page_where wb page pageSize)) 1 in
                  case find_rows scan_all pool t (select_sql t @ dataClause) dataArgs d1 of
                    (Inl e, d2) \<Rightarrow> Return (Inl e, d2)
                  | (Inr items, d2) \<Rightarrow> Return (Inr \<lparr>Total = n, Items = items\<rparr>, d2)))))"

section \<open>Updates\<close>

fun update_sets :: "nat \<Rightarrow> fieldMeta list \<Rightarrow> string list" where
  "update_sets i [] = []"
| "update_sets i (f # fs) = (DBName f @ '' = $'' @ dec (i + 1)) # update_sets (i + 1) fs"

definition UpdateByID ::
  "(gtype \<Rightarrow> bool) \<Rightarrow> (gtype \<Rightarrow> gval \<Rightarrow> string + dbval) \<Rightarrow> (gtype \<Rightarrow> gval \<Rightarrow> string + string) \<Rightarrow>
   'd db outcome \<Rightarrow> table \<Rightarrow> gval list \<Rightarrow> 'd \<Rightarrow> (unit, 'd) op" where
  "UpdateByID valuer call_value marshal poolo t entity d =
     bind_outcome poolo (\<lambda>pool.
       (case entity ! Index (pkField t) of
          VInt i \<Rightarrow>
            if i = 0 then Return (Inl ''UpdateByID: entity id must not be zero'', d)
            else
              (case extractArgsByFields valuer call_value marshal entity (insertFields t) of
                 Inl e \<Rightarrow> Return (Inl e, d)
               | Inr args \<Rightarrow>
                   (let query = ''UPDATE '' @ t_name t @ '' SET '' @ join '', '' (update_sets 0 (insertFields t)) @
                          '' WHERE id = $'' @ dec (length (insertFields t) + 1)
                    in case db_exec pool query (args @ [int64_arg i]) d of
                         (Inl e, d') \<Rightarrow> Return (Inl e, d')
                       | (Inr rowsAffected, d') \<Rightarrow>
                           if rowsAffected = 0 then Return (Inl ''UpdateByID: no rows affected'', d')
                           else Return (Inr (), d')))
        | _ \<Rightarrow> Panic ''reflect: call of Int''))"

definition table_Update ::
  "'d db outcome \<Rightarrow> table \<Rightarrow> update_builder option \<Rightarrow> dbval where_builder option \<Rightarrow> 'd \<Rightarrow> (nat, 'd) op" where
  "table_Update poolo t ubo wbo d =
     (if ubo = None \<or> ubo = Some [] then Return (Inl ''Update: nothing to set'', d)
      else if (case wbo of None \<Rightarrow> True | Some wb \<Rightarrow> conditions wb = []) then
        Return (Inl ''Update: where condition is required to prevent full table update'', d)
      else
        bind_outcome poolo (\<lambda>pool.
        bind_outcome (update_sql ubo 1) (\<lambda>(setClause, setArgs, nextIdx).
          (let (whereClause, whereArgs) = where_sql wbo nextIdx;
               query = ''UPDATE '' @ t_name t @ '' '' @ setClause @ whereClause
           in Return (db_exec pool query (setArgs @ whereArgs) d)))))"

end
