(* ===== verification/Pg_Operation_Props.thy ===== *)
theory Pg_Operation_Props
  imports Pg_Operation
begin

text \<open>
  The operations of a table send statements that mean what they should: each value goes to the
  column it belongs to and each argument to the condition it was given with. Texts that come from
  the program, the names of tables and columns, are assumed to contain no \<open>$\<close>.
\<close>

section \<open>Statements\<close>

definition plain_table :: "table \<Rightarrow> bool" where
  "plain_table t \<longleftrightarrow> plain (t_name t) \<and> plain (DBName (pkField t)) \<and>
     list_all (\<lambda>f. plain (DBName f)) (t_fields t) \<and> list_all (\<lambda>f. plain (DBName f)) (insertFields t)"

lemma plain_join: "plain sep \<Longrightarrow> list_all plain xs \<Longrightarrow> plain (join sep xs)"
  by (induction xs rule: induct_list012) auto

lemma plain_columnSQL: "list_all (\<lambda>f. plain (DBName f)) fs \<Longrightarrow> plain (columnSQL fs)"
  unfolding columnSQL_def by (intro plain_join) (simp_all add: list_all_iff)

lemma plain_select: "plain_table t \<Longrightarrow> plain (select_sql t)"
  using plain_columnSQL [of "t_fields t"]
  by (simp add: plain_table_def select_sql_def allColumnSQL_def columnSQL_def)

lemma plain_insertColumns:
  "plain_table t \<Longrightarrow> list_all (\<lambda>f. plain (DBName f)) (insertColumns t includePK)"
  by (simp add: plain_table_def insertColumns_def)

lemma extractArgs_length:
  "extractArgsByFields valuer call_value marshal e fs = Inr args \<Longrightarrow> length args = length fs"
  using extractArgs_nth by blast

lemma batch_args_rows:
  "batch_args valuer call_value marshal flds es = Inr allArgs \<Longrightarrow>
   \<exists>rows. allArgs = concat rows \<and> length rows = length es \<and> list_all (\<lambda>r. length r = length flds) rows \<and>
     (\<forall>i < length es. extractArgsByFields valuer call_value marshal (es ! i) flds = Inr (rows ! i))"
proof (induction es arbitrary: allArgs)
  case (Cons e es)
  then obtain r rest where r: "extractArgsByFields valuer call_value marshal e flds = Inr r"
    "batch_args valuer call_value marshal flds es = Inr rest" "allArgs = r @ rest"
    by (auto split: sum.splits simp: map_sum_def)
  from Cons.IH [OF r(2)] obtain rows where rows: "rest = concat rows" "length rows = length es"
    "list_all (\<lambda>r. length r = length flds) rows"
    "\<forall>i < length es. extractArgsByFields valuer call_value marshal (es ! i) flds = Inr (rows ! i)" by blast
  with r extractArgs_length [OF r(1)] show ?case
    by (intro exI [of _ "r # rows"]) (auto simp: nth_Cons split: nat.splits)
qed simp

definition insert_meaning :: "string \<Rightarrow> fieldMeta list \<Rightarrow> 'v list list \<Rightarrow> 'v token list" where
  "insert_meaning tableName flds rows =
     texts (''INSERT INTO '' @ tableName @ '' ('' @ columnSQL flds @ '') VALUES '') @
     values_meaning rows @ texts '' RETURNING id''"

lemma fill_insert:
  assumes "plain tableName" "list_all (\<lambda>f. plain (DBName f)) flds"
    and "list_all (\<lambda>r. length r = length flds) rows"
  shows "fill (concat rows) (insert_sql tableName flds (length rows)) = insert_meaning tableName flds rows"
proof -
  have p: "plain (''INSERT INTO '' @ tableName @ '' ('' @ columnSQL flds @ '') VALUES '')"
    using assms(1) plain_columnSQL [OF assms(2)] by simp
  have "no_digit '' RETURNING id''" by (simp add: is_digit_def)
  from fill_append [OF this, of "concat rows" "buildValuesSQL (length rows) (length flds)"]
  have "fill (concat rows) (buildValuesSQL (length rows) (length flds) @ '' RETURNING id'') =
      values_meaning rows @ texts '' RETURNING id''"
    using fill_values [OF assms(3)] by (simp add: fill_plain)
  with fill_plain_append [OF p, of "concat rows"] show ?thesis
    unfolding insert_sql_def insert_meaning_def by (metis append.assoc)
qed

section \<open>Properties\<close>

text \<open>
  C1: \<open>Update\<close> sends one statement whose \<open>SET\<close> part gives each column its own value and whose
  \<open>WHERE\<close> part gives each condition its own arguments, although both builders number their
  placeholders from \<open>$1\<close>; it returns what the database answers.
\<close>

theorem update_means_its_builders:
  assumes "update_ok ub" "where_ok wb" "conditions wb \<noteq> []" "plain (t_name t)"
  shows "\<exists>query args. table_Update (Return pool) t (Some ub) (Some wb) d = Return (db_exec pool query args d) \<and>
    args = concat (map s_args ub) @ w_args wb \<and>
    fill args query = texts (''UPDATE '' @ t_name t @ '' '') @ update_meaning ub @ where_meaning wb"
proof -
  obtain s where s: "update_sql (Some ub) 1 =
      Return (s, concat (map s_args ub), 1 + length (concat (map s_args ub)))"
    using update_sql_ok [OF assms(1), of "[]" "[]"] by auto
  let ?a = "concat (map s_args ub)"
  obtain s' vs where s': "where_sql (Some wb) (1 + length ?a) = (s', vs)" by fastforce
  have vs: "vs = w_args wb" using s' assms(3) by (simp add: where_clause_split)
  have b: "update_build ub 1 = (s, ?a)" using s by (simp add: update_build_def)
  have "plain (''UPDATE '' @ t_name t @ '' '')" using assms(4) by simp
  from update_where.statement_fill [OF assms(1,2) b _ this] s'
  have "fill (?a @ vs) ((''UPDATE '' @ t_name t @ '' '') @ s @ s') =
      texts (''UPDATE '' @ t_name t @ '' '') @ update_meaning ub @ where_meaning wb" by simp
  moreover have "ub \<noteq> []" using assms(1) by (simp add: update_ok_def)
  then have "table_Update (Return pool) t (Some ub) (Some wb) d =
      Return (db_exec pool ((''UPDATE '' @ t_name t @ '' '') @ s @ s') (?a @ vs) d)"
    using assms(3) s s' by (simp add: table_Update_def del: map_append)
  ultimately show ?thesis using vs by blast
qed

definition demo_db :: "(string \<times> dbval list) list db" where
  "demo_db = \<lparr>query_row = (\<lambda>q a d. (Inr [CInt 1], (q, a) # d)),
     query_rows = (\<lambda>q a d. (Inr ([Inr [CInt 1], Inr [CInt 2]], None), (q, a) # d)),
     db_exec = (\<lambda>q a d. (Inr 1, (q, a) # d))\<rparr>"

theorem update_means_its_builders_witness:
  "\<exists>query args. table_Update (Return demo_db) user_table
       (Some [\<lparr>column = ''Name'', expr = '''', s_args = [DTime 1]\<rparr>,
              \<lparr>column = '''', expr = ''age = age + $1'', s_args = [DTime 2]\<rparr>])
       (Some (Where ''id = $1'' [DTime 3])) [] = Return (Inr 1, [(query, args)]) \<and>
     fill args query = texts ''UPDATE users SET Name = '' @ [Value (DTime 1)] @ texts '', age = age + '' @
       [Value (DTime 2)] @ texts '' WHERE id = '' @ [Value (DTime 3)]"
proof -
  let ?ub = "[\<lparr>column = ''Name'', expr = '''', s_args = [DTime 1]\<rparr>,
              \<lparr>column = '''', expr = ''age = age + $1'', s_args = [DTime 2]\<rparr>]"
  let ?wb = "Where ''id = $1'' [DTime 3]"
  have wb: "?wb = \<lparr>conditions = [''id = $1''], w_args = [DTime 3], orderBy = '''', w_limit = 0, w_offset = 0\<rparr>"
    by (simp add: Where_def wb_and_def empty_where_def)
  have name: "t_name user_table = ''users''"
    using table_description [of no_methods no_methods user_type "''users''"] by (simp add: user_table)
  have 1: "update_ok ?ub" by (simp add: update_ok_def entry_ok_def single_hole_def)
  have 2: "where_ok ?wb" "conditions ?wb \<noteq> []" by (simp_all add: wb where_ok_def)
  have 3: "plain (t_name user_table)" by (simp add: name)
  have m: "update_meaning ?ub = texts ''SET Name = '' @ [Value (DTime 1)] @ texts '', age = age + '' @ [Value (DTime 2)]"
    "where_meaning ?wb = texts '' WHERE id = '' @ [Value (DTime 3)]"
    by (simp_all add: update_meaning_def entry_meaning_def where_meaning_def where_tail_def wb is_digit_def)
  from update_means_its_builders [OF 1 2 3, of demo_db "[]"] obtain query args where
    q: "table_Update (Return demo_db) user_table (Some ?ub) (Some ?wb) [] = Return (db_exec demo_db query args [])"
    "fill args query = texts (''UPDATE '' @ t_name user_table @ '' '') @ update_meaning ?ub @ where_meaning ?wb"
    by blast
  have "db_exec demo_db query args [] = (Inr 1, [(query, args)])" by (simp add: demo_db_def)
  with q(1) have "table_Update (Return demo_db) user_table (Some ?ub) (Some ?wb) [] = Return (Inr 1, [(query, args)])"
    by metis
  moreover have "fill args query = texts ''UPDATE users SET Name = '' @ [Value (DTime 1)] @ texts '', age = age + '' @
       [Value (DTime 2)] @ texts '' WHERE id = '' @ [Value (DTime 3)]"
    unfolding q(2) m name by simp
  ultimately show ?thesis by blast
qed

text \<open>
  \<open>Update\<close> never touches a whole table: without a value to set, or without a condition, it
  returns an error before it looks for a pool, and the database is not asked.
\<close>

theorem update_needs_a_condition:
  assumes "ubo = None \<or> ubo = Some [] \<or> (\<forall>wb. wbo = Some wb \<longrightarrow> conditions wb = [])"
  shows "\<exists>e. table_Update poolo t ubo wbo d = Return (Inl e, d)"
  using assms by (cases wbo) (auto simp: table_Update_def)

theorem update_needs_a_condition_witness:
  "\<exists>e. table_Update (Return demo_db) user_table (Some [\<lparr>column = ''Name'', expr = '''', s_args = [DTime 1]\<rparr>])
     (Some (OrderBy ''id'')) [] = Return (Inl e, [])"
  by (rule update_needs_a_condition) (simp add: OrderBy_def wb_orderBy_def empty_where_def)

text \<open>
  \<open>InsertOne\<close> sends one row that names exactly the columns it gives values for, in the same
  order: all mapped fields but the key, and the key first when the entity has one. On success the
  entity gets the id the database returns and is otherwise unchanged; when a value cannot be
  converted, or the database fails, it returns the error.
\<close>

theorem insert_one_statement:
  assumes "plain_table t"
    and "flds = (if entity ! Index (pkField t) = VInt 0 then insertFields t else pkField t # insertFields t)"
    and "extractArgsByFields valuer call_value marshal entity flds = Inr args"
  shows "\<exists>query. fill args query = insert_meaning (quoted (t_name t)) flds [args] \<and>
    length args = length flds \<and>
    InsertOne valuer call_value marshal (Return pool) t entity d =
      (case query_row pool query args d of
         (row, d') \<Rightarrow>
           Return (case scan_int row of
                     Inl e \<Rightarrow> Inl e
                   | Inr i \<Rightarrow> Inr (entity[Index (pkField t) := VInt i]), d'))"
proof -
  have flds: "insertColumns t (hasExplicitPK t entity) = flds"
    by (simp add: insertColumns_def hasExplicitPK_def assms(2))
  have len: "length args = length flds" by (rule extractArgs_length [OF assms(3)])
  have "plain (quoted (t_name t))" using assms(1) by (simp add: quoted_def plain_table_def)
  moreover have "list_all (\<lambda>f. plain (DBName f)) flds"
    using plain_insertColumns [OF assms(1)] flds by metis
  ultimately have "fill args (insert_sql (quoted (t_name t)) flds 1) = insert_meaning (quoted (t_name t)) flds [args]"
    using fill_insert [of "quoted (t_name t)" flds "[args]"] len by simp
  moreover have "InsertOne valuer call_value marshal (Return pool) t entity d =
      (case query_row pool (insert_sql (quoted (t_name t)) flds 1) args d of
         (row, d') \<Rightarrow>
           Return (case scan_int row of
                     Inl e \<Rightarrow> Inl e
                   | Inr i \<Rightarrow> Inr (entity[Index (pkField t) := VInt i]), d'))"
    using assms(3) flds by (simp add: InsertOne_def Let_def split: prod.splits sum.splits)
  ultimately show ?thesis using len by blast
qed

lemma user_table_fields:
  "insertFields user_table = map (\<lambda>i. field_meta no_methods no_methods i (sfields user_type ! i)) [2, 3, 4]"
  "pkField user_table = field_meta no_methods no_methods 0 (sfields user_type ! 0)"
  "t_name user_table = ''users''"
  by (simp_all add: user_table_def build_table_def user_type_def table_loop.simps Let_def)

lemma user_table_plain: "plain_table user_table"
  by (simp add: plain_table_def user_table_fields metas_user) (simp add: user_type_def mapped_def)

theorem insert_one_statement_witness:
  "\<exists>query args. fill args query =
     texts ''INSERT INTO \"users\" (Name, age, tags) VALUES ('' @ [Value (DRaw (TString ''string'') (VString ''bob''))] @
     texts '', '' @ [Value DNil] @ texts '', '' @ [Value DNil] @ texts '') RETURNING id'' \<and>
   InsertOne no_methods (\<lambda>_ _. Inl '''') example_marshal (Return demo_db) user_table
     [VInt 0, VOther '''', VString ''bob'', VNil, VNil] [] =
     Return (Inr [VInt 1, VOther '''', VString ''bob'', VNil, VNil], [(query, args)])"
proof -
  let ?e = "[VInt 0, VOther '''', VString ''bob'', VNil, VNil]"
  let ?args = "[DRaw (TString ''string'') (VString ''bob''), DNil, DNil]"
  have 1: "insertFields user_table =
      (if ?e ! Index (pkField user_table) = VInt 0 then insertFields user_table
       else pkField user_table # insertFields user_table)"
    by (simp add: user_table_fields)
  have 2: "extractArgsByFields no_methods (\<lambda>_ _. Inl '''') example_marshal ?e (insertFields user_table) = Inr ?args"
    by (simp add: user_table_fields user_type_def value_of_def timeType_def bytesType_def)
  from insert_one_statement [OF user_table_plain 1 2, of demo_db "[]"] obtain query where
    q: "fill ?args query = insert_meaning (quoted (t_name user_table)) (insertFields user_table) [?args]"
    "InsertOne no_methods (\<lambda>_ _. Inl '''') example_marshal (Return demo_db) user_table ?e [] =
      (case query_row demo_db query ?args [] of
         (row, d') \<Rightarrow>
           Return (case scan_int row of
                     Inl e \<Rightarrow> Inl e
                   | Inr i \<Rightarrow> Inr (?e[Index (pkField user_table) := VInt i]), d'))" by blast
  have "InsertOne no_methods (\<lambda>_ _. Inl '''') example_marshal (Return demo_db) user_table ?e [] =
      Return (Inr [VInt 1, VOther '''', VString ''bob'', VNil, VNil], [(query, ?args)])"
    unfolding q(2) by (simp add: demo_db_def user_table_fields)
  moreover have "insert_meaning (quoted (t_name user_table)) (insertFields user_table) [?args] =
      texts ''INSERT INTO \"users\" (Name, age, tags) VALUES ('' @ [Value (DRaw (TString ''string'') (VString ''bob''))] @
      texts '', '' @ [Value DNil] @ texts '', '' @ [Value DNil] @ texts '') RETURNING id''"
    by (simp add: insert_meaning_def values_meaning_def columnSQL_def user_table_fields user_type_def quoted_def)
  ultimately show ?thesis using q(1) by metis
qed

lemma assign_ids_ok:
  "length ids \<le> length entities \<Longrightarrow> distinct entities \<Longrightarrow>
   \<exists>st'. assign_ids pk (map (\<lambda>i. Inr [CInt i]) ids) None entities st = Return (None, st') \<and>
     (\<forall>k < length ids. st' (entities ! k) = (st (entities ! k))[pk := VInt (ids ! k)]) \<and>
     (\<forall>a. a \<notin> set (take (length ids) entities) \<longrightarrow> st' a = st a)"
proof (induction ids arbitrary: entities st)
  case (Cons i ids)
  then obtain a as where e: "entities = a # as" by (cases entities) auto
  let ?st = "st(a := (st a)[pk := VInt i])"
  have "length ids \<le> length as" "distinct as" using Cons.prems e by simp_all
  from Cons.IH [OF this, of ?st] obtain st' where
    st': "assign_ids pk (map (\<lambda>i. Inr [CInt i]) ids) None as ?st = Return (None, st')"
    "\<And>k. k < length ids \<Longrightarrow> st' (as ! k) = (?st (as ! k))[pk := VInt (ids ! k)]"
    "\<And>x. x \<notin> set (take (length ids) as) \<Longrightarrow> st' x = ?st x" by blast
  have "a \<notin> set (take (length ids) as)" using Cons.prems(2) e in_set_takeD by fastforce
  then have "st' a = (st a)[pk := VInt i]" using st'(3) [of a] by simp
  moreover have "st' (as ! k) = (st (as ! k))[pk := VInt (ids ! k)]" if "k < length ids" for k
  proof -
    have "k < length as" using that Cons.prems(1) e by simp
    then have "as ! k \<noteq> a" using Cons.prems(2) e nth_mem [of k as] by auto
    with st'(2) [OF that] show ?thesis by simp
  qed
  ultimately show ?case using st'(1,3) e
    by (intro exI [of _ st']) (auto simp: nth_Cons split: nat.splits)
qed simp

lemma assign_ids_panics:
  "length entities < length ids \<Longrightarrow>
   assign_ids pk (map (\<lambda>i. Inr [CInt i]) ids) err0 entities st = Panic ''index out of range''"
proof (induction ids arbitrary: entities st)
  case (Cons i ids)
  then show ?case by (cases entities) auto
qed simp

text \<open>
  C19: a batch insert sends all its entities in one statement, one row of values per entity, in
  order. If the database returns the ids in that order, the \<open>k\<close>-th entity gets the \<open>k\<close>-th id, also
  when there are fewer, and no other entity changes; if it returns more ids than there are
  entities, the loop runs past the slice and panics.
\<close>

theorem batch_assigns_ids:
  assumes "plain_table t" "distinct entities" "flds = insertColumns t includePK"
    and "batch_args valuer call_value marshal flds (map st entities) = Inr allArgs"
    and "query_rows pool (insert_sql (t_name t) flds (length entities)) allArgs d
           = (Inr (map (\<lambda>i. Inr [CInt i]) ids, None), d')"
  shows "(\<exists>rows. fill allArgs (insert_sql (t_name t) flds (length entities)) = insert_meaning (t_name t) flds rows \<and>
      length rows = length entities \<and>
      (\<forall>i < length entities. extractArgsByFields valuer call_value marshal (st (entities ! i)) flds = Inr (rows ! i))) \<and>
    (if length ids \<le> length entities
     then \<exists>st'. insertManyBatch valuer call_value marshal (Return pool) t entities includePK st d = Return (None, st', d') \<and>
       (\<forall>k < length ids. st' (entities ! k) = (st (entities ! k))[Index (pkField t) := VInt (ids ! k)]) \<and>
       (\<forall>a. a \<notin> set (take (length ids) entities) \<longrightarrow> st' a = st a)
     else insertManyBatch valuer call_value marshal (Return pool) t entities includePK st d = Panic ''index out of range'')"
proof (rule conjI)
  obtain rows where rows: "allArgs = concat rows" "length rows = length (map st entities)"
    "list_all (\<lambda>r. length r = length flds) rows"
    "\<forall>i < length (map st entities). extractArgsByFields valuer call_value marshal (map st entities ! i) flds = Inr (rows ! i)"
    using batch_args_rows [OF assms(4)] by blast
  have "list_all (\<lambda>f. plain (DBName f)) flds" using plain_insertColumns [OF assms(1)] assms(3) by simp
  moreover have "plain (t_name t)" using assms(1) by (simp add: plain_table_def)
  ultimately have "fill allArgs (insert_sql (t_name t) flds (length entities)) = insert_meaning (t_name t) flds rows"
    using fill_insert [of "t_name t" flds rows] rows by simp
  with rows show "\<exists>rows. fill allArgs (insert_sql (t_name t) flds (length entities)) = insert_meaning (t_name t) flds rows \<and>
      length rows = length entities \<and>
      (\<forall>i < length entities. extractArgsByFields valuer call_value marshal (st (entities ! i)) flds = Inr (rows ! i))"
    by (intro exI [of _ rows]) simp
  have batch: "insertManyBatch valuer call_value marshal (Return pool) t entities includePK st d =
      bind_outcome (assign_ids (Index (pkField t)) (map (\<lambda>i. Inr [CInt i]) ids) None entities st)
        (\<lambda>(e, st'). Return (e, st', d'))"
    using assms(3-5) by (simp add: insertManyBatch_def Let_def)
  show "if length ids \<le> length entities
     then \<exists>st'. insertManyBatch valuer call_value marshal (Return pool) t entities includePK st d = Return (None, st', d') \<and>
       (\<forall>k < length ids. st' (entities ! k) = (st (entities ! k))[Index (pkField t) := VInt (ids ! k)]) \<and>
       (\<forall>a. a \<notin> set (take (length ids) entities) \<longrightarrow> st' a = st a)
     else insertManyBatch valuer call_value marshal (Return pool) t entities includePK st d = Panic ''index out of range''"
    using assign_ids_ok [OF _ assms(2), of ids "Index (pkField t)" st]
      assign_ids_panics [of entities ids "Index (pkField t)" None st]
    unfolding batch by (auto simp: not_le)
qed

theorem batch_assigns_ids_witness:
  "\<exists>st' d'. insertManyBatch no_methods (\<lambda>_ _. Inl '''') example_marshal (Return demo_db) user_table [3, 8] False
     (\<lambda>a. [VInt 0, VOther '''', VString ''bob'', VNil, VNil]) [] = Return (None, st', d') \<and>
   st' 3 = [VInt 1, VOther '''', VString ''bob'', VNil, VNil] \<and>
   st' 8 = [VInt 2, VOther '''', VString ''bob'', VNil, VNil]"
proof -
  let ?e = "[VInt 0, VOther '''', VString ''bob'', VNil, VNil]"
  let ?row = "[DRaw (TString ''string'') (VString ''bob''), DNil, DNil]"
  have 1: "distinct [3::nat, 8]" by simp
  have 2: "batch_args no_methods (\<lambda>_ _. Inl '''') example_marshal (insertColumns user_table False)
      (map (\<lambda>a. ?e) [3::nat, 8]) = Inr (?row @ ?row)"
    by (simp add: insertColumns_def user_table_fields user_type_def value_of_def timeType_def bytesType_def)
  have 3: "query_rows demo_db (insert_sql (t_name user_table) (insertColumns user_table False) (length [3::nat, 8]))
      (?row @ ?row) [] = (Inr (map (\<lambda>i. Inr [CInt i]) [1, 2], None),
        [(insert_sql (t_name user_table) (insertColumns user_table False) (length [3::nat, 8]), ?row @ ?row)])"
    by (simp add: demo_db_def)
  from batch_assigns_ids [OF user_table_plain 1 refl 2 3] obtain st' where
    st': "insertManyBatch no_methods (\<lambda>_ _. Inl '''') example_marshal (Return demo_db) user_table [3, 8] False
        (\<lambda>a. ?e) [] = Return (None, st', [(insert_sql (t_name user_table) (insertColumns user_table False)
          (length [3::nat, 8]), ?row @ ?row)])"
    "\<forall>k < 2. st' ([3, 8] ! k) = ?e[Index (pkField user_table) := VInt ([1, 2] ! k)]"
    by auto
  from st'(2) [rule_format, of 0] st'(2) [rule_format, of 1] st'(1) show ?thesis
    by (intro exI [of _ st'] exI [of _ "[(insert_sql (t_name user_table) (insertColumns user_table False)
          (length [3::nat, 8]), ?row @ ?row)]"]) (simp add: user_table_fields)
qed

text \<open>
  C26: \<open>FindPage\<close> reads the window of its page. When the count is not zero and the offset is in the
  range of an \<open>int\<close>, it selects with the conditions of its builder, in the builder's order or by id
  when it has none, the \<open>pageSize\<close> rows behind the first \<open>(page - 1) * pageSize\<close>; a page below one
  is the first page and a size below one is ten. The builder's own limit and offset do not count.
\<close>

theorem find_page_window:
  assumes "plain_table t" "where_ok wb"
    and "page = max 1 page0" "rows = (if size0 < 1 then 10 else size0)" "(page - 1) * rows < 2 ^ 63"
    and "Count (Return pool) t (Some wb) d = Return (Inr n, d1)" "n \<noteq> 0"
  shows "\<exists>query. fill (w_args wb) query =
      texts (select_sql t) @
      (if conditions wb = [] then []
       else texts '' WHERE '' @ fill_seq (w_args wb) (join '' AND '' (conditions wb))) @
      texts ('' ORDER BY '' @ (if orderBy wb = '''' then ''id ASC'' else orderBy wb) @
        '' LIMIT '' @ dec (nat rows) @
        (if page = 1 then '''' else '' OFFSET '' @ dec (nat ((page - 1) * rows)))) \<and>
    FindPage scan_all (Return pool) t (Some wb) page0 size0 d =
      Return (case find_rows scan_all pool t query (w_args wb) d1 of
                (Inl e, d2) \<Rightarrow> (Inl e, d2)
              | (Inr items, d2) \<Rightarrow> (Inr \<lparr>Total = n, Items = items\<rparr>, d2))"
proof -
  have pos: "1 \<le> page" "1 \<le> rows" using assms(3,4) by auto
  have le: "page - 1 \<le> (page - 1) * rows" using pos mult_left_mono [of 1 rows "page - 1"] by simp
  have i1: "int64 (page - 1) = page - 1"
    unfolding int64_def using pos le assms(5) by (intro signed_take_bit_int_eq_self) simp_all
  have i2: "int64 ((page - 1) * rows) = (page - 1) * rows"
    unfolding int64_def using pos le assms(5) by (intro signed_take_bit_int_eq_self) simp_all
  let ?wb = "page_where wb page rows"
  have f: "conditions ?wb = conditions wb" "w_args ?wb = w_args wb" "w_limit ?wb = rows"
    "w_offset ?wb = (page - 1) * rows"
    "orderBy ?wb = (if orderBy wb = '''' then ''id ASC'' else orderBy wb)"
    by (simp_all add: page_where_def Let_def i1 i2)
  have ok: "where_ok ?wb" using assms(2) by (simp add: where_ok_def f)
  obtain s vs where s: "where_sql (Some ?wb) 1 = (s, vs)" by fastforce
  have vs: "vs = w_args wb" using s pos by (simp add: where_clause_split f split: if_splits)
  have "fill vs (select_sql t @ s) = texts (select_sql t) @ where_meaning ?wb"
    using where_frag.frag_alone [OF ok _ plain_select [OF assms(1)]] s by simp
  moreover have "(page - 1) * rows \<le> 0 \<longleftrightarrow> page = 1" using pos le by auto
  then have "where_meaning ?wb =
      (if conditions wb = [] then []
       else texts '' WHERE '' @ fill_seq (w_args wb) (join '' AND '' (conditions wb))) @
      texts ('' ORDER BY '' @ (if orderBy wb = '''' then ''id ASC'' else orderBy wb) @
        '' LIMIT '' @ dec (nat rows) @
        (if page = 1 then '''' else '' OFFSET '' @ dec (nat ((page - 1) * rows))))"
    using pos unfolding where_meaning_def where_tail_def f by (auto simp: not_le)
  moreover have "FindPage scan_all (Return pool) t (Some wb) page0 size0 d =
      Return (case find_rows scan_all pool t (select_sql t @ s) vs d1 of
                (Inl e, d2) \<Rightarrow> (Inl e, d2)
              | (Inr items, d2) \<Rightarrow> (Inr \<lparr>Total = n, Items = items\<rparr>, d2))"
  proof -
    have p: "(if page0 < 1 then 1 else page0) = page" using assms(3) by simp
    show ?thesis
      unfolding FindPage_def Let_def p assms(4) [symmetric] using assms(6,7) s
      by (auto split: prod.splits sum.splits)
  qed
  ultimately show ?thesis using vs by (intro exI [of _ "select_sql t @ s"]) simp
qed

theorem find_page_window_witness:
  "\<exists>query. fill [DTime 5] query = texts ''SELECT id, Name, age, tags FROM users WHERE age > '' @ [Value (DTime 5)] @
       texts '' ORDER BY id ASC LIMIT 20 OFFSET 40'' \<and>
     FindPage (\<lambda>t rows e. Inr [[VInt 1]]) (Return demo_db) user_table (Some (Where ''age > $1'' [DTime 5])) 3 20 [] =
       Return (Inr \<lparr>Total = 1, Items = [[VInt 1]]\<rparr>,
         [(query, [DTime 5]), (''SELECT COUNT(*) FROM users WHERE age > $1'', [DTime 5])])"
proof -
  let ?wb = "Where ''age > $1'' [DTime 5]"
  let ?count = "(''SELECT COUNT(*) FROM users WHERE age > $1'', [DTime 5])"
  have wb: "?wb = \<lparr>conditions = [''age > $1''], w_args = [DTime 5], orderBy = '''', w_limit = 0, w_offset = 0\<rparr>"
    by (simp add: Where_def wb_and_def empty_where_def)
  have 2: "where_ok ?wb" by (simp add: wb where_ok_def)
  have r: "reindex 1 ''age > $1'' = (''age > $1'', 2)"
    using dec_1_2 by (simp add: is_digit_def)
  have 3: "Count (Return demo_db) user_table (Some ?wb) [] = Return (Inr 1, [?count])"
    using r by (simp add: Count_def wb where_sql_def where_tail_def empty_where_def demo_db_def user_table_fields)
  have d: "dec 20 = ''20''" "dec 40 = ''40''"
    by (simp_all add: dec.simps digit_char_def char_of_eq_iff)
  have m: "(3::int) = max 1 3" "(20::int) = (if (20::int) < 1 then 10 else 20)" "((3::int) - 1) * 20 < 2 ^ 63" "(1::int) \<noteq> 0"
    by simp_all
  from find_page_window [OF user_table_plain 2 m(1-3) 3 m(4), of "\<lambda>t rows e. Inr [[VInt 1]]"] obtain query where
    q: "fill (w_args ?wb) query =
      texts (select_sql user_table) @
      (if conditions ?wb = [] then []
       else texts '' WHERE '' @ fill_seq (w_args ?wb) (join '' AND '' (conditions ?wb))) @
      texts ('' ORDER BY '' @ (if orderBy ?wb = '''' then ''id ASC'' else orderBy ?wb) @
        '' LIMIT '' @ dec (nat 20) @
        (if (3::int) = 1 then '''' else '' OFFSET '' @ dec (nat ((3 - 1) * 20))))"
    "FindPage (\<lambda>t rows e. Inr [[VInt 1]]) (Return demo_db) user_table (Some ?wb) 3 20 [] =
      Return (case find_rows (\<lambda>t rows e. Inr [[VInt 1]]) demo_db user_table query (w_args ?wb) [?count] of
                (Inl e, d2) \<Rightarrow> (Inl e, d2)
              | (Inr items, d2) \<Rightarrow> (Inr \<lparr>Total = 1, Items = items\<rparr>, d2))" by blast
  have "select_sql user_table = ''SELECT id, Name, age, tags FROM users''"
    by (simp add: select_sql_def allColumnSQL_def metas_user user_table_fields(3)) (simp add: user_type_def mapped_def)
  with q(1) d have "fill [DTime 5] query = texts ''SELECT id, Name, age, tags FROM users WHERE age > '' @ [Value (DTime 5)] @
       texts '' ORDER BY id ASC LIMIT 20 OFFSET 40''"
    by (simp add: wb is_digit_def del: fill.simps)
  moreover have "FindPage (\<lambda>t rows e. Inr [[VInt 1]]) (Return demo_db) user_table (Some ?wb) 3 20 [] =
       Return (Inr \<lparr>Total = 1, Items = [[VInt 1]]\<rparr>, [(query, [DTime 5]), ?count])"
    unfolding q(2) by (simp add: find_rows_def demo_db_def wb)
  ultimately show ?thesis by (intro exI [of _ query]) blast
qed

text \<open>
  The offset of a page is computed in 64 bits and is not checked. When the product wraps to a
  number that is not positive, the \<open>OFFSET\<close> is left out, and a page far behind the last one answers
  with the rows of the first page, whatever the database holds.
\<close>

theorem find_page_wraps:
  assumes "1 \<le> page" "1 \<le> rows" "int64 (int64 (page - 1) * rows) \<le> 0"
  shows "FindPage scan_all poolo t wbo page rows d = FindPage scan_all poolo t wbo 1 rows d"
proof -
  have "where_sql (Some (page_where wb page rows)) 1 = where_sql (Some (page_where wb 1 rows)) 1" for wb
  proof -
    have "where_tail (page_where wb page rows) = where_tail (page_where wb 1 rows)"
      using assms(3) by (simp add: where_tail_def page_where_def Let_def int64_def)
    then show ?thesis using assms(2) by (simp add: where_clause_split page_where_def Let_def)
  qed
  note eq = this
  have w: "(if page < 1 then 1 else page) = page" "(if rows < 1 then 10 else rows) = rows"
    "(if (1::int) < 1 then 1 else 1) = (1::int)" using assms(1,2) by simp_all
  show ?thesis unfolding FindPage_def Let_def w eq by (rule refl)
qed

theorem find_page_wraps_witness:
  "FindPage (\<lambda>t rows e. Inr [[VInt 1]]) (Return demo_db) user_table (Some (OrderBy ''id'')) (2 ^ 60 + 1) 8 [] =
   FindPage (\<lambda>t rows e. Inr [[VInt 1]]) (Return demo_db) user_table (Some (OrderBy ''id'')) 1 8 []"
proof -
  have "1 \<le> (2 ^ 60 + 1 :: int)" "1 \<le> (8::int)" by simp_all
  moreover have "int64 (int64 ((2 ^ 60 + 1) - 1) * 8) \<le> 0"
    by (simp add: int64_def signed_take_bit_eq_if_positive signed_take_bit_eq_if_negative
        signed_take_bit_eq_take_bit_shift take_bit_eq_mod)
  ultimately show ?thesis by (rule find_page_wraps)
qed

text \<open>
  the operations do not agree on a nil builder. \<open>Find\<close> and \<open>FindOne\<close> read it as no condition;
  \<open>Count\<close> and \<open>FindPage\<close> panic on it.
\<close>

theorem nil_builder:
  "Find scan_all (Return pool) t None d = Return (find_rows scan_all pool t (select_sql t) [] d) \<and>
   FindOne scan (Return pool) t None d =
     (case query_row pool (''SELECT '' @ allColumnSQL t @ '' FROM '' @ quoted (t_name t) @ '' LIMIT 1'') [] d of
        (row, d') \<Rightarrow> Return (scan t row, d')) \<and>
   Count (Return pool) t None d = Panic ''nil pointer dereference'' \<and>
   FindPage scan_all (Return pool) t None page rows d = Panic ''nil pointer dereference''"
  by (simp add: Find_def FindOne_def Count_def FindPage_def where_sql_def Let_def)

lemma fill_update_sets:
  assumes "list_all (\<lambda>f. plain (DBName f)) fs" "length vs = length fs"
  shows "map (fill (pre @ vs @ post)) (update_sets (length pre) fs) =
    map2 (\<lambda>f v. texts (DBName f @ '' = '') @ [Value v]) fs vs"
  using assms
proof (induction fs arbitrary: pre vs)
  case (Cons f fs)
  then obtain v vs' where vs: "vs = v # vs'" by (cases vs) auto
  have "fill (pre @ vs @ post) (DBName f @ '' = $'' @ dec (length pre + 1)) = texts (DBName f @ '' = '') @ [Value v]"
    using fill_one [of "pre @ vs @ post" "length pre + 1"] Cons.prems(1) vs
    by (simp add: fill_plain_append argument_def nth_append del: fill.simps) (simp add: fill_plain_append)
  moreover have "map (fill ((pre @ [v]) @ vs' @ post)) (update_sets (length (pre @ [v])) fs) =
      map2 (\<lambda>f v. texts (DBName f @ '' = '') @ [Value v]) fs vs'"
    using Cons.IH [of vs' "pre @ [v]"] Cons.prems vs by simp
  ultimately show ?case using vs by simp
qed simp

text \<open>
  \<open>UpdateByID\<close> sets every mapped field but the key to the entity's value and restricts the
  statement to the entity's id; a zero id is refused without asking the database, and an update
  that affects no row is an error.
\<close>

theorem update_by_id_statement:
  assumes "plain_table t" "entity ! Index (pkField t) = VInt i"
    and "extractArgsByFields valuer call_value marshal entity (insertFields t) = Inr vs"
  shows "if i = 0 then \<exists>e. UpdateByID valuer call_value marshal (Return pool) t entity d = Return (Inl e, d)
    else \<exists>query. fill (vs @ [int64_arg i]) query =
        texts (''UPDATE '' @ t_name t @ '' SET '') @
        join (texts '', '') (map2 (\<lambda>f v. texts (DBName f @ '' = '') @ [Value v]) (insertFields t) vs) @
        texts '' WHERE id = '' @ [Value (int64_arg i)] \<and>
      UpdateByID valuer call_value marshal (Return pool) t entity d =
        (case db_exec pool query (vs @ [int64_arg i]) d of
           (r, d') \<Rightarrow> Return (case r of
               Inl e \<Rightarrow> Inl e
             | Inr k \<Rightarrow> if k = 0 then Inl ''UpdateByID: no rows affected'' else Inr (), d'))"
proof (cases "i = 0")
  case True
  then show ?thesis using assms(2) by (simp add: UpdateByID_def)
next
  case False
  have len: "length vs = length (insertFields t)" by (rule extractArgs_length [OF assms(3)])
  let ?args = "vs @ [int64_arg i]"
  let ?sets = "join '', '' (update_sets 0 (insertFields t))"
  let ?tail = "'' WHERE id = $'' @ dec (length (insertFields t) + 1)"
  let ?query = "''UPDATE '' @ t_name t @ '' SET '' @ ?sets @ ?tail"
  have sets: "fill ?args ?sets =
      join (texts '', '') (map2 (\<lambda>f v. texts (DBName f @ '' = '') @ [Value v]) (insertFields t) vs)"
    using fill_update_sets [of "insertFields t" vs "[]" "[int64_arg i]"] assms(1) len
    by (simp add: fill_join is_digit_def plain_table_def)
  have "fill ?args ?tail = texts '' WHERE id = '' @ [Value (int64_arg i)]"
    using fill_one [of ?args "length vs + 1"] len
    by (simp add: argument_def nth_append)
  moreover have "no_digit ?tail" by (simp add: is_digit_def)
  moreover have "plain (''UPDATE '' @ t_name t @ '' SET '')" using assms(1) by (simp add: plain_table_def)
  ultimately have "fill ?args ((''UPDATE '' @ t_name t @ '' SET '') @ ?sets @ ?tail) =
        texts (''UPDATE '' @ t_name t @ '' SET '') @
        join (texts '', '') (map2 (\<lambda>f v. texts (DBName f @ '' = '') @ [Value v]) (insertFields t) vs) @
        texts '' WHERE id = '' @ [Value (int64_arg i)]"
    using sets by (simp only: fill_plain_append fill_append)
  moreover have "UpdateByID valuer call_value marshal (Return pool) t entity d =
        (case db_exec pool ?query ?args d of
           (r, d') \<Rightarrow> Return (case r of
               Inl e \<Rightarrow> Inl e
             | Inr k \<Rightarrow> if k = 0 then Inl ''UpdateByID: no rows affected'' else Inr (), d'))"
    using False assms(2,3) by (simp add: UpdateByID_def Let_def split: prod.splits sum.splits)
  ultimately show ?thesis using False
    by (simp only: if_False append_assoc) (intro exI conjI, assumption, rule refl)
qed

theorem update_by_id_statement_witness:
  "\<exists>query. fill [DRaw (TString ''string'') (VString ''bob''), DNil, DNil, int64_arg 7] query =
      texts ''UPDATE users SET Name = '' @ [Value (DRaw (TString ''string'') (VString ''bob''))] @
      texts '', age = '' @ [Value DNil] @ texts '', tags = '' @ [Value DNil] @
      texts '' WHERE id = '' @ [Value (int64_arg 7)] \<and>
    UpdateByID no_methods (\<lambda>_ _. Inl '''') example_marshal (Return demo_db) user_table
      [VInt 7, VOther '''', VString ''bob'', VNil, VNil] [] =
      Return (Inr (), [(query, [DRaw (TString ''string'') (VString ''bob''), DNil, DNil, int64_arg 7])])"
proof -
  let ?e = "[VInt 7, VOther '''', VString ''bob'', VNil, VNil]"
  let ?vs = "[DRaw (TString ''string'') (VString ''bob''), DNil, DNil]"
  have 1: "?e ! Index (pkField user_table) = VInt 7" by (simp add: user_table_fields)
  have 2: "extractArgsByFields no_methods (\<lambda>_ _. Inl '''') example_marshal ?e (insertFields user_table) = Inr ?vs"
    by (simp add: user_table_fields user_type_def value_of_def timeType_def bytesType_def)
  from update_by_id_statement [OF user_table_plain 1 2, of demo_db "[]"] obtain query where
    q: "fill (?vs @ [int64_arg 7]) query =
        texts (''UPDATE '' @ t_name user_table @ '' SET '') @
        join (texts '', '') (map2 (\<lambda>f v. texts (DBName f @ '' = '') @ [Value v]) (insertFields user_table) ?vs) @
        texts '' WHERE id = '' @ [Value (int64_arg 7)]"
      "UpdateByID no_methods (\<lambda>_ _. Inl '''') example_marshal (Return demo_db) user_table ?e [] =
        (case db_exec demo_db query (?vs @ [int64_arg 7]) [] of
           (r, d') \<Rightarrow> Return (case r of
               Inl e \<Rightarrow> Inl e
             | Inr k \<Rightarrow> if k = 0 then Inl ''UpdateByID: no rows affected'' else Inr (), d'))"
    by auto
  have "UpdateByID no_methods (\<lambda>_ _. Inl '''') example_marshal (Return demo_db) user_table ?e [] =
      Return (Inr (), [(query, ?vs @ [int64_arg 7])])"
    unfolding q(2) by (simp add: demo_db_def)
  moreover have "join (texts '', '') (map2 (\<lambda>f v. texts (DBName f @ '' = '') @ [Value v]) (insertFields user_table) ?vs) =
      texts ''Name = '' @ [Value (DRaw (TString ''string'') (VString ''bob''))] @
      texts '', age = '' @ [Value DNil] @ texts '', tags = '' @ [Value DNil]"
    by (simp add: user_table_fields user_type_def)
  ultimately show ?thesis using q(1)
    by (intro exI [of _ query]) (simp add: user_table_fields(3) del: fill.simps)
qed

end
