(* ===== verification/Pg_Repository.thy ===== *)
theory Pg_Repository
  imports Pg_Operation_Props
begin

text \<open>
  A table is a repository. The tables of the database are seen as a map from ids to rows, a row as
  a map from column names to values; \<open>entities\<close> reads each row as \<open>FindByID\<close> would. If the database
  does what the statements mean (\<open>executes\<close>), then \<open>InsertOne\<close>, \<open>UpdateByID\<close> and \<open>FindByID\<close> are insertion,
  update and look-up on that map of entities. This ties the text of the statements, the numbering of
  their placeholders, the order of columns and arguments and the conversion of values in both
  directions together.
\<close>

section \<open>A database that executes statements\<close>

type_synonym row = "string \<rightharpoonup> dbval"

text \<open>The row an \<open>INSERT\<close> or \<open>UPDATE\<close> of these columns writes.\<close>

definition new_row :: "fieldMeta list \<Rightarrow> dbval list \<Rightarrow> row" where
  "new_row flds vs = map_of (zip (map DBName flds) vs)"

text \<open>
  The cells of a row, in the order of the table's columns; a column without a value is NULL, and the
  \<open>id\<close> is the key of the row.
\<close>

definition read_row :: "(fieldScanKind \<Rightarrow> dbval \<Rightarrow> cell) \<Rightarrow> table \<Rightarrow> int \<Rightarrow> row \<Rightarrow> cell list" where
  "read_row colm t i r =
     map (\<lambda>f. colm (ScanKind f)
            (if DBName f = ''id'' then DRaw (GoType f) (VInt i)
             else (case r (DBName f) of None \<Rightarrow> DNil | Some v \<Rightarrow> v)))
       (t_fields t)"

definition select_meaning :: "table \<Rightarrow> int \<Rightarrow> dbval token list" where
  "select_meaning t i =
     texts (''SELECT '' @ allColumnSQL t @ '' FROM \"'' @ t_name t @ ''\" WHERE id = '') @ [Value (int64_arg i)]"

definition update_by_id_meaning :: "table \<Rightarrow> dbval list \<Rightarrow> int \<Rightarrow> dbval token list" where
  "update_by_id_meaning t vs i =
     texts (''UPDATE '' @ t_name t @ '' SET '') @
     join (texts '', '') (map2 (\<lambda>f v. texts (DBName f @ '' = '') @ [Value v]) (insertFields t) vs) @
     texts '' WHERE id = '' @ [Value (int64_arg i)]"

text \<open>
  What a state of the database answers to the four statements, whatever their text, given what the
  text means with its arguments filled in: \<open>INSERT\<close> takes the id of the row from the sequence, or
  from the statement, and fails when it is taken; \<open>SELECT\<close> and \<open>UPDATE\<close> find the row of an id. A
  statement that fails changes nothing. \<open>rows\<close> reads the table out of a state. The table's name is
  the same whether it is quoted or not.
\<close>

definition inserts ::
  "('d \<Rightarrow> int \<rightharpoonup> row) \<Rightarrow> 'd \<Rightarrow> (string + cell list) \<times> 'd \<Rightarrow> int \<Rightarrow> row \<Rightarrow> bool" where
  "inserts rows d answer i r \<longleftrightarrow>
     - (2 ^ 63) \<le> i \<and> i < 2 ^ 63 \<and>
     (if rows d i \<noteq> None then (\<exists>e. fst answer = Inl e) \<and> rows (snd answer) = rows d
      else fst answer = Inr [CInt i] \<and> rows (snd answer) = (rows d)(i \<mapsto> r))"

definition executes ::
  "'d db \<Rightarrow> table \<Rightarrow> (fieldScanKind \<Rightarrow> dbval \<Rightarrow> cell) \<Rightarrow> ('d \<Rightarrow> int \<rightharpoonup> row) \<Rightarrow> 'd \<Rightarrow> bool" where
  "executes pool t colm rows d \<longleftrightarrow>
     (\<forall>q args vs. length vs = length (insertFields t) \<longrightarrow>
        fill args q = insert_meaning (quoted (t_name t)) (insertFields t) [vs] \<longrightarrow>
        (\<exists>i. inserts rows d (query_row pool q args d) i (new_row (insertFields t) vs))) \<and>
     (\<forall>q args vs T i. length vs = length (insertFields t) \<longrightarrow>
        fill args q = insert_meaning (quoted (t_name t)) (pkField t # insertFields t) [DRaw T (VInt i) # vs] \<longrightarrow>
        - (2 ^ 63) \<le> i \<longrightarrow> i < 2 ^ 63 \<longrightarrow>
        inserts rows d (query_row pool q args d) i (new_row (insertFields t) vs)) \<and>
     (\<forall>q args i. fill args q = select_meaning t i \<longrightarrow>
        (case rows d i of
           None \<Rightarrow> \<exists>e. fst (query_row pool q args d) = Inl e
         | Some r \<Rightarrow> fst (query_row pool q args d) = Inr (read_row colm t i r)) \<and>
        rows (snd (query_row pool q args d)) = rows d) \<and>
     (\<forall>q args vs i. length vs = length (insertFields t) \<longrightarrow> fill args q = update_by_id_meaning t vs i \<longrightarrow>
        (case rows d i of
           None \<Rightarrow> fst (db_exec pool q args d) = Inr 0 \<and> rows (snd (db_exec pool q args d)) = rows d
         | Some r \<Rightarrow> fst (db_exec pool q args d) = Inr 1 \<and>
             rows (snd (db_exec pool q args d)) = (rows d)(i \<mapsto> r ++ new_row (insertFields t) vs)))"

section \<open>The map of entities\<close>

definition entities ::
  "(table \<Rightarrow> string + cell list \<Rightarrow> string + gval list) \<Rightarrow> (fieldScanKind \<Rightarrow> dbval \<Rightarrow> cell) \<Rightarrow> table \<Rightarrow>
   (int \<rightharpoonup> row) \<Rightarrow> int \<rightharpoonup> (string + gval list)" where
  "entities scan colm t rows = (\<lambda>i. map_option (\<lambda>r. scan t (Inr (read_row colm t i r))) (rows i))"

text \<open>An entity as it comes back: fields without a column are zero.\<close>

definition mapped_part :: "(string \<Rightarrow> gval list) \<Rightarrow> stype \<Rightarrow> table \<Rightarrow> gval list \<Rightarrow> gval list" where
  "mapped_part zeros T t e =
     map (\<lambda>j. if j \<in> Index ` set (t_fields t) then e ! j else zero_value zeros (sf_type (sfields T ! j)))
       [0..<length e]"

text \<open>The entities that can be stored: every mapped field is storable and can be converted.\<close>

definition savable ::
  "(gtype \<Rightarrow> bool) \<Rightarrow> (gtype \<Rightarrow> bool) \<Rightarrow> (gtype \<Rightarrow> gval \<Rightarrow> string + dbval) \<Rightarrow> (string \<Rightarrow> gval list) \<Rightarrow>
   (64 word \<Rightarrow> 64 word) \<Rightarrow> (gtype \<Rightarrow> gval \<Rightarrow> string + string) \<Rightarrow>
   (gtype \<Rightarrow> gval \<Rightarrow> string \<Rightarrow> string + gval) \<Rightarrow> stype \<Rightarrow> table \<Rightarrow> gval list \<Rightarrow> bool" where
  "savable scanner valuer call_value zeros narrow32 marshal unmarshal T t e \<longleftrightarrow>
     length e = length (sfields T) \<and>
     (\<forall>f \<in> set (t_fields t).
        storable scanner valuer zeros narrow32 marshal unmarshal (GoType f) (e ! Index f) \<and>
        (\<exists>v. getValue valuer call_value marshal True (GoType f) (e ! Index f) = Inr v))"

section \<open>What is written is read\<close>

lemma extract_all:
  "(\<And>f. f \<in> set fs \<Longrightarrow> getValue valuer call_value marshal True (GoType f) (e ! Index f) = Inr (g f)) \<Longrightarrow>
   extractArgsByFields valuer call_value marshal e fs = Inr (map g fs)"
  by (induction fs) simp_all

lemma new_row_map:
  assumes "distinct (map DBName flds)" "f \<in> set flds"
  shows "new_row flds (map g flds) (DBName f) = Some (g f)"
proof -
  have "zip (map DBName flds) (map g flds) = map (\<lambda>f. (DBName f, g f)) flds"
    by (simp add: zip_map_map zip_same_conv_map comp_def case_prod_beta)
  moreover have "map fst (map (\<lambda>f. (DBName f, g f)) flds) = map DBName flds" by simp
  ultimately show ?thesis
    unfolding new_row_def using assms by (metis (no_types, lifting) image_eqI list.set_map map_of_is_SomeI)
qed

lemma table_facts:
  assumes "build_table scanner valuer T name = Inr t"
  shows "t_name t = name" "insertFields t = filter (\<lambda>m. DBName m \<noteq> ''id'') (t_fields t)"
    "pkField t \<in> set (t_fields t)" "DBName (pkField t) = ''id''" "\<exists>n. GoType (pkField t) = TInt K64 n"
    "distinct (map Index (t_fields t))" "m \<in> set (t_fields t) \<Longrightarrow> Index m < length (sfields T)"
  using table_description [of scanner valuer T name] unfolding assms sum.case by blast+

lemma read_written_row:
  assumes t: "build_table scanner valuer T name = Inr t" "distinct (map DBName (t_fields t))"
    and g: "g (pkField t) = DRaw (GoType (pkField t)) (VInt i)"
  shows "read_row colm t i (r ++ new_row (insertFields t) (map g (insertFields t))) =
    stored_row colm t (map g (t_fields t))"
proof -
  note ins = table_facts(2) [OF t(1)] and pk = table_facts(3,4) [OF t(1)]
  have key: "f = pkField t" if "f \<in> set (t_fields t)" "DBName f = ''id''" for f
    using that pk t(2) by (metis inj_onD distinct_map)
  have "distinct (map DBName (insertFields t))" unfolding ins using t(2) by (rule distinct_map_filter)
  from new_row_map [OF this, of _ g] have
    "(r ++ new_row (insertFields t) (map g (insertFields t))) (DBName f) = Some (g f)"
    if "f \<in> set (t_fields t)" "DBName f \<noteq> ''id''" for f
    using that by (simp add: map_add_Some_iff ins)
  with key g show ?thesis
    by (auto simp: read_row_def stored_row_def zip_map2 zip_same_conv_map)
qed

text \<open>The key of a storable entity is an integer, and any other id can take its place.\<close>

lemma savable_key:
  assumes t: "build_table scanner valuer T name = Inr t"
    and e: "savable scanner valuer call_value zeros narrow32 marshal unmarshal T t e"
  obtains n i where "GoType (pkField t) = TInt K64 n" "e ! Index (pkField t) = VInt i"
    "- (2 ^ 63) \<le> i" "i < 2 ^ 63" "plain_type scanner valuer (TInt K64 n)" "Index (pkField t) < length e"
proof -
  note pk = table_facts(3,5) [OF t] table_facts(7) [OF t table_facts(3) [OF t]]
  then obtain n where n: "GoType (pkField t) = TInt K64 n" by blast
  from e pk(1) n have "has_type (TInt K64 n) (e ! Index (pkField t))" "plain_type scanner valuer (TInt K64 n)"
    unfolding savable_def storable_def by metis+
  with n pk(3) e that show thesis by (auto simp: savable_def split: gval.splits)
qed

lemma key_value:
  assumes "plain_type scanner valuer (TInt K64 n)"
  shows "getValue valuer call_value marshal True (TInt K64 n) (VInt i) = Inr (DRaw (TInt K64 n) (VInt i))"
  using assms by (simp add: plain_type_def value_of_def timeType_def)

lemma savable_update:
  assumes t: "build_table scanner valuer T name = Inr t"
    and e: "savable scanner valuer call_value zeros narrow32 marshal unmarshal T t e"
    and i: "- (2 ^ 63) \<le> i" "i < 2 ^ 63"
  shows "savable scanner valuer call_value zeros narrow32 marshal unmarshal T t (e[Index (pkField t) := VInt i])"
proof -
  from savable_key [OF t e] obtain n where n: "GoType (pkField t) = TInt K64 n"
    "plain_type scanner valuer (TInt K64 n)" "Index (pkField t) < length e" by blast
  from table_facts(3,6) [OF t] have "f = pkField t" if "f \<in> set (t_fields t)" "Index f = Index (pkField t)" for f
    using that by (metis inj_onD distinct_map)
  with e n i key_value [OF n(2), of call_value marshal i] show ?thesis
    by (fastforce simp: savable_def nth_list_update storable_def composite_def)
qed

text \<open>The row written for an entity is read back as the entity.\<close>

definition field_value ::
  "(gtype \<Rightarrow> bool) \<Rightarrow> (gtype \<Rightarrow> gval \<Rightarrow> string + dbval) \<Rightarrow> (gtype \<Rightarrow> gval \<Rightarrow> string + string) \<Rightarrow>
   gval list \<Rightarrow> fieldMeta \<Rightarrow> dbval" where
  "field_value valuer call_value marshal e f =
     projr (getValue valuer call_value marshal True (GoType f) (e ! Index f))"

lemma savable_value:
  "savable scanner valuer call_value zeros narrow32 marshal unmarshal T t e \<Longrightarrow> f \<in> set (t_fields t) \<Longrightarrow>
   getValue valuer call_value marshal True (GoType f) (e ! Index f) = Inr (field_value valuer call_value marshal e f)"
  by (fastforce simp: savable_def field_value_def)

lemma written_row_restored:
  assumes t: "build_table scanner valuer T name = Inr t" "distinct (map DBName (t_fields t))"
    and col: "faithful_column colm"
    and e: "savable scanner valuer call_value zeros narrow32 marshal unmarshal T t e"
    and i: "e ! Index (pkField t) = VInt i"
    and vs: "vs = map (field_value valuer call_value marshal e) (insertFields t)"
  shows "scan_entity zeros narrow32 unmarshal T t (Inr (read_row colm t i (r ++ new_row (insertFields t) vs))) =
    Inr (mapped_part zeros T t e)"
proof -
  let ?g = "field_value valuer call_value marshal e"
  note pk = table_facts(3) [OF t(1)]
  from savable_key [OF t(1) e] obtain n where n: "GoType (pkField t) = TInt K64 n"
    "plain_type scanner valuer (TInt K64 n)" by blast
  have g: "?g (pkField t) = DRaw (GoType (pkField t)) (VInt i)"
    unfolding field_value_def n i key_value [OF n(2)] by simp
  have all: "extractArgsByFields valuer call_value marshal e (t_fields t) = Inr (map ?g (t_fields t))"
    using savable_value [OF e] by (intro extract_all)
  have st: "length e = length (sfields T)" "\<forall>f \<in> set (t_fields t).
      storable scanner valuer zeros narrow32 marshal unmarshal (GoType f) (e ! Index f)"
    using e by (simp_all add: savable_def)
  from entity_restored [OF t(1) st(1) col st(2) all] obtain e' where
    e': "scan_entity zeros narrow32 unmarshal T t (Inr (stored_row colm t (map ?g (t_fields t)))) = Inr e'"
    "length e' = length e" "\<forall>j < length e. e' ! j = (if j \<in> Index ` set (t_fields t) then e ! j
       else zero_value zeros (sf_type (sfields T ! j)))" by blast
  have "e' = mapped_part zeros T t e"
    using e'(2,3) by (intro nth_equalityI) (simp_all add: mapped_part_def)
  with e'(1) read_written_row [where g = ?g, OF t g] show ?thesis unfolding vs by simp
qed

section \<open>The operations\<close>

lemma select_one_fill:
  assumes "build_table scanner valuer T name = Inr t" "plain_table t"
  shows "fill [int64_arg i] (selectOneSQL t) = select_meaning t i"
proof -
  have sel: "selectOneSQL t = (''SELECT '' @ allColumnSQL t @ '' FROM \"'' @ t_name t @ ''\" WHERE id = '') @ CHR ''$'' # dec 1"
    unfolding dec_1_2 using assms(1)
    by (auto simp: build_table_def allColumnSQL_def split: sum.splits prod.splits option.splits)
  have "plain (''SELECT '' @ allColumnSQL t @ '' FROM \"'' @ t_name t @ ''\" WHERE id = '')"
    using assms(2) plain_columnSQL [of "t_fields t"] by (simp add: plain_table_def allColumnSQL_def columnSQL_def)
  from fill_plain_append [OF this, of "[int64_arg i]"] show ?thesis
    unfolding sel select_meaning_def fill_one by (simp only: fill_one) (simp add: argument_def)
qed

lemma find_by_id_reads:
  assumes "build_table scanner valuer T name = Inr t" "plain_table t" "executes pool t colm rows d"
    and "scan = scan_entity zeros narrow32 unmarshal T"
  shows "\<exists>d'. entities scan colm t (rows d') = entities scan colm t (rows d) \<and>
    (case entities scan colm t (rows d) i of
       Some x \<Rightarrow> FindByID scan (Return pool) t i d = Return (x, d')
     | None \<Rightarrow> \<exists>m. FindByID scan (Return pool) t i d = Return (Inl m, d'))"
proof -
  let ?a = "query_row pool (selectOneSQL t) [int64_arg i] d"
  from assms(3) select_one_fill [OF assms(1,2), of i]
  have "case rows d i of None \<Rightarrow> \<exists>e. fst ?a = Inl e | Some r \<Rightarrow> fst ?a = Inr (read_row colm t i r)"
    "rows (snd ?a) = rows d"
    unfolding executes_def by blast+
  then show ?thesis
    by (intro exI [of _ "snd ?a"])
      (auto simp: FindByID_def entities_def assms(4) scan_entity_def split: option.splits prod.splits)
qed

lemma entities_update:
  "entities scan colm t (rows(i \<mapsto> r)) = (entities scan colm t rows)(i \<mapsto> scan t (Inr (read_row colm t i r)))"
  by (simp add: entities_def fun_eq_iff)

text \<open>The arguments of an insert, with the key first when the entity has one.\<close>

lemma insert_arguments:
  assumes t: "build_table scanner valuer T name = Inr t"
    and e: "savable scanner valuer call_value zeros narrow32 marshal unmarshal T t e"
    and i: "e ! Index (pkField t) = VInt i"
  shows "extractArgsByFields valuer call_value marshal e (insertFields t) =
      Inr (map (field_value valuer call_value marshal e) (insertFields t))"
    and "extractArgsByFields valuer call_value marshal e (pkField t # insertFields t) =
      Inr (DRaw (GoType (pkField t)) (VInt i) # map (field_value valuer call_value marshal e) (insertFields t))"
proof -
  from savable_key [OF t e] obtain n where n: "GoType (pkField t) = TInt K64 n"
    "plain_type scanner valuer (TInt K64 n)" by blast
  show ins: "extractArgsByFields valuer call_value marshal e (insertFields t) =
      Inr (map (field_value valuer call_value marshal e) (insertFields t))"
    using savable_value [OF e] by (intro extract_all) (simp add: table_facts(2) [OF t])
  show "extractArgsByFields valuer call_value marshal e (pkField t # insertFields t) =
      Inr (DRaw (GoType (pkField t)) (VInt i) # map (field_value valuer call_value marshal e) (insertFields t))"
    using ins key_value [OF n(2)] by (simp add: i n(1))
qed

lemma field_value_update:
  assumes t: "build_table scanner valuer T name = Inr t"
  shows "map (field_value valuer call_value marshal (e[Index (pkField t) := x])) (insertFields t) =
    map (field_value valuer call_value marshal e) (insertFields t)"
proof (intro map_cong refl)
  fix f assume "f \<in> set (insertFields t)"
  with table_facts(2) [OF t] have "f \<in> set (t_fields t)" "DBName f \<noteq> ''id''" by simp_all
  with table_facts(3,4,6) [OF t] have "Index f \<noteq> Index (pkField t)" by (metis inj_onD distinct_map)
  then show "field_value valuer call_value marshal (e[Index (pkField t) := x]) f = field_value valuer call_value marshal e f"
    by (simp add: field_value_def)
qed

text \<open>The statement of \<open>InsertOne\<close> is one the database executes.\<close>

lemma insert_one_answer:
  assumes t: "build_table scanner valuer T name = Inr t" "plain_table t"
    and db: "executes pool t colm rows d"
    and e: "savable scanner valuer call_value zeros narrow32 marshal unmarshal T t e"
    and vs: "vs = map (field_value valuer call_value marshal e) (insertFields t)"
  shows "\<exists>i answer. (hasExplicitPK t e \<longrightarrow> e ! Index (pkField t) = VInt i) \<and>
    inserts rows d answer i (new_row (insertFields t) vs) \<and>
    InsertOne valuer call_value marshal (Return pool) t e d =
      (case answer of (row, d') \<Rightarrow>
         Return (case scan_int row of
                   Inl e' \<Rightarrow> Inl e'
                 | Inr j \<Rightarrow> Inr (e[Index (pkField t) := VInt j]), d'))"
proof -
  from savable_key [OF t(1) e] obtain n i where n: "GoType (pkField t) = TInt K64 n"
    "e ! Index (pkField t) = VInt i" "- (2 ^ 63) \<le> i" "i < 2 ^ 63" by blast
  note args = insert_arguments [OF t(1) e n(2), folded vs]
  have len: "length vs = length (insertFields t)" by (simp add: vs)
  show ?thesis
  proof (cases "i = 0")
    case True
    then have "insertFields t = (if e ! Index (pkField t) = VInt 0 then insertFields t else pkField t # insertFields t)"
      by (simp add: n)
    from insert_one_statement [OF t(2) this args(1), of pool d] obtain q where
      q: "fill vs q = insert_meaning (quoted (t_name t)) (insertFields t) [vs]"
      "InsertOne valuer call_value marshal (Return pool) t e d =
        (case query_row pool q vs d of (row, d') \<Rightarrow>
          Return (case scan_int row of Inl e' \<Rightarrow> Inl e' | Inr j \<Rightarrow> Inr (e[Index (pkField t) := VInt j]), d'))" by blast
    from db q(1) len obtain k where "inserts rows d (query_row pool q vs d) k (new_row (insertFields t) vs)"
      unfolding executes_def by blast
    with q(2) True n(2) show ?thesis
      by (intro exI [of _ k] exI [of _ "query_row pool q vs d"]) (simp add: hasExplicitPK_def)
  next
    case False
    let ?vs = "DRaw (TInt K64 n) (VInt i) # vs"
    from False have "pkField t # insertFields t =
        (if e ! Index (pkField t) = VInt 0 then insertFields t else pkField t # insertFields t)"
      by (simp add: n)
    from insert_one_statement [OF t(2) this args(2) [unfolded n(1)], of pool d] obtain q where
      q: "fill ?vs q = insert_meaning (quoted (t_name t)) (pkField t # insertFields t) [?vs]"
      "InsertOne valuer call_value marshal (Return pool) t e d =
        (case query_row pool q ?vs d of (row, d') \<Rightarrow>
          Return (case scan_int row of Inl e' \<Rightarrow> Inl e' | Inr j \<Rightarrow> Inr (e[Index (pkField t) := VInt j]), d'))" by blast
    from db q(1) len n(3,4) have "inserts rows d (query_row pool q ?vs d) i (new_row (insertFields t) vs)"
      unfolding executes_def by blast
    with q(2) n(2) show ?thesis by (intro exI [of _ i] exI [of _ "query_row pool q ?vs d"]) simp
  qed
qed

lemma insert_one_inserts:
  assumes t: "build_table scanner valuer T name = Inr t" "plain_table t" "distinct (map DBName (t_fields t))"
    and db: "executes pool t colm rows d" "faithful_column colm"
    and e: "savable scanner valuer call_value zeros narrow32 marshal unmarshal T t e"
    and scan: "scan = scan_entity zeros narrow32 unmarshal T"
  shows "\<exists>i d'. let e' = e[Index (pkField t) := VInt i] in
    (hasExplicitPK t e \<longrightarrow> e' = e) \<and>
    (if rows d i \<noteq> None
     then (\<exists>m. InsertOne valuer call_value marshal (Return pool) t e d = Return (Inl m, d')) \<and>
       entities scan colm t (rows d') = entities scan colm t (rows d)
     else InsertOne valuer call_value marshal (Return pool) t e d = Return (Inr e', d') \<and>
       entities scan colm t (rows d') = (entities scan colm t (rows d))(i \<mapsto> Inr (mapped_part zeros T t e')))"
proof -
  let ?vs = "map (field_value valuer call_value marshal e) (insertFields t)"
  from insert_one_answer [OF t(1,2) db(1) e refl] obtain i answer where
    key: "hasExplicitPK t e \<longrightarrow> e ! Index (pkField t) = VInt i"
    and ans: "inserts rows d answer i (new_row (insertFields t) ?vs)"
    and run: "InsertOne valuer call_value marshal (Return pool) t e d =
      (case answer of (row, d') \<Rightarrow>
         Return (case scan_int row of Inl e' \<Rightarrow> Inl e' | Inr j \<Rightarrow> Inr (e[Index (pkField t) := VInt j]), d'))" by blast
  define e' where "e' = e[Index (pkField t) := VInt i]"
  have range: "- (2 ^ 63) \<le> i" "i < 2 ^ 63" using ans by (simp_all add: inserts_def)
  have e': "savable scanner valuer call_value zeros narrow32 marshal unmarshal T t e'"
    unfolding e'_def by (rule savable_update [OF t(1) e range])
  have pk: "e' ! Index (pkField t) = VInt i"
    using e table_facts(7) [OF t(1) table_facts(3) [OF t(1)]] by (simp add: e'_def savable_def)
  have "?vs = map (field_value valuer call_value marshal e') (insertFields t)"
    using field_value_update [OF t(1)] by (metis e'_def)
  from written_row_restored [OF t(1,3) db(2) e' pk this, of Map.empty]
  have restored: "scan t (Inr (read_row colm t i (new_row (insertFields t) ?vs))) = Inr (mapped_part zeros T t e')"
    by (simp add: scan)
  have same: "hasExplicitPK t e \<longrightarrow> e' = e" using key by (metis e'_def list_update_id)
  show ?thesis
  proof (cases "rows d i")
    case None
    with ans have "fst answer = Inr [CInt i]" "rows (snd answer) = (rows d)(i \<mapsto> new_row (insertFields t) ?vs)"
      by (auto simp: inserts_def)
    with None run restored same show ?thesis
      by (intro exI [of _ i] exI [of _ "snd answer"]) (simp add: entities_update Let_def case_prod_beta flip: e'_def)
  next
    case (Some r)
    with ans have "\<exists>m. fst answer = Inl m" "rows (snd answer) = rows d" by (auto simp: inserts_def)
    with Some run same show ?thesis
      by (intro exI [of _ i] exI [of _ "snd answer"]) (auto simp: Let_def case_prod_beta simp flip: e'_def)
  qed
qed

lemma update_by_id_updates:
  assumes t: "build_table scanner valuer T name = Inr t" "plain_table t" "distinct (map DBName (t_fields t))"
    and db: "executes pool t colm rows d" "faithful_column colm"
    and e: "savable scanner valuer call_value zeros narrow32 marshal unmarshal T t e"
      "e ! Index (pkField t) = VInt i"
    and scan: "scan = scan_entity zeros narrow32 unmarshal T"
  shows "\<exists>d'.
    (if i = 0 \<or> rows d i = None
     then (\<exists>m. UpdateByID valuer call_value marshal (Return pool) t e d = Return (Inl m, d')) \<and>
       entities scan colm t (rows d') = entities scan colm t (rows d)
     else UpdateByID valuer call_value marshal (Return pool) t e d = Return (Inr (), d') \<and>
       entities scan colm t (rows d') = (entities scan colm t (rows d))(i \<mapsto> Inr (mapped_part zeros T t e)))"
proof -
  let ?vs = "map (field_value valuer call_value marshal e) (insertFields t)"
  have len: "length ?vs = length (insertFields t)" by simp
  note sends = update_by_id_statement [OF t(2) e(2) insert_arguments(1) [OF t(1) e], of pool d]
  show ?thesis
  proof (cases "i = 0")
    case True
    with sends show ?thesis by auto
  next
    case False
    with sends obtain q where q: "fill (?vs @ [int64_arg i]) q = update_by_id_meaning t ?vs i"
      "UpdateByID valuer call_value marshal (Return pool) t e d =
        (case db_exec pool q (?vs @ [int64_arg i]) d of
           (r, d') \<Rightarrow> Return (case r of
               Inl e \<Rightarrow> Inl e
             | Inr k \<Rightarrow> if k = 0 then Inl ''UpdateByID: no rows affected'' else Inr (), d'))"
      by (auto simp: update_by_id_meaning_def simp del: map_append)
    let ?a = "db_exec pool q (?vs @ [int64_arg i]) d"
    from db(1) q(1) len have a: "case rows d i of
        None \<Rightarrow> fst ?a = Inr 0 \<and> rows (snd ?a) = rows d
      | Some r \<Rightarrow> fst ?a = Inr 1 \<and> rows (snd ?a) = (rows d)(i \<mapsto> r ++ new_row (insertFields t) ?vs)"
      unfolding executes_def by blast
    show ?thesis
    proof (cases "rows d i")
      case None
      with None a q(2) show ?thesis by (intro exI [of _ "snd ?a"]) (simp add: case_prod_beta)
    next
      case (Some r)
      with written_row_restored [OF t(1,3) db(2) e refl, of r] False a q(2) show ?thesis
        by (intro exI [of _ "snd ?a"]) (simp add: case_prod_beta entities_update scan)
    qed
  qed
qed

section \<open>A reference database\<close>

text \<open>
  A database for one table, with a sequence: it reads a statement by what it means. It executes
  every statement, so the assumption above can hold for every table.
\<close>

fun token_values :: "'v token list \<Rightarrow> 'v list" where
  "token_values [] = []"
| "token_values (Value v # ts) = v # token_values ts"
| "token_values (t # ts) = token_values ts"

lemma token_values_append [simp]: "token_values (xs @ ys) = token_values xs @ token_values ys"
  by (induction xs rule: token_values.induct) simp_all

lemma token_values_texts [simp]: "token_values (texts s) = []"
  by (induction s) simp_all

lemma token_values_join:
  "token_values sep = [] \<Longrightarrow> token_values (join sep xs) = concat (map token_values xs)"
  by (induction xs rule: induct_list012) simp_all

lemma token_values_insert: "token_values (insert_meaning name flds [vs]) = vs"
  by (simp add: insert_meaning_def values_meaning_def token_values_join comp_def)

lemma token_values_select: "token_values (select_meaning t i) = [int64_arg i]"
  unfolding select_meaning_def by simp

lemma token_values_update:
  assumes "length vs = length (insertFields t)"
  shows "token_values (update_by_id_meaning t vs i) = vs @ [int64_arg i]"
proof -
  have "concat (map2 (\<lambda>f v. [v]) fs vs) = vs" if "length vs = length fs" for fs :: "fieldMeta list"
    using that by (induction vs fs rule: list_induct2) simp_all
  with assms show ?thesis
    by (simp add: update_by_id_meaning_def token_values_join comp_def case_prod_beta)
qed

definition put_row :: "int \<Rightarrow> row \<Rightarrow> int \<times> (int \<rightharpoonup> row) \<Rightarrow> (string + cell list) \<times> int \<times> (int \<rightharpoonup> row)" where
  "put_row i r d =
     (if snd d i \<noteq> None then (Inl ''duplicate key'', d) else (Inr [CInt i], fst d, (snd d)(i \<mapsto> r)))"

fun arg_id :: "dbval \<Rightarrow> int" where
  "arg_id (DRaw T (VInt i)) = i"
| "arg_id _ = 0"

definition table_db :: "table \<Rightarrow> (fieldScanKind \<Rightarrow> dbval \<Rightarrow> cell) \<Rightarrow> (int \<times> (int \<rightharpoonup> row)) db" where
  "table_db t colm =
     \<lparr>query_row = (\<lambda>q args d.
        let ts = fill args q; vs = token_values ts; flds = insertFields t in
        if length vs = length flds \<and> ts = insert_meaning (quoted (t_name t)) flds [vs]
        then put_row (fst d) (new_row flds vs) (fst d + 1, snd d)
        else if length vs = length flds + 1 \<and> ts = insert_meaning (quoted (t_name t)) (pkField t # flds) [vs]
        then put_row (arg_id (hd vs)) (new_row flds (tl vs)) d
        else if vs \<noteq> [] \<and> ts = select_meaning t (arg_id (hd vs))
        then (case snd d (arg_id (hd vs)) of
                None \<Rightarrow> Inl ''no rows in result set''
              | Some r \<Rightarrow> Inr (read_row colm t (arg_id (hd vs)) r), d)
        else (Inl ''syntax error'', d)),
      query_rows = (\<lambda>q args d. (Inl ''syntax error'', d)),
      db_exec = (\<lambda>q args d.
        let ts = fill args q; vs = token_values ts in
        if vs \<noteq> [] \<and> ts = update_by_id_meaning t (butlast vs) (arg_id (last vs))
        then (case snd d (arg_id (last vs)) of
                None \<Rightarrow> (Inr 0, d)
              | Some r \<Rightarrow>
                  (Inr 1, fst d, (snd d)(arg_id (last vs) \<mapsto> r ++ new_row (insertFields t) (butlast vs))))
        else (Inl ''syntax error'', d))\<rparr>"

lemma select_not_insert: "select_meaning t i \<noteq> insert_meaning name flds rows"
  by (simp add: select_meaning_def insert_meaning_def)

lemma arg_id_int64 [simp]: "arg_id (int64_arg i) = i"
  by (simp add: int64_arg_def)

lemma table_db_executes:
  assumes "- (2 ^ 63) \<le> fst d" "fst d < 2 ^ 63"
  shows "executes (table_db t colm) t colm snd d"
  unfolding executes_def
proof (intro conjI allI impI)
  fix q :: string and args vs :: "dbval list"
  assume vs: "length vs = length (insertFields t)"
    and ts: "fill args q = insert_meaning (quoted (t_name t)) (insertFields t) [vs]"
  have "inserts snd d (query_row (table_db t colm) q args d) (fst d) (new_row (insertFields t) vs)"
    using assms vs by (simp add: table_db_def ts token_values_insert Let_def put_row_def inserts_def)
  then show "\<exists>i. inserts snd d (query_row (table_db t colm) q args d) i (new_row (insertFields t) vs)" ..
next
  fix q args vs T i
  assume vs: "length vs = length (insertFields t)"
    and ts: "fill args q = insert_meaning (quoted (t_name t)) (pkField t # insertFields t) [DRaw T (VInt i) # vs]"
    and i: "- (2 ^ 63) \<le> i" "i < 2 ^ 63"
  then show "inserts snd d (query_row (table_db t colm) q args d) i (new_row (insertFields t) vs)"
    by (simp add: table_db_def ts token_values_insert Let_def put_row_def inserts_def)
next
  fix q args i
  assume ts: "fill args q = select_meaning t i"
  show "case snd d i of
      None \<Rightarrow> \<exists>e. fst (query_row (table_db t colm) q args d) = Inl e
    | Some r \<Rightarrow> fst (query_row (table_db t colm) q args d) = Inr (read_row colm t i r)"
    "snd (snd (query_row (table_db t colm) q args d)) = snd d"
    by (simp_all add: table_db_def ts token_values_select Let_def select_not_insert split: option.split)
next
  fix q args vs i
  assume "length vs = length (insertFields t)" and ts: "fill args q = update_by_id_meaning t vs i"
  then show "case snd d i of
      None \<Rightarrow> fst (db_exec (table_db t colm) q args d) = Inr 0 \<and>
        snd (snd (db_exec (table_db t colm) q args d)) = snd d
    | Some r \<Rightarrow> fst (db_exec (table_db t colm) q args d) = Inr 1 \<and>
        snd (snd (db_exec (table_db t colm) q args d)) = (snd d)(i \<mapsto> r ++ new_row (insertFields t) vs)"
    by (simp add: table_db_def ts token_values_update Let_def split: option.split)
qed

text \<open>
  The reference database executes every state whose sequence is in range; the witness keeps it there
  with a sequence that does not move.
\<close>

definition fixed_db :: "table \<Rightarrow> (fieldScanKind \<Rightarrow> dbval \<Rightarrow> cell) \<Rightarrow> (int \<rightharpoonup> row) db" where
  "fixed_db t colm =
     \<lparr>query_row = (\<lambda>q args d. map_prod id snd (query_row (table_db t colm) q args (1, d))),
      query_rows = (\<lambda>q args d. map_prod id snd (query_rows (table_db t colm) q args (1, d))),
      db_exec = (\<lambda>q args d. map_prod id snd (db_exec (table_db t colm) q args (1, d)))\<rparr>"

lemma fixed_db_executes: "executes (fixed_db t colm) t colm id d"
proof -
  have "executes (table_db t colm) t colm snd (1, d)" by (rule table_db_executes) simp_all
  then show ?thesis unfolding executes_def fixed_db_def inserts_def
    by (simp only: db.simps fst_map_prod snd_map_prod id_apply snd_conv)
qed

section \<open>Properties\<close>

text \<open>
  C2: a table is a repository of entities. On a database that executes the statements it is sent,
  with faithful columns of distinct names, and for an entity that can be stored: \<open>InsertOne\<close> adds the
  entity under its own id, or under one the database chooses and the entity gets, and fails exactly
  when that id is taken; \<open>UpdateByID\<close> replaces the entity of its id and fails exactly when there is
  none; \<open>FindByID\<close> returns the entity of an id and fails when there is none. A failed operation
  changes nothing, a successful one only the entity of the id, and what it stores is what \<open>FindByID\<close>
  reads: the entity's mapped fields.
\<close>

theorem repository_refines_map:
  assumes "build_table scanner valuer T name = Inr t" "plain_table t" "distinct (map DBName (t_fields t))"
    and "executes pool t colm rows d" "faithful_column colm"
    and "savable scanner valuer call_value zeros narrow32 marshal unmarshal T t e"
    and "scan = scan_entity zeros narrow32 unmarshal T" "es = entities scan colm t \<circ> rows"
  shows "(\<exists>i d'. let e' = e[Index (pkField t) := VInt i] in
      (hasExplicitPK t e \<longrightarrow> e' = e) \<and>
      (if i \<in> dom (es d)
       then (\<exists>m. InsertOne valuer call_value marshal (Return pool) t e d = Return (Inl m, d')) \<and> es d' = es d
       else InsertOne valuer call_value marshal (Return pool) t e d = Return (Inr e', d') \<and>
         es d' = (es d)(i \<mapsto> Inr (mapped_part zeros T t e')))) \<and>
    (\<exists>i d'. e ! Index (pkField t) = VInt i \<and>
      (if i = 0 \<or> i \<notin> dom (es d)
       then (\<exists>m. UpdateByID valuer call_value marshal (Return pool) t e d = Return (Inl m, d')) \<and> es d' = es d
       else UpdateByID valuer call_value marshal (Return pool) t e d = Return (Inr (), d') \<and>
         es d' = (es d)(i \<mapsto> Inr (mapped_part zeros T t e)))) \<and>
    (\<forall>i. \<exists>d'. es d' = es d \<and>
      (case es d i of
         Some x \<Rightarrow> FindByID scan (Return pool) t i d = Return (x, d')
       | None \<Rightarrow> \<exists>m. FindByID scan (Return pool) t i d = Return (Inl m, d')))"
proof -
  have dom: "i \<in> dom (es d) \<longleftrightarrow> rows d i \<noteq> None" for i by (auto simp: assms(8) entities_def)
  have es: "es x = entities scan colm t (rows x)" for x by (simp add: assms(8))
  from savable_key [OF assms(1,6)] obtain i where i: "e ! Index (pkField t) = VInt i" by blast

  show ?thesis unfolding dom unfolding es
  proof (intro conjI allI)
    show "\<exists>i d'. e ! Index (pkField t) = VInt i \<and>
      (if i = 0 \<or> \<not> rows d i \<noteq> None
       then (\<exists>m. UpdateByID valuer call_value marshal (Return pool) t e d = Return (Inl m, d')) \<and>
         entities scan colm t (rows d') = entities scan colm t (rows d)
       else UpdateByID valuer call_value marshal (Return pool) t e d = Return (Inr (), d') \<and>
         entities scan colm t (rows d') = (entities scan colm t (rows d))(i \<mapsto> Inr (mapped_part zeros T t e)))"
      using i update_by_id_updates [OF assms(1-6) i assms(7)] unfolding not_not by blast
  qed (fact insert_one_inserts [OF assms(1-7)], fact find_by_id_reads [OF assms(1,2,4,7)])
qed

lemma user_table_facts:
  "Index (pkField user_table) = 0" "plain_table user_table" "distinct (map DBName (t_fields user_table))"
  "savable no_methods no_methods (\<lambda>_ _. Inl '''') (\<lambda>_. []) id example_marshal example_unmarshal
      user_type user_table user_bob"
  "hasExplicitPK user_table user_bob"
proof -
  have fields: "t_fields user_table = map (\<lambda>i. field_meta no_methods no_methods i (sfields user_type ! i)) [0, 2, 3, 4]"
    by (simp add: metas_user user_type_def mapped_def)
  have ins: "insertFields user_table = map (\<lambda>i. field_meta no_methods no_methods i (sfields user_type ! i)) [2, 3, 4]"
    using table_facts(2) [OF user_table] unfolding fields by (simp add: user_type_def)
  have pk: "Index (pkField user_table) = 0" "DBName (pkField user_table) = ''id''"
    using table_facts(3,4) [OF user_table] unfolding fields by (auto simp: user_type_def)
  then show "Index (pkField user_table) = 0" by simp
  show "plain_table user_table"
    using table_facts(1) [OF user_table] by (simp add: plain_table_def pk(2) fields ins user_type_def)
  show "distinct (map DBName (t_fields user_table))" by (simp add: fields user_type_def)
  show "savable no_methods no_methods (\<lambda>_ _. Inl '''') (\<lambda>_. []) id example_marshal example_unmarshal
      user_type user_table user_bob"
    by (simp add: savable_def fields user_bob_def user_type_def storable_def plain_type_def json_ok_def
        composite_def example_marshal_def example_unmarshal_def bytesType_def value_of_def timeType_def)
  show "hasExplicitPK user_table user_bob" by (simp add: hasExplicitPK_def pk user_bob_def)
qed

theorem repository_refines_map_witness:
  "\<exists>d'. InsertOne no_methods (\<lambda>_ _. Inl '''') example_marshal (Return (table_db user_table mirror_column)) user_table
      user_bob (1, Map.empty) = Return (Inr user_bob, d') \<and>
    entities (scan_entity (\<lambda>_. []) id example_unmarshal user_type) mirror_column user_table (snd d') =
      [7 \<mapsto> Inr (mapped_part (\<lambda>_. []) user_type user_table user_bob)]"
proof -
  note pk = user_table_facts(1)
  have 3: "executes (table_db user_table mirror_column) user_table mirror_column snd (1, Map.empty)"
    by (rule table_db_executes) simp_all
  have key: "user_bob ! 0 = VInt 7" "length user_bob = 5" by (simp_all add: user_bob_def)
  note key = user_table_facts(5) key
  have none: "entities scan colm t (snd (k, Map.empty)) = Map.empty" for scan colm t and k :: int
    by (simp add: entities_def)
  from repository_refines_map [OF user_table user_table_facts(2,3) 3 faithful_mirror user_table_facts(4) refl refl, THEN conjunct1]
  obtain i d' where run:
    "InsertOne no_methods (\<lambda>_ _. Inl '''') example_marshal (Return (table_db user_table mirror_column)) user_table
      user_bob (1, Map.empty) = Return (Inr (user_bob[0 := VInt i]), d')"
    "entities (scan_entity (\<lambda>_. []) id example_unmarshal user_type) mirror_column user_table (snd d') =
      [i \<mapsto> Inr (mapped_part (\<lambda>_. []) user_type user_table (user_bob[0 := VInt i]))]"
    "user_bob[0 := VInt i] = user_bob"
    using key(1) by (auto simp: pk none Let_def simp del: snd_conv)
  from run(3) key have "VInt i = VInt 7" by (metis nth_list_update_eq zero_less_numeral)
  with run show ?thesis by (metis gval.inject(2))
qed

end
