(* ===== verification/Pg_Example.thy ===== *)
theory Pg_Example
  imports Pg_Repository
begin

text \<open>
  The example program of \<open>pgsql/example\<close>: an entity type with a column of every kind, its table and
  the two flows that use it. \<open>OneExample\<close> is an instance of the repository contract: the user it prints
  is the one it generated, with the id of the database. Parameters are those of the operations;
  \<open>to_json\<close> is \<open>json.Marshal\<close> of what is printed, \<open>name\<close> a \<open>ShortUUID\<close> and \<open>now\<close> the time.
\<close>

section \<open>The entity and its table\<close>

definition address_type :: gtype where
  "address_type = TStruct ''main.Address''"

definition User :: stype where
  "User = \<lparr>pkgPath = ''main'', typeName = ''User'', sfields = [
     \<lparr>sf_name = ''ID'', sf_exported = True, sf_db = ''id'', sf_type = TInt K64 ''int64''\<rparr>,
     \<lparr>sf_name = ''Name'', sf_exported = True, sf_db = ''name'', sf_type = TPtr (TString ''string'')\<rparr>,
     \<lparr>sf_name = ''Email'', sf_exported = True, sf_db = ''email'', sf_type = TString ''string''\<rparr>,
     \<lparr>sf_name = ''Age'', sf_exported = True, sf_db = ''age'', sf_type = TInt K32 ''int32''\<rparr>,
     \<lparr>sf_name = ''CreatedAt'', sf_exported = True, sf_db = ''created_at'', sf_type = timeType\<rparr>,
     \<lparr>sf_name = ''Address'', sf_exported = True, sf_db = ''address'', sf_type = TPtr address_type\<rparr>,
     \<lparr>sf_name = ''Addrs'', sf_exported = True, sf_db = ''addrs'', sf_type = TSlice '''' (TPtr address_type)\<rparr>,
     \<lparr>sf_name = ''Embedding'', sf_exported = True, sf_db = ''embedding'', sf_type = bytesType\<rparr>]\<rparr>"

definition UserStore :: "table outcome" where
  "UserStore = fst (GetTable no_methods no_methods (Some User) ''users'' Map.empty)"

definition example_address :: "string \<Rightarrow> int \<Rightarrow> gval" where
  "example_address street number = VStruct [VString street, VInt number]"

definition GenUser :: "string \<Rightarrow> int \<Rightarrow> gval list" where
  "GenUser name now =
     [VInt 0, VPtr (VString name), VString ''john5@example.com'', VInt 31, VTime now,
      VPtr (example_address ''gg'' 6),
      VSlice [VPtr (example_address ''gg1'' 1), VPtr (example_address ''gg2'' 2)],
      VBytes [CHR 0x01, CHR 0x02, CHR 0x03, CHR 0xFF]]"

section \<open>The flows\<close>

text \<open>What is printed: the id after the insertion, and the JSON of the user that is found under it.\<close>

definition OneExample ::
  "(gtype \<Rightarrow> gval \<Rightarrow> string + dbval) \<Rightarrow> (gtype \<Rightarrow> gval \<Rightarrow> string + string) \<Rightarrow> scanner_fun \<Rightarrow> (gval list \<Rightarrow> string) \<Rightarrow>
   'd db outcome \<Rightarrow> table \<Rightarrow> gval list \<Rightarrow> 'd \<Rightarrow> (int \<times> string \<times> 'd) outcome" where
  "OneExample call_value marshal scan to_json poolo t user d =
     bind_outcome (InsertOne no_methods call_value marshal poolo t user d) (\<lambda>(r, d1).
       (case r of
          Inl e \<Rightarrow> Panic e
        | Inr user' \<Rightarrow>
            (case user' ! 0 of
               VInt i \<Rightarrow>
                 bind_outcome (FindByID scan poolo t i d1) (\<lambda>(r2, d2).
                   (case r2 of
                      Inl e \<Rightarrow> Panic e
                    | Inr res \<Rightarrow> Return (i, to_json res, d2)))
             | _ \<Rightarrow> Panic ''field'')))"

definition example_where :: "dbval where_builder" where
  "example_where =
     wb_and ''age > $1'' [DRaw (TInt K ''int'') (VInt 25)]
       (Where ''name = $1'' [DRaw (TString ''string'') (VString ''John8'')])"

text \<open>
  \<open>Many\<close> prints what it finds, inserts two users, whatever becomes of that, and prints their ids and
  names.
\<close>

definition printed_user :: "gval list \<Rightarrow> gval \<times> gval" where
  "printed_user u = (u ! 0, case u ! 1 of VPtr v \<Rightarrow> v | v \<Rightarrow> v)"

definition Many ::
  "(gtype \<Rightarrow> gval \<Rightarrow> string + dbval) \<Rightarrow> (gtype \<Rightarrow> gval \<Rightarrow> string + string) \<Rightarrow>
   (table \<Rightarrow> (string + cell list) list \<Rightarrow> string option \<Rightarrow> string + gval list list) \<Rightarrow>
   (gval list list \<Rightarrow> string + string) \<Rightarrow> 'd db outcome \<Rightarrow> table \<Rightarrow> gval list \<Rightarrow> gval list \<Rightarrow> 'd \<Rightarrow>
   (string \<times> (gval \<times> gval) list \<times> 'd) outcome" where
  "Many call_value marshal scan_all to_json poolo t u1 u2 d =
     bind_outcome (Find scan_all poolo t (Some example_where) d) (\<lambda>(r, d1).
       (case r of
          Inl e \<Rightarrow> Panic e
        | Inr arr \<Rightarrow>
            (case to_json arr of
               Inl e \<Rightarrow> Panic e
             | Inr json \<Rightarrow>
                 bind_outcome (InsertMany no_methods call_value marshal poolo t [0, 1] (\<lambda>a. if a = 0 then u1 else u2) d1)
                   (\<lambda>(_, st, d2). Return (json, [printed_user (st 0), printed_user (st 1)], d2)))))"

text \<open>\<open>main\<close>: without a pool it panics.\<close>

definition example_main :: "string + 'd db \<Rightarrow> ('d db outcome \<Rightarrow> 'r outcome) \<Rightarrow> 'r outcome" where
  "example_main created many =
     (case pool_init created of
        (Inl e, _) \<Rightarrow> Panic e
      | (Inr _, pools) \<Rightarrow> many (pool_get None pools))"

section \<open>What the example shows\<close>

definition user_store :: table where
  "user_store = (case build_table no_methods no_methods User ''users'' of Inr t \<Rightarrow> t)"

lemma user_store: "build_table no_methods no_methods User ''users'' = Inr user_store"
  by (simp add: user_store_def build_table_def User_def table_loop.simps Let_def)

lemma UserStore_eq: "UserStore = Return user_store"
  by (simp add: UserStore_def GetTable_def user_store get_resource_def)

lemma user_store_fields:
  "t_fields user_store = map (\<lambda>i. field_meta no_methods no_methods i (sfields User ! i)) [0..<8]"
proof -
  have "t_fields user_store = metas no_methods no_methods 0 (sfields User)"
    using table_description [of no_methods no_methods User "''users''"] by (simp add: user_store)
  then show ?thesis by (simp add: User_def mapped_def numeral_eq_Suc)
qed

lemma user_store_pk: "Index (pkField user_store) = 0" "DBName (pkField user_store) = ''id''"
  using table_facts(3,4) [OF user_store] unfolding user_store_fields
  by (auto simp: User_def numeral_eq_Suc nth_Cons split: nat.splits)

lemma gen_user_savable:
  assumes "marshal address_type (example_address ''gg'' 6) = Inr j1"
    and "marshal (TSlice '''' (TPtr address_type)) (GenUser name now ! 6) = Inr j2"
    and "json_ok zeros marshal unmarshal address_type (example_address ''gg'' 6)"
    and "json_ok zeros marshal unmarshal (TSlice '''' (TPtr address_type)) (GenUser name now ! 6)"
  shows "savable no_methods no_methods call_value zeros narrow32 marshal unmarshal User user_store (GenUser name now)"
proof -
  have "\<forall>f \<in> set (t_fields user_store).
      storable no_methods no_methods zeros narrow32 marshal unmarshal (GoType f) (GenUser name now ! Index f) \<and>
      (\<exists>v. getValue no_methods call_value marshal True (GoType f) (GenUser name now ! Index f) = Inr v)"
    using assms unfolding user_store_fields
    by (simp add: upt_rec User_def GenUser_def storable_def plain_type_def composite_def value_of_def
        timeType_def bytesType_def address_type_def example_address_def)
  then show ?thesis by (simp add: savable_def GenUser_def User_def)
qed

lemma user_store_all_mapped:
  "length e = 8 \<Longrightarrow> mapped_part zeros User user_store e = e"
proof -
  have "Index ` set (t_fields user_store) = {0..<8}" by (simp add: user_store_fields image_image)
  then show "length e = 8 \<Longrightarrow> ?thesis" by (auto simp: mapped_part_def intro!: nth_equalityI)
qed

lemma user_store_plain: "plain_table user_store" "distinct (map DBName (t_fields user_store))"
proof -
  have ins: "insertFields user_store = filter (\<lambda>m. DBName m \<noteq> ''id'') (t_fields user_store)"
    by (rule table_facts(2) [OF user_store])
  have names: "map DBName (t_fields user_store) =
      [''id'', ''name'', ''email'', ''age'', ''created_at'', ''address'', ''addrs'', ''embedding'']"
    by (simp add: user_store_fields upt_rec User_def)
  then show "distinct (map DBName (t_fields user_store))" by simp
  have "list_all plain (map DBName (t_fields user_store))" unfolding names by simp
  then have "\<forall>f \<in> set (t_fields user_store). plain (DBName f)" by (simp add: list_all_iff)
  then show "plain_table user_store"
    by (simp add: plain_table_def table_facts(1) [OF user_store] user_store_pk(2) ins list_all_iff)
qed

text \<open>
  The first flow. If JSON reads back what it wrote, then \<open>OneExample\<close> prints the id the database
  chose and the user it generated with that id, which is then in the table, or it panics with the
  error of the database, the id being taken.
\<close>

theorem example_prints_inserted_user:
  assumes "UserStore = Return t" "\<And>d. executes pool t colm rows d" "faithful_column colm"
    and "marshal address_type (example_address ''gg'' 6) = Inr j1"
    and "marshal (TSlice '''' (TPtr address_type)) (GenUser name now ! 6) = Inr j2"
    and "json_ok zeros marshal unmarshal address_type (example_address ''gg'' 6)"
    and "json_ok zeros marshal unmarshal (TSlice '''' (TPtr address_type)) (GenUser name now ! 6)"
    and scan: "scan = scan_entity zeros narrow32 unmarshal User"
  shows "\<exists>i. if rows d i \<noteq> None
    then \<exists>m. OneExample call_value marshal scan to_json (Return pool) t (GenUser name now) d = Panic m
    else \<exists>d'. OneExample call_value marshal scan to_json (Return pool) t (GenUser name now) d =
        Return (i, to_json ((GenUser name now)[0 := VInt i]), d') \<and>
      entities scan colm t (rows d') =
        (entities scan colm t (rows d))(i \<mapsto> Inr ((GenUser name now)[0 := VInt i]))"
proof -
  let ?u = "GenUser name now"
  have t: "t = user_store" using assms(1) by (simp add: UserStore_eq)
  note build = user_store [folded t] and plain = user_store_plain [folded t]
  note pk = user_store_pk [folded t]
  have len: "length ?u = 8" by (simp add: GenUser_def)
  from insert_one_inserts [OF build plain assms(2,3) gen_user_savable [OF assms(4-7), folded t] scan, of d call_value]
  obtain i d1 where ins: "if rows d i \<noteq> None
     then (\<exists>m. InsertOne no_methods call_value marshal (Return pool) t ?u d = Return (Inl m, d1)) \<and>
       entities scan colm t (rows d1) = entities scan colm t (rows d)
     else InsertOne no_methods call_value marshal (Return pool) t ?u d = Return (Inr (?u[0 := VInt i]), d1) \<and>
       entities scan colm t (rows d1) =
         (entities scan colm t (rows d))(i \<mapsto> Inr (mapped_part zeros User t (?u[0 := VInt i])))"
    unfolding pk Let_def by blast
  show ?thesis
  proof (cases "rows d i")
    case (Some r)
    with ins obtain m where "InsertOne no_methods call_value marshal (Return pool) t ?u d = Return (Inl m, d1)"
      by auto
    with Some show ?thesis by (intro exI [of _ i]) (simp add: OneExample_def)
  next
    case None
    with ins have one: "InsertOne no_methods call_value marshal (Return pool) t ?u d = Return (Inr (?u[0 := VInt i]), d1)"
      and es: "entities scan colm t (rows d1) = (entities scan colm t (rows d))(i \<mapsto> Inr (?u[0 := VInt i]))"
      by (simp_all add: t user_store_all_mapped len)
    from find_by_id_reads [OF build plain(1) assms(2) scan, of d1 i] es obtain d2 where
      "FindByID scan (Return pool) t i d1 = Return (Inr (?u[0 := VInt i]), d2)"
      "entities scan colm t (rows d2) = entities scan colm t (rows d1)" by auto
    with None one es show ?thesis
      by (intro exI [of _ i]) (simp add: OneExample_def GenUser_def)
  qed
qed

text \<open>JSON for the witness: only the addresses of the example are written and read.\<close>

definition address_marshal :: "gtype \<Rightarrow> gval \<Rightarrow> string + string" where
  "address_marshal t v =
     (if v = example_address ''gg'' 6 then Inr ''{gg}''
      else if v = VSlice [VPtr (example_address ''gg1'' 1), VPtr (example_address ''gg2'' 2)] then Inr ''[gg1, gg2]''
      else Inl ''unsupported'')"

definition address_unmarshal :: "gtype \<Rightarrow> gval \<Rightarrow> string \<Rightarrow> string + gval" where
  "address_unmarshal t old s =
     (if s = ''{gg}'' then Inr (example_address ''gg'' 6)
      else if s = ''[gg1, gg2]'' then Inr (VSlice [VPtr (example_address ''gg1'' 1), VPtr (example_address ''gg2'' 2)])
      else Inl ''invalid'')"

theorem example_prints_inserted_user_witness:
  "\<exists>i d'. OneExample (\<lambda>_ _. Inl '''') address_marshal (scan_entity (\<lambda>_. []) id address_unmarshal User) (\<lambda>_. ''json'')
      (Return (fixed_db user_store mirror_column)) user_store (GenUser ''bob'' 9) Map.empty = Return (i, ''json'', d')"
proof -
  have j: "json_ok (\<lambda>_. []) address_marshal address_unmarshal address_type (example_address ''gg'' 6)"
    "json_ok (\<lambda>_. []) address_marshal address_unmarshal (TSlice '''' (TPtr address_type)) (GenUser ''bob'' 9 ! 6)"
    by (simp_all add: json_ok_def address_marshal_def address_unmarshal_def GenUser_def example_address_def)
  have m: "address_marshal address_type (example_address ''gg'' 6) = Inr ''{gg}''"
    "address_marshal (TSlice '''' (TPtr address_type)) (GenUser ''bob'' 9 ! 6) = Inr ''[gg1, gg2]''"
    by (simp_all add: address_marshal_def GenUser_def example_address_def)
  from example_prints_inserted_user [OF UserStore_eq fixed_db_executes faithful_mirror m j refl,
      where d = Map.empty and call_value = "\<lambda>_ _. Inl ''''" and to_json = "\<lambda>_. ''json''" and ?narrow32.0 = id]
  obtain i d' where "OneExample (\<lambda>_ _. Inl '''') address_marshal (scan_entity (\<lambda>_. []) id address_unmarshal User) (\<lambda>_. ''json'')
      (Return (fixed_db user_store mirror_column)) user_store (GenUser ''bob'' 9) Map.empty = Return (i, ''json'', d')"
    by auto
  then show ?thesis by blast
qed

end
