(* ===== verification/Keyed_Store.thy ===== *)
theory Keyed_Store
  imports Go_Prelude
begin

text \<open>
  Stores with keys: what the clients of a cache or of a repository rely on. \<open>look\<close> returns the value of a
  key and \<open>change\<close> makes one change, reporting which key it gave which value, or that it failed. The
  locale states that both act on the \<open>content\<close> as on a map. From that it follows what a client reads
  after any sequence of accesses. The locale is interpreted on the caches of \<open>redisx\<close> and on the tables of
  \<open>pgsql\<close>.
\<close>

section \<open>Accesses\<close>

datatype ('k, 'w) access = Read 'k | Change 'w

text \<open>A change that went through: the key, and its new value or none.\<close>

type_synonym ('k, 'v) effect = "'k \<times> 'v option"

fun apply_effects :: "('k, 'v) effect list \<Rightarrow> ('k \<rightharpoonup> 'v) \<Rightarrow> ('k \<rightharpoonup> 'v)" where
  "apply_effects [] m = m"
| "apply_effects ((k, x) # es) m = apply_effects es (m(k := x))"

text \<open>The accesses of a client: the changes that went through, and the state they leave.\<close>

fun play ::
  "('k \<Rightarrow> 's \<Rightarrow> 'v option \<times> 's) \<Rightarrow> ('w \<Rightarrow> 's \<Rightarrow> ('k, 'v) effect option \<times> 's) \<Rightarrow> ('k, 'w) access list \<Rightarrow> 's
     \<Rightarrow> ('k, 'v) effect list \<times> 's" where
  "play look change [] s = ([], s)"
| "play look change (Read k # h) s = play look change h (snd (look k s))"
| "play look change (Change w # h) s =
     (case change w s of
        (None, s1) \<Rightarrow> play look change h s1
      | (Some e, s1) \<Rightarrow> (case play look change h s1 of (es, s2) \<Rightarrow> (e # es, s2)))"

text \<open>What the effects say of a key: the last one that concerns it.\<close>

definition last_effect :: "'k \<Rightarrow> ('k, 'v) effect list \<Rightarrow> 'v option option" where
  "last_effect k es = (case filter (\<lambda>e. fst e = k) es of [] \<Rightarrow> None | es' \<Rightarrow> Some (snd (last es')))"

lemma last_effect_Cons:
  "last_effect k (e # es) =
     (case last_effect k es of Some x \<Rightarrow> Some x | None \<Rightarrow> if fst e = k then Some (snd e) else None)"
  by (auto simp: last_effect_def split: list.splits)

lemma apply_effects_last:
  "apply_effects es m k = (case last_effect k es of Some x \<Rightarrow> x | None \<Rightarrow> m k)"
proof (induction es arbitrary: m)
  case (Cons e es)
  then show ?case by (cases e) (simp add: last_effect_Cons split: option.split)
qed (simp add: last_effect_def)

section \<open>The interface\<close>

locale keyed_store =
  fixes look :: "'k \<Rightarrow> 's \<Rightarrow> 'v option \<times> 's"
    and change :: "'w \<Rightarrow> 's \<Rightarrow> ('k, 'v) effect option \<times> 's"
    and content :: "'s \<Rightarrow> 'k \<rightharpoonup> 'v"
    and good :: "'s \<Rightarrow> bool"
    and fit :: "'w \<Rightarrow> bool"
  assumes look_good: "good s \<Longrightarrow> good (snd (look k s))"
    and look_value: "good s \<Longrightarrow> fst (look k s) = content s k"
    and look_content: "good s \<Longrightarrow> content (snd (look k s)) = content s"
    and change_good: "good s \<Longrightarrow> fit w \<Longrightarrow> good (snd (change w s))"
    and change_content: "good s \<Longrightarrow> fit w \<Longrightarrow>
      content (snd (change w s)) =
        (case fst (change w s) of None \<Rightarrow> content s | Some (k, x) \<Rightarrow> (content s)(k := x))"
begin

lemma play_content:
  assumes "good s" "\<forall>w. Change w \<in> set h \<longrightarrow> fit w" "play look change h s = (es, s')"
  shows "good s' \<and> content s' = apply_effects es (content s)"
  using assms
proof (induction h arbitrary: s es)
  case (Cons a h)
  show ?case
  proof (cases a)
    case (Read k)
    with Cons.prems Cons.IH [OF look_good [OF Cons.prems(1)]] show ?thesis by (simp add: look_content)
  next
    case (Change w)
    obtain r s1 where c: "change w s = (r, s1)" by force
    have fit: "fit w" "\<forall>w. Change w \<in> set h \<longrightarrow> fit w" using Cons.prems(2) Change by auto
    have s1: "good s1" "content s1 = (case r of None \<Rightarrow> content s | Some (k, x) \<Rightarrow> (content s)(k := x))"
      using change_good [OF Cons.prems(1) fit(1)] change_content [OF Cons.prems(1) fit(1)] c by simp_all
    show ?thesis
    proof (cases r)
      case None
      with Cons.IH [OF s1(1) fit(2)] Cons.prems(3) Change c s1 show ?thesis by simp
    next
      case (Some e)
      obtain es1 where p: "play look change h s1 = (es1, s')" "es = e # es1"
        using Cons.prems(3) Change c Some by (auto split: prod.splits)
      with Cons.IH [OF s1(1) fit(2) p(1)] Some s1 show ?thesis by (cases e) (simp del: fun_upd_apply)
    qed
  qed
qed simp

text \<open>
  What a client reads after any accesses: the value of the last change of that key which went
  through, or else what the store held at first.
\<close>

lemma reads_last_change:
  assumes "good s" "\<forall>w. Change w \<in> set h \<longrightarrow> fit w" "play look change h s = (es, s')"
  shows "fst (look k s') = (case last_effect k es of Some x \<Rightarrow> x | None \<Rightarrow> content s k)"
  using play_content [OF assms] by (simp add: look_value apply_effects_last)

end

end
