(* ===== verification/Pg_History.thy ===== *)
theory Pg_History
  imports Pg_Repository Keyed_Store
begin

text \<open>
  A table under any number of operations: the repository contract of \<open>Pg_Repository\<close> as an instance of
  \<open>keyed_store\<close>. The accesses are \<open>InsertOne\<close>, \<open>UpdateByID\<close> and \<open>FindByID\<close> of \<open>pgsql/table_operation.go\<close>; a
  change is judged by what it returns to its caller, \<open>InsertOne\<close> by the entity with the id it was given.
\<close>

section \<open>The accesses\<close>

datatype saving = Insert "gval list" | Update "gval list"

definition key_of :: "table \<Rightarrow> gval list \<Rightarrow> int" where
  "key_of t e = (case e ! Index (pkField t) of VInt i \<Rightarrow> i | _ \<Rightarrow> 0)"

definition repo_look ::
  "(table \<Rightarrow> string + cell list \<Rightarrow> string + gval list) \<Rightarrow> 'd db \<Rightarrow> table \<Rightarrow> int \<Rightarrow> 'd \<Rightarrow> gval list option \<times> 'd" where
  "repo_look scan pool t i d =
     (case FindByID scan (Return pool) t i d of
        Return (Inr e, d') \<Rightarrow> (Some e, d')
      | Return (Inl m, d') \<Rightarrow> (None, d')
      | Panic m \<Rightarrow> (None, d))"

text \<open>What is reported of an entity: its mapped fields, under its id.\<close>

fun repo_change ::
  "(gtype \<Rightarrow> bool) \<Rightarrow> (gtype \<Rightarrow> gval \<Rightarrow> string + dbval) \<Rightarrow> (gtype \<Rightarrow> gval \<Rightarrow> string + string) \<Rightarrow> (gval list \<Rightarrow> gval list) \<Rightarrow>
   'd db \<Rightarrow> table \<Rightarrow> saving \<Rightarrow> 'd \<Rightarrow> (int, gval list) effect option \<times> 'd" where
  "repo_change valuer call_value marshal part pool t (Insert e) d =
     (case InsertOne valuer call_value marshal (Return pool) t e d of
        Return (Inr e', d') \<Rightarrow> (Some (key_of t e', Some (part e')), d')
      | Return (Inl m, d') \<Rightarrow> (None, d')
      | Panic m \<Rightarrow> (None, d))"
| "repo_change valuer call_value marshal part pool t (Update e) d =
     (case UpdateByID valuer call_value marshal (Return pool) t e d of
        Return (Inr _, d') \<Rightarrow> (Some (key_of t e, Some (part e)), d')
      | Return (Inl m, d') \<Rightarrow> (None, d')
      | Panic m \<Rightarrow> (None, d))"

fun entity_of :: "saving \<Rightarrow> gval list" where
  "entity_of (Insert e) = e"
| "entity_of (Update e) = e"

definition repo_content ::
  "(table \<Rightarrow> string + cell list \<Rightarrow> string + gval list) \<Rightarrow> (fieldScanKind \<Rightarrow> dbval \<Rightarrow> cell) \<Rightarrow> table \<Rightarrow>
   ('d \<Rightarrow> int \<rightharpoonup> row) \<Rightarrow> 'd \<Rightarrow> int \<rightharpoonup> gval list" where
  "repo_content scan colm t rows d =
     (\<lambda>i. case entities scan colm t (rows d) i of Some (Inr e) \<Rightarrow> Some e | _ \<Rightarrow> None)"

text \<open>A table on a database that always executes the statements by their meaning.\<close>

definition repository ::
  "(gtype \<Rightarrow> bool) \<Rightarrow> (gtype \<Rightarrow> bool) \<Rightarrow> stype \<Rightarrow> string \<Rightarrow> 'd db \<Rightarrow> table \<Rightarrow> (fieldScanKind \<Rightarrow> dbval \<Rightarrow> cell) \<Rightarrow>
   ('d \<Rightarrow> int \<rightharpoonup> row) \<Rightarrow> bool" where
  "repository scanner valuer T name pool t colm rows \<longleftrightarrow>
     build_table scanner valuer T name = Inr t \<and> plain_table t \<and> distinct (map DBName (t_fields t)) \<and>
     (\<forall>d. executes pool t colm rows d) \<and> faithful_column colm"

lemma repo_content_update:
  "entities scan colm t (rows d') = (entities scan colm t (rows d))(i \<mapsto> Inr e) \<Longrightarrow>
    repo_content scan colm t rows d' = (repo_content scan colm t rows d)(i \<mapsto> e)"
  by (auto simp: repo_content_def fun_eq_iff)

lemma repo_content_same:
  "entities scan colm t (rows d') = entities scan colm t (rows d) \<Longrightarrow>
    repo_content scan colm t rows d' = repo_content scan colm t rows d"
  by (simp add: repo_content_def)

lemma repo_look_reads:
  assumes "repository scanner valuer T name pool t colm rows"
    and "scan = scan_entity zeros narrow32 unmarshal T"
  shows "fst (repo_look scan pool t i d) = repo_content scan colm t rows d i"
    and "repo_content scan colm t rows (snd (repo_look scan pool t i d)) = repo_content scan colm t rows d"
proof -
  from find_by_id_reads [of scanner valuer T name t pool colm rows d scan zeros narrow32 unmarshal i] assms
  obtain d' where d': "entities scan colm t (rows d') = entities scan colm t (rows d)"
    and find: "case entities scan colm t (rows d) i of
       Some x \<Rightarrow> FindByID scan (Return pool) t i d = Return (x, d')
     | None \<Rightarrow> \<exists>m. FindByID scan (Return pool) t i d = Return (Inl m, d')"
    unfolding repository_def by blast
  have "repo_look scan pool t i d = (repo_content scan colm t rows d i, d')"
    using find by (auto simp: repo_look_def repo_content_def split: option.splits sum.splits)
  then show "fst (repo_look scan pool t i d) = repo_content scan colm t rows d i"
    "repo_content scan colm t rows (snd (repo_look scan pool t i d)) = repo_content scan colm t rows d"
    using repo_content_same [OF d'] by simp_all
qed

lemma key_of_update: "Index (pkField t) < length e \<Longrightarrow> key_of t (e[Index (pkField t) := VInt i]) = i"
  by (simp add: key_of_def)

lemma repo_change_updates:
  assumes repo: "repository scanner valuer T name pool t colm rows"
    and scan: "scan = scan_entity zeros narrow32 unmarshal T"
    and fit: "savable scanner valuer call_value zeros narrow32 marshal unmarshal T t (entity_of w)"
  shows "repo_content scan colm t rows (snd (repo_change valuer call_value marshal (mapped_part zeros T t) pool t w d)) =
    (case fst (repo_change valuer call_value marshal (mapped_part zeros T t) pool t w d) of
       None \<Rightarrow> repo_content scan colm t rows d
     | Some (k, x) \<Rightarrow> (repo_content scan colm t rows d)(k := x))"
proof (cases w)
  case (Insert e)
  have r: "build_table scanner valuer T name = Inr t" "plain_table t" "distinct (map DBName (t_fields t))"
    "executes pool t colm rows d" "faithful_column colm"
    using repo by (simp_all add: repository_def)
  have e: "savable scanner valuer call_value zeros narrow32 marshal unmarshal T t e" using fit Insert by simp
  have pk: "Index (pkField t) < length e"
    using e table_facts(3,7) [OF r(1)] by (auto simp: savable_def)
  from insert_one_inserts [OF r e scan] obtain i d' where ins:
    "if rows d i \<noteq> None
     then (\<exists>m. InsertOne valuer call_value marshal (Return pool) t e d = Return (Inl m, d')) \<and>
       entities scan colm t (rows d') = entities scan colm t (rows d)
     else InsertOne valuer call_value marshal (Return pool) t e d =
         Return (Inr (e[Index (pkField t) := VInt i]), d') \<and>
       entities scan colm t (rows d') = (entities scan colm t (rows d))
         (i \<mapsto> Inr (mapped_part zeros T t (e[Index (pkField t) := VInt i])))"
    unfolding Let_def by blast
  show ?thesis
  proof (cases "rows d i = None")
    case True
    with ins have one: "InsertOne valuer call_value marshal (Return pool) t e d =
         Return (Inr (e[Index (pkField t) := VInt i]), d')"
      and upd: "entities scan colm t (rows d') = (entities scan colm t (rows d))
         (i \<mapsto> Inr (mapped_part zeros T t (e[Index (pkField t) := VInt i])))" by simp_all
    show ?thesis using repo_content_update [OF upd] by (simp add: Insert one key_of_update [OF pk])
  next
    case False
    with ins obtain m where "InsertOne valuer call_value marshal (Return pool) t e d = Return (Inl m, d')"
      "entities scan colm t (rows d') = entities scan colm t (rows d)" by auto
    then show ?thesis using repo_content_same [of scan colm t rows d' d] by (simp add: Insert)
  qed
next
  case (Update e)
  have r: "build_table scanner valuer T name = Inr t" "plain_table t" "distinct (map DBName (t_fields t))"
    "executes pool t colm rows d" "faithful_column colm"
    using repo by (simp_all add: repository_def)
  have e: "savable scanner valuer call_value zeros narrow32 marshal unmarshal T t e" using fit Update by simp
  from savable_key [OF r(1) e] obtain i where i: "e ! Index (pkField t) = VInt i" by blast
  then have k: "key_of t e = i" by (simp add: key_of_def)
  from update_by_id_updates [OF r e i scan] obtain d' where upd:
    "if i = 0 \<or> rows d i = None
     then (\<exists>m. UpdateByID valuer call_value marshal (Return pool) t e d = Return (Inl m, d')) \<and>
       entities scan colm t (rows d') = entities scan colm t (rows d)
     else UpdateByID valuer call_value marshal (Return pool) t e d = Return (Inr (), d') \<and>
       entities scan colm t (rows d') = (entities scan colm t (rows d))(i \<mapsto> Inr (mapped_part zeros T t e))" by blast
  show ?thesis
  proof (cases "i = 0 \<or> rows d i = None")
    case True
    with upd obtain m where "UpdateByID valuer call_value marshal (Return pool) t e d = Return (Inl m, d')"
      "entities scan colm t (rows d') = entities scan colm t (rows d)" by auto
    then show ?thesis using repo_content_same [of scan colm t rows d' d] by (simp add: Update)
  next
    case False
    with upd have u: "UpdateByID valuer call_value marshal (Return pool) t e d = Return (Inr (), d')"
      and es: "entities scan colm t (rows d') = (entities scan colm t (rows d))(i \<mapsto> Inr (mapped_part zeros T t e))"
      by simp_all
    show ?thesis using repo_content_update [OF es] by (simp add: Update u k)
  qed
qed

interpretation repo: keyed_store "repo_look (scan_entity zeros narrow32 unmarshal T) pool t"
  "repo_change valuer call_value marshal (mapped_part zeros T t) pool t"
  "repo_content (scan_entity zeros narrow32 unmarshal T) colm t rows"
  "\<lambda>_. repository scanner valuer T name pool t colm rows"
  "\<lambda>w. savable scanner valuer call_value zeros narrow32 marshal unmarshal T t (entity_of w)"
  by unfold_locales (simp_all add: repo_look_reads repo_change_updates)

section \<open>Properties\<close>

definition repo_play ::
  "(gtype \<Rightarrow> bool) \<Rightarrow> (gtype \<Rightarrow> gval \<Rightarrow> string + dbval) \<Rightarrow> (gtype \<Rightarrow> gval \<Rightarrow> string + string) \<Rightarrow> (gval list \<Rightarrow> gval list) \<Rightarrow>
   (table \<Rightarrow> string + cell list \<Rightarrow> string + gval list) \<Rightarrow> 'd db \<Rightarrow> table \<Rightarrow> (int, saving) access list \<Rightarrow> 'd \<Rightarrow>
   (int, gval list) effect list \<times> 'd" where
  "repo_play valuer call_value marshal part scan pool t =
     play (repo_look scan pool t) (repo_change valuer call_value marshal part pool t)"

text \<open>
  C3: what was saved last is found. After any sequence of \<open>InsertOne\<close>, \<open>UpdateByID\<close> and \<open>FindByID\<close> calls on
  a table, successful or not, \<open>FindByID\<close> of an id returns the mapped fields of the entity that the last
  successful call for that id saved, which for \<open>InsertOne\<close> is the entity it has handed back with its id;
  if there was no such call it returns the entity that was in the table at first, or an error if there
  was none or it cannot be read. The database executes the statements by their meaning and the
  entities can be stored.
\<close>

theorem saved_entities_are_found:
  assumes "repository scanner valuer T name pool t colm rows"
    and "scan = scan_entity zeros narrow32 unmarshal T"
    and "\<forall>w. Change w \<in> set h \<longrightarrow>
      savable scanner valuer call_value zeros narrow32 marshal unmarshal T t (entity_of w)"
    and "repo_play valuer call_value marshal (mapped_part zeros T t) scan pool t h d = (es, d')"
  shows "\<exists>d''. case (case last_effect i es of Some x \<Rightarrow> x | None \<Rightarrow> repo_content scan colm t rows d i) of
      Some e \<Rightarrow> FindByID scan (Return pool) t i d' = Return (Inr e, d'')
    | None \<Rightarrow> \<exists>m. FindByID scan (Return pool) t i d' = Return (Inl m, d'')"
proof -
  have "repo_content scan colm t rows d' = apply_effects es (repo_content scan colm t rows d)"
    using repo.play_content [OF assms(1,3)] assms(4) unfolding repo_play_def assms(2) by blast
  then have content: "repo_content scan colm t rows d' i =
      (case last_effect i es of Some x \<Rightarrow> x | None \<Rightarrow> repo_content scan colm t rows d i)"
    by (simp add: apply_effects_last)
  have r: "build_table scanner valuer T name = Inr t" "plain_table t" "executes pool t colm rows d'"
    using assms(1) by (simp_all add: repository_def)
  show ?thesis unfolding content [symmetric]
    using find_by_id_reads [OF r assms(2), of i]
    by (force simp: repo_content_def split: option.splits sum.splits)
qed

theorem saved_entities_are_found_witness:
  "\<exists>d' d''. repo_play no_methods (\<lambda>_ _. Inl '''') example_marshal (mapped_part (\<lambda>_. []) user_type user_table)
      (scan_entity (\<lambda>_. []) id example_unmarshal user_type) (fixed_db user_table mirror_column) user_table
      [Change (Insert user_bob), Read 3] Map.empty =
      ([(7, Some (mapped_part (\<lambda>_. []) user_type user_table user_bob))], d') \<and>
    FindByID (scan_entity (\<lambda>_. []) id example_unmarshal user_type) (Return (fixed_db user_table mirror_column))
      user_table 7 d' = Return (Inr (mapped_part (\<lambda>_. []) user_type user_table user_bob), d'')"
proof -
  let ?scan = "scan_entity (\<lambda>_. []) id example_unmarshal user_type" and ?pool = "fixed_db user_table mirror_column"
    and ?part = "mapped_part (\<lambda>_. []) user_type user_table"
  have repo: "repository no_methods no_methods user_type ''users'' ?pool user_table mirror_column id"
    by (simp add: repository_def user_table user_table_facts fixed_db_executes faithful_mirror)
  have fit: "\<forall>w. Change w \<in> set [Change (Insert user_bob), Read 3] \<longrightarrow>
      savable no_methods no_methods (\<lambda>_ _. Inl '''') (\<lambda>_. []) id example_marshal example_unmarshal
        user_type user_table (entity_of w)"
    by (simp add: user_table_facts)
  have key: "user_bob ! 0 = VInt 7" "length user_bob = 5" by (simp_all add: user_bob_def)
  from insert_one_inserts [OF user_table user_table_facts(2,3) fixed_db_executes faithful_mirror
      user_table_facts(4) refl, of "Map.empty"]
  obtain i d1 where i: "user_bob[0 := VInt i] = user_bob"
    and one: "InsertOne no_methods (\<lambda>_ _. Inl '''') example_marshal (Return ?pool) user_table user_bob Map.empty =
      Return (Inr (user_bob[0 := VInt i]), d1)"
    using user_table_facts(5) by (auto simp: user_table_facts(1) Let_def)
  obtain d2 where look: "snd (repo_look ?scan ?pool user_table 3 d1) = d2" by blast
  have play: "repo_play no_methods (\<lambda>_ _. Inl '''') example_marshal ?part ?scan ?pool user_table
      [Change (Insert user_bob), Read 3] Map.empty = ([(7, Some (?part user_bob))], d2)"
    using one look by (simp add: repo_play_def i key_of_def user_table_facts(1) key)
  from saved_entities_are_found [OF repo refl fit play, of 7] play show ?thesis
    by (auto simp: last_effect_def)
qed

end
