(* ===== verification/Pg_Typing.thy ===== *)
theory Pg_Typing
  imports Pg_Table_Props
begin

text \<open>
  Type safety of reading rows: whatever a query returns, the entities that \<open>scanRows\<close> hands out have
  values of the types of their fields, so that no later use of them can meet a value of another type.
\<close>

section \<open>Single fields\<close>

lemma zero_has_type: "has_type t (zero_value zeros t)"
  by (cases t) (auto simp: bytesType_def timeType_def)

lemma set_int_has_type: "has_type (TInt k n) (set_int (TInt k n) i)"
proof -
  have "- (2 ^ (width k - 1)) \<le> signed_take_bit (width k - 1) i"
    by (rule signed_take_bit_int_greater_eq_minus_exp)
  moreover have "signed_take_bit (width k - 1) i < 2 ^ (width k - 1)"
    by (rule signed_take_bit_int_less_exp)
  ultimately show ?thesis by simp
qed

lemma set_uint_has_type:
  "has_type (TUint k n) (set_uint (TUint k n) i)" "has_type (TUintptr n) (set_uint (TUintptr n) i)"
  by (simp_all add: take_bit_int_less_exp)
    (use take_bit_int_less_exp [of 64 i] in simp)

text \<open>The kind of a field decides its type, as far as the slots are concerned.\<close>

lemma slot_types:
  assumes "classifyScanKind scanner valuer t = (kind, elem)" "kind \<notin> {scanJSON, scanDirect}"
  shows "(kind = scanPtrString \<and> (\<exists>n. elem = Some (TString n) \<and> t = TPtr (TString n))) \<or>
    (kind = scanPtrBool \<and> (\<exists>n. elem = Some (TBool n) \<and> t = TPtr (TBool n))) \<or>
    (kind = scanPtrInt \<and> (\<exists>k n. elem = Some (TInt k n) \<and> t = TPtr (TInt k n))) \<or>
    (kind = scanPtrUint \<and> ((\<exists>k n. elem = Some (TUint k n) \<and> t = TPtr (TUint k n)) \<or>
       (\<exists>n. elem = Some (TUintptr n) \<and> t = TPtr (TUintptr n)))) \<or>
    (kind = scanPtrFloat \<and> (\<exists>w n. elem = Some (TFloat w n) \<and> t = TPtr (TFloat w n))) \<or>
    (kind = scanPtrTime \<and> ((elem = Some timeType \<and> t = TPtr timeType) \<or> (elem = None \<and> t = timeType)))"
proof (cases "\<exists>e. t = TPtr e")
  case True
  then obtain e where "t = TPtr e" by blast
  with assms show ?thesis by (cases e) (auto split: if_splits)
next
  case False
  with assms show ?thesis by (cases t) (auto split: if_splits)
qed

lemma ptr_apply_has_type:
  assumes "classifyScanKind scanner valuer t = (kind, elem)" "kind \<notin> {scanJSON, scanDirect}"
    and "ptr_apply narrow32 kind elem (zero_value zeros t) c = Inr v"
  shows "has_type t v"
proof (cases "c = CNull")
  case True
  with assms(3) have "v = zero_value zeros t" by (simp add: ptr_apply_def)
  then show ?thesis by (simp add: zero_has_type)
next
  case False
  have time: "has_type timeType (VTime i)" for i by (simp add: timeType_def)
  from slot_types [OF assms(1,2)] show ?thesis
    using assms(3) False set_int_has_type set_uint_has_type time
    by (elim disjE exE conjE) (auto simp: ptr_apply_def split: cell.splits if_splits simp del: set_int.simps set_uint.simps has_type.simps(2,3,4,7))
qed

text \<open>What is asked of the library: reading JSON into a variable keeps its type, and so does the driver.\<close>

definition unmarshal_typed :: "(gtype \<Rightarrow> gval \<Rightarrow> string \<Rightarrow> string + gval) \<Rightarrow> bool" where
  "unmarshal_typed unmarshal \<longleftrightarrow>
     (\<forall>t v s w. has_type t v \<longrightarrow> unmarshal t v s = Inr w \<longrightarrow> has_type t w)"

definition typed_row :: "table \<Rightarrow> cell list \<Rightarrow> bool" where
  "typed_row t cells \<longleftrightarrow> (\<forall>(f, c) \<in> set (zip (t_fields t) cells). \<forall>v. c = CDirect v \<longrightarrow> has_type (GoType f) v)"

lemma json_apply_has_type:
  assumes "unmarshal_typed unmarshal" "has_type t v" "json_apply zeros unmarshal name t v buf = Inr w"
  shows "has_type t w"
proof (cases "buf = ''''")
  case True
  with assms show ?thesis by (simp add: json_apply_def)
next
  case False
  show ?thesis
  proof (cases "\<exists>e. t = TPtr e")
    case True
    then obtain e where e: "t = TPtr e" by blast
    define x where "x = (case v of VPtr w \<Rightarrow> w | _ \<Rightarrow> zero_value zeros e)"
    have "has_type e x" using assms(2) e by (cases v) (simp_all add: x_def zero_has_type)
    moreover obtain y where "unmarshal e x buf = Inr y" "w = VPtr y"
      using assms(3) False e
      by (cases "unmarshal e x buf") (auto simp: json_apply_def x_def [symmetric])
    ultimately show ?thesis using assms(1) e by (auto simp: unmarshal_typed_def)
  next
    case nptr: False
    then have "unmarshal t v buf = Inr w"
      using assms(3) False by (cases t) (auto simp: json_apply_def split: sum.splits)
    with assms(1,2) show ?thesis by (auto simp: unmarshal_typed_def)
  qed
qed

section \<open>Rows\<close>

abbreviation typed_entity :: "gtype list \<Rightarrow> gval list \<Rightarrow> bool" where
  "typed_entity ts entity \<equiv> list_all2 has_type ts entity"

text \<open>A field of a table knows its place, its type and how it is scanned.\<close>

definition field_ok :: "(gtype \<Rightarrow> bool) \<Rightarrow> (gtype \<Rightarrow> bool) \<Rightarrow> gtype list \<Rightarrow> fieldMeta \<Rightarrow> bool" where
  "field_ok scanner valuer ts f \<longleftrightarrow> Index f < length ts \<and> GoType f = ts ! Index f \<and>
     classifyScanKind scanner valuer (GoType f) = (ScanKind f, ElemType f)"

lemma typed_update:
  "typed_entity ts e \<Longrightarrow> field_ok scanner valuer ts f \<Longrightarrow> has_type (GoType f) v \<Longrightarrow> typed_entity ts (e[Index f := v])"
  by (auto simp: field_ok_def list_all2_conv_all_nth nth_list_update)

lemma scan_direct_typed:
  "typed_entity ts e \<Longrightarrow> \<forall>(f, c) \<in> set fcs. field_ok scanner valuer ts f \<and> (\<forall>v. c = CDirect v \<longrightarrow> has_type (GoType f) v) \<Longrightarrow>
    typed_entity ts (scan_direct fcs e)"
proof (induction fcs arbitrary: e)
  case (Cons fc fcs)
  obtain f c where fc: "fc = (f, c)" by (cases fc)
  let ?e = "case (scan_target f, c) of (FieldItself, CDirect v) \<Rightarrow> e[Index f := v] | _ \<Rightarrow> e"
  have "typed_entity ts ?e"
    using Cons.prems fc typed_update [of ts e scanner valuer f]
    by (auto split: target.split cell.split)
  then show ?case using Cons fc by simp
qed simp

lemma apply_slots_typed:
  "apply_slots zeros narrow32 fcs e = Inr e' \<Longrightarrow> typed_entity ts e \<Longrightarrow>
    \<forall>(f, c) \<in> set fcs. field_ok scanner valuer ts f \<Longrightarrow> typed_entity ts e'"
proof (induction fcs arbitrary: e)
  case (Cons fc fcs)
  obtain f c where fc: "fc = (f, c)" by (cases fc)
  show ?case
  proof (cases "scan_target f")
    case (Slot kind elem)
    then have k: "ScanKind f = kind" "ElemType f = elem" "kind \<notin> {scanJSON, scanDirect}"
      by (auto simp: scan_target_def split: fieldScanKind.splits)
    obtain v where v: "ptr_apply narrow32 kind elem (zero_value zeros (GoType f)) c = Inr v"
      and rest: "apply_slots zeros narrow32 fcs (e[Index f := v]) = Inr e'"
      using Cons.prems(1) Slot fc by (auto split: sum.splits)
    have f: "field_ok scanner valuer ts f" using Cons.prems(3) fc by simp
    then have "has_type (GoType f) v"
      using k ptr_apply_has_type [OF _ k(3) v] by (auto simp: field_ok_def)
    with f Cons.prems(2) have "typed_entity ts (e[Index f := v])" by (blast intro: typed_update)
    then show ?thesis using Cons.IH [OF rest] Cons.prems(3) by simp
  qed (use Cons fc in auto)
qed simp

lemma apply_json_typed:
  "apply_json zeros unmarshal fcs e = Inr e' \<Longrightarrow> typed_entity ts e \<Longrightarrow> unmarshal_typed unmarshal \<Longrightarrow>
    \<forall>(f, c) \<in> set fcs. field_ok scanner valuer ts f \<Longrightarrow> typed_entity ts e'"
proof (induction fcs arbitrary: e)
  case (Cons fc fcs)
  obtain f c where fc: "fc = (f, c)" by (cases fc)
  define buf where "buf = (case (scan_target f, c) of (JsonBuffer, CJson j) \<Rightarrow> j | _ \<Rightarrow> '''')"
  have run: "(if buf = '''' then apply_json zeros unmarshal fcs e
      else case json_apply zeros unmarshal (fm_name f) (GoType f) (e ! Index f) buf of
          Inl x \<Rightarrow> Inl x
        | Inr v \<Rightarrow> apply_json zeros unmarshal fcs (e[Index f := v])) = Inr e'"
    using Cons.prems(1) unfolding fc apply_json.simps Let_def buf_def .
  show ?case
  proof (cases "buf = ''''")
    case True
    with run have "apply_json zeros unmarshal fcs e = Inr e'" by simp
    then show ?thesis using Cons.IH Cons.prems(2-4) by simp
  next
    case False
    then obtain v where v: "json_apply zeros unmarshal (fm_name f) (GoType f) (e ! Index f) buf = Inr v"
      and rest: "apply_json zeros unmarshal fcs (e[Index f := v]) = Inr e'"
      using run by (auto split: sum.splits)
    have f: "field_ok scanner valuer ts f" using Cons.prems(4) fc by simp
    with Cons.prems(2) have "has_type (GoType f) (e ! Index f)"
      by (auto simp: field_ok_def list_all2_conv_all_nth)
    from json_apply_has_type [OF Cons.prems(3) this v] have "typed_entity ts (e[Index f := v])"
      using typed_update [OF Cons.prems(2) f] by simp
    then show ?thesis using Cons.IH [OF rest] Cons.prems(3,4) by simp
  qed
qed simp

lemma table_fields_ok:
  assumes "build_table scanner valuer T name = Inr t" "f \<in> set (t_fields t)"
  shows "field_ok scanner valuer (List.map sf_type (sfields T)) f"
proof -
  from table_description [of scanner valuer T name] have "t_fields t = metas scanner valuer 0 (sfields T)"
    by (simp add: assms(1))
  with assms(2) have "f \<in> set (metas scanner valuer 0 (sfields T))" by simp
  from metas_nth [OF this] show ?thesis
    by (metis field_meta_simps(2,6,7) field_ok_def length_map nth_map prod.collapse)
qed

lemma scan_entity_typed:
  assumes "build_table scanner valuer T name = Inr t" "unmarshal_typed unmarshal"
    and "\<And>cells. row = Inr cells \<Longrightarrow> typed_row t cells"
    and "scan_entity zeros narrow32 unmarshal T t row = Inr e"
  shows "typed_entity (List.map sf_type (sfields T)) e"
proof -
  obtain cells where row: "row = Inr cells" using assms(4) by (cases row) (auto simp: scan_entity_def)
  define fcs where "fcs = zip (t_fields t) cells"
  have ok: "\<forall>(f, c) \<in> set fcs. field_ok scanner valuer (List.map sf_type (sfields T)) f"
    using table_fields_ok [OF assms(1)] by (auto simp: fcs_def dest: set_zip_leftD)
  moreover have "\<forall>(f, c) \<in> set fcs. \<forall>v. c = CDirect v \<longrightarrow> has_type (GoType f) v"
    using assms(3) [OF row] by (simp add: typed_row_def fcs_def)
  moreover have "typed_entity (List.map sf_type (sfields T)) (zero_entity zeros T)"
    by (simp add: zero_entity_def list_all2_conv_all_nth zero_has_type)
  ultimately have "typed_entity (List.map sf_type (sfields T)) (scan_direct fcs (zero_entity zeros T))"
    by (intro scan_direct_typed) auto
  then show ?thesis
    using assms(2,4) ok
    by (auto simp: scan_entity_def row Let_def fcs_def [symmetric] split: sum.splits
        intro: apply_json_typed apply_slots_typed)
qed



end
