(* ===== verification/Redis_Value.thy ===== *)
theory Redis_Value
  imports Pg_Value
begin

text \<open>
  Simple values as text (\<open>redisx/operation.go\<close>): \<open>convertSimpleValue\<close> and \<open>parseSimpleValue\<close>,
  with the parts of \<open>strconv\<close> they call. Types and values are those of \<open>Pg_Value\<close>; the type
  switches of the code match the predeclared types only, so a defined type such as
  \<open>type Age int\<close> takes the default branch, and the name in \<open>gtype\<close> tells them apart.

  Parameters: \<open>fmt\<close> and \<open>rd\<close> are \<open>strconv.FormatFloat(v, 'g', -1, w)\<close> and
  \<open>strconv.ParseFloat(s, w)\<close> on bit patterns.
\<close>

section \<open>Errors\<close>

datatype redis_error =
    ErrNil                \<comment> \<open>\<open>redis.Nil\<close>, the key is absent\<close>
  | ErrServer string      \<comment> \<open>the command failed\<close>
  | ErrSyntax             \<comment> \<open>\<open>strconv.ErrSyntax\<close>\<close>
  | ErrRange              \<comment> \<open>\<open>strconv.ErrRange\<close>\<close>
  | ErrNew string         \<comment> \<open>\<open>errors.New\<close>\<close>
  | ErrCodec string       \<comment> \<open>from \<open>encoding/json\<close> or \<open>proto\<close>\<close>

section \<open>strconv\<close>

definition formatUint :: "int \<Rightarrow> string" where
  "formatUint n = dec (nat n)"

definition formatInt :: "int \<Rightarrow> string" where
  "formatInt i = (if i < 0 then CHR ''-'' # dec (nat (- i)) else dec (nat i))"

definition formatBool :: "bool \<Rightarrow> string" where
  "formatBool b = (if b then ''true'' else ''false'')"

text \<open>The loop of \<open>strconv.ParseUint\<close> in base 10: the first offending character decides the error.\<close>

fun parse_digits :: "nat \<Rightarrow> nat \<Rightarrow> string \<Rightarrow> redis_error + nat" where
  "parse_digits maxVal n [] = Inr n"
| "parse_digits maxVal n (c # cs) =
     (if \<not> is_digit c then Inl ErrSyntax
      else if 10 * n + (of_char c - 48) > maxVal then Inl ErrRange
      else parse_digits maxVal (10 * n + (of_char c - 48)) cs)"

definition parseUint :: "nat \<Rightarrow> string \<Rightarrow> redis_error + int" where
  "parseUint bits s =
     (if s = [] then Inl ErrSyntax else map_sum id int (parse_digits (2 ^ bits - 1) 0 s))"

definition parse_sign :: "string \<Rightarrow> bool \<times> string" where
  "parse_sign s = (case s of [] \<Rightarrow> (False, s)
     | c # cs \<Rightarrow> if c = CHR ''+'' then (False, cs) else if c = CHR ''-'' then (True, cs) else (False, s))"

definition parseInt :: "nat \<Rightarrow> string \<Rightarrow> redis_error + int" where
  "parseInt bits s =
     (if s = [] then Inl ErrSyntax
      else let (neg, ds) = parse_sign s in
        case parseUint bits ds of
          Inl e \<Rightarrow> Inl e
        | Inr un \<Rightarrow>
            if \<not> neg \<and> un \<ge> 2 ^ (bits - 1) then Inl ErrRange
            else if neg \<and> un > 2 ^ (bits - 1) then Inl ErrRange
            else Inr (if neg then - un else un))"

definition parseBool :: "string \<Rightarrow> redis_error + bool" where
  "parseBool s =
     (if s \<in> {''1'', ''t'', ''T'', ''TRUE'', ''true'', ''True''} then Inr True
      else if s \<in> {''0'', ''f'', ''F'', ''FALSE'', ''false'', ''False''} then Inr False
      else Inl ErrSyntax)"

section \<open>The type switches\<close>

fun int_name :: "int_kind \<Rightarrow> string" where
  "int_name K = ''int''"
| "int_name K8 = ''int8''"
| "int_name K16 = ''int16''"
| "int_name K32 = ''int32''"
| "int_name K64 = ''int64''"

fun predeclared :: "gtype \<Rightarrow> bool" where
  "predeclared (TString n) = (n = ''string'')"
| "predeclared (TInt k n) = (n = int_name k)"
| "predeclared (TUint k n) = (n = CHR ''u'' # int_name k)"
| "predeclared (TFloat w n) = (w = 32 \<and> n = ''float32'' \<or> w = 64 \<and> n = ''float64'')"
| "predeclared (TBool n) = (n = ''bool'')"
| "predeclared _ = False"

fun simple_text :: "(nat \<Rightarrow> 64 word \<Rightarrow> string) \<Rightarrow> gtype \<Rightarrow> gval \<Rightarrow> string option" where
  "simple_text fmt (TString n) (VString s) = Some s"
| "simple_text fmt (TInt k n) (VInt i) = Some (formatInt i)"
| "simple_text fmt (TUint k n) (VUint i) = Some (formatUint i)"
| "simple_text fmt (TFloat w n) (VFloat f) = Some (fmt w f)"
| "simple_text fmt (TBool n) (VBool b) = Some (formatBool b)"
| "simple_text fmt _ _ = None"

definition convertSimpleValue ::
  "(nat \<Rightarrow> 64 word \<Rightarrow> string) \<Rightarrow> gtype \<Rightarrow> gval \<Rightarrow> redis_error + string" where
  "convertSimpleValue fmt T v =
     (case if predeclared T then simple_text fmt T v else None of
        Some s \<Rightarrow> Inr s
      | None \<Rightarrow> Inl (ErrNew ''unsupported simple type''))"

text \<open>What a branch of \<open>parseSimpleValue\<close> returns: on an error the zero value goes with it.\<close>

definition parsed :: "gval \<Rightarrow> ('a \<Rightarrow> gval) \<Rightarrow> redis_error + 'a \<Rightarrow> gval \<times> redis_error option" where
  "parsed z mk r = (case r of Inl e \<Rightarrow> (z, Some e) | Inr x \<Rightarrow> (mk x, None))"

fun parse_kind ::
  "(nat \<Rightarrow> string \<Rightarrow> redis_error + 64 word) \<Rightarrow> gtype \<Rightarrow> string \<Rightarrow> gval \<times> redis_error option" where
  "parse_kind rd (TString n) s = (VString s, None)"
| "parse_kind rd (TInt k n) s = parsed (VInt 0) VInt (parseInt (width k) s)"
| "parse_kind rd (TUint k n) s = parsed (VUint 0) VUint (parseUint (width k) s)"
| "parse_kind rd (TFloat w n) s = parsed (VFloat 0) VFloat (rd w s)"
| "parse_kind rd (TBool n) s = parsed (VBool False) VBool (parseBool s)"
| "parse_kind rd T s = (zero_value (\<lambda>_. []) T, Some (ErrNew ''GetSimple unsupported type''))"

definition parseSimpleValue ::
  "(nat \<Rightarrow> string \<Rightarrow> redis_error + 64 word) \<Rightarrow> gtype \<Rightarrow> string \<Rightarrow> gval \<times> redis_error option" where
  "parseSimpleValue rd T s =
     (if predeclared T then parse_kind rd T s
      else (zero_value (\<lambda>_. []) T, Some (ErrNew ''GetSimple unsupported type'')))"

section \<open>Printing and parsing\<close>

lemma parse_digits_append:
  "parse_digits m n (xs @ ys) =
     (case parse_digits m n xs of Inl e \<Rightarrow> Inl e | Inr n' \<Rightarrow> parse_digits m n' ys)"
  by (induction m n xs rule: parse_digits.induct) auto

lemma parse_digits_dec: "n \<le> m \<Longrightarrow> parse_digits m 0 (dec n) = Inr n"
proof (induction n rule: dec.induct)
  case (1 n)
  show ?case
  proof (cases "n < 10")
    case True
    then show ?thesis using 1 by (simp add: dec.simps [of n])
  next
    case False
    then have "parse_digits m 0 (dec (n div 10)) = Inr (n div 10)" using 1 by simp
    then show ?thesis using False 1 by (simp add: dec.simps [of n] parse_digits_append)
  qed
qed

text \<open>A string is accepted exactly when it is a numeral of digits whose value is in the range.\<close>

lemma read_dec_mono: "n \<le> read_dec n s"
proof (induction n s rule: read_dec.induct)
  case (2 acc c cs)
  have "acc \<le> 10 * acc + (of_char c - 48)" by simp
  also have "\<dots> \<le> read_dec (10 * acc + (of_char c - 48)) cs" by (rule 2)
  finally show ?case by simp
qed simp

lemma parse_digits_Inr_iff:
  "parse_digits m n s = Inr v \<longleftrightarrow>
     (\<forall>c \<in> set s. is_digit c) \<and> v = read_dec n s \<and> (s = [] \<or> read_dec n s \<le> m)"
proof (induction m n s rule: parse_digits.induct)
  case (2 m n c cs)
  let ?n = "10 * n + (of_char c - 48)"
  have "?n \<le> read_dec ?n cs" by (rule read_dec_mono)
  then show ?case using 2 by (cases "cs = []") auto
qed auto

definition is_numeral :: "string \<Rightarrow> bool" where
  "is_numeral s \<longleftrightarrow> s \<noteq> [] \<and> list_all is_digit s"

lemma parseUint_Inr_iff:
  "parseUint bits s = Inr v \<longleftrightarrow>
     is_numeral s \<and> v = int (read_dec 0 s) \<and> v < 2 ^ bits"
proof -
  have lt: "read_dec 0 s \<le> 2 ^ bits - Suc 0 \<longleftrightarrow> read_dec 0 s < 2 ^ bits"
    using zero_less_power [of "2 :: nat" bits] by linarith
  have inr: "map_sum id int x = Inr v \<longleftrightarrow> (\<exists>n. x = Inr n \<and> v = int n)" for x :: "redis_error + nat"
    by (cases x) auto
  show ?thesis
    by (auto simp: parseUint_def inr parse_digits_Inr_iff is_numeral_def list_all_iff lt)
qed

lemma is_numeral_dec [simp]: "is_numeral (dec n)"
  by (auto simp: is_numeral_def list_all_iff intro: dec_digits)

lemma is_digit_not_sign: "is_digit c \<Longrightarrow> c \<noteq> CHR ''+'' \<and> c \<noteq> CHR ''-''"
  by (auto simp: is_digit_def)

lemma parse_sign_numeral [simp]: "is_numeral s \<Longrightarrow> parse_sign s = (False, s)"
  by (cases s) (auto simp: parse_sign_def is_numeral_def dest: is_digit_not_sign)

lemma parse_sign_minus [simp]: "parse_sign (CHR ''-'' # s) = (True, s)"
  by (simp add: parse_sign_def)

lemma parseUint_dec: "int n < 2 ^ bits \<Longrightarrow> parseUint bits (dec n) = Inr (int n)"
  by (simp add: parseUint_Inr_iff)

lemma parseUint_formatUint:
  "0 \<le> i \<Longrightarrow> i < 2 ^ bits \<Longrightarrow> parseUint bits (formatUint i) = Inr i"
  using parseUint_dec [of "nat i" bits] by (simp add: formatUint_def)

lemma pow_half: "0 < bits \<Longrightarrow> (2 :: int) ^ bits = 2 * 2 ^ (bits - 1)"
  by (cases bits) auto

lemma parseInt_formatInt:
  assumes "0 < bits" "- (2 ^ (bits - 1)) \<le> i" "i < 2 ^ (bits - 1)"
  shows "parseInt bits (formatInt i) = Inr i"
proof (cases "i < 0")
  case True
  have "- i < 2 ^ bits" using assms pow_half [of bits] by linarith
  then have "parseUint bits (dec (nat (- i))) = Inr (- i)"
    using parseUint_dec [of "nat (- i)" bits] True by simp
  then show ?thesis using True assms by (simp add: parseInt_def formatInt_def)
next
  case False
  have "i < 2 ^ bits" using assms pow_half [of bits] by linarith
  then have "parseUint bits (dec (nat i)) = Inr i"
    using parseUint_dec [of "nat i" bits] False by simp
  then show ?thesis using False assms by (simp add: parseInt_def formatInt_def)
qed

lemma width_pos [simp]: "0 < width k"
  by (cases k) auto

end
