(* ===== verification/Redis_Operation.thy ===== *)
theory Redis_Operation
  imports Redis_Value
begin

text \<open>
  The operations on keys of \<open>redisx/operation.go\<close>, \<open>getEntity\<close> of \<open>redisx/common.go\<close> and the three
  caches of \<open>cacher.go\<close>, \<open>jsonCacher.go\<close> and \<open>simpleCacher.go\<close>.

  The server is a parameter: \<open>redis\<close> is the record of the commands the code sends, each a function
  of the server's state, and \<open>redis_ok view r\<close> collects what the commands are documented to do,
  \<open>view\<close> giving the live value of a key. A command may fail at any time, and a failed write may or
  may not have happened. \<open>encoding/json\<close> and \<open>proto\<close> are parameters \<open>marshal\<close> and \<open>unmarshal\<close>;
  \<open>unmarshal\<close> maps the text and the old content of its target to the new content.
\<close>

section \<open>The server\<close>

record 's redis =
  cmd_get :: "string \<Rightarrow> 's \<Rightarrow> (redis_error + string) \<times> 's"
  cmd_set :: "string \<Rightarrow> string \<Rightarrow> int \<Rightarrow> 's \<Rightarrow> redis_error option \<times> 's"
  cmd_setnx :: "string \<Rightarrow> string \<Rightarrow> int \<Rightarrow> 's \<Rightarrow> (redis_error + bool) \<times> 's"
  cmd_del :: "string list \<Rightarrow> 's \<Rightarrow> (redis_error + nat) \<times> 's"

definition get_ok :: "('s \<Rightarrow> string \<Rightarrow> string option) \<Rightarrow> 's redis \<Rightarrow> bool" where
  "get_ok view r \<longleftrightarrow> (\<forall>k s. view (snd (cmd_get r k s)) = view s \<and>
     (case fst (cmd_get r k s) of
        Inr v \<Rightarrow> view s k = Some v
      | Inl ErrNil \<Rightarrow> view s k = None
      | Inl e \<Rightarrow> \<exists>m. e = ErrServer m))"

definition set_ok :: "('s \<Rightarrow> string \<Rightarrow> string option) \<Rightarrow> 's redis \<Rightarrow> bool" where
  "set_ok view r \<longleftrightarrow> (\<forall>k v x s.
     (case fst (cmd_set r k v x s) of
        None \<Rightarrow> view (snd (cmd_set r k v x s)) = (view s)(k \<mapsto> v)
      | Some e \<Rightarrow> (\<exists>m. e = ErrServer m) \<and>
                  view (snd (cmd_set r k v x s)) \<in> {view s, (view s)(k \<mapsto> v)}))"

definition setnx_ok :: "('s \<Rightarrow> string \<Rightarrow> string option) \<Rightarrow> 's redis \<Rightarrow> bool" where
  "setnx_ok view r \<longleftrightarrow> (\<forall>k v x s.
     (case fst (cmd_setnx r k v x s) of
        Inr b \<Rightarrow> b = (view s k = None) \<and>
                 view (snd (cmd_setnx r k v x s)) = (if b then (view s)(k \<mapsto> v) else view s)
      | Inl e \<Rightarrow> (\<exists>m. e = ErrServer m) \<and>
                 view (snd (cmd_setnx r k v x s)) \<in> {view s, (view s)(k \<mapsto> v)}))"

definition del_ok :: "('s \<Rightarrow> string \<Rightarrow> string option) \<Rightarrow> 's redis \<Rightarrow> bool" where
  "del_ok view r \<longleftrightarrow> (\<forall>ks s.
     (case fst (cmd_del r ks s) of
        Inr n \<Rightarrow> n = card (set ks \<inter> dom (view s)) \<and>
                 view (snd (cmd_del r ks s)) = view s |` (- set ks)
      | Inl e \<Rightarrow> (\<exists>m. e = ErrServer m) \<and>
                 view (snd (cmd_del r ks s)) \<in> {view s, view s |` (- set ks)}))"

definition redis_ok :: "('s \<Rightarrow> string \<Rightarrow> string option) \<Rightarrow> 's redis \<Rightarrow> bool" where
  "redis_ok view r \<longleftrightarrow> get_ok view r \<and> set_ok view r \<and> setnx_ok view r \<and> del_ok view r"

section \<open>Operations on keys\<close>

definition SetSimple ::
  "'s redis \<Rightarrow> (nat \<Rightarrow> 64 word \<Rightarrow> string) \<Rightarrow> gtype \<Rightarrow> string \<Rightarrow> gval \<Rightarrow> int \<Rightarrow> 's
     \<Rightarrow> redis_error option \<times> 's" where
  "SetSimple r fmt T key value expire s =
     (case convertSimpleValue fmt T value of
        Inl e \<Rightarrow> (Some e, s)
      | Inr t \<Rightarrow> cmd_set r key t expire s)"

definition GetSimple ::
  "'s redis \<Rightarrow> (nat \<Rightarrow> string \<Rightarrow> redis_error + 64 word) \<Rightarrow> gtype \<Rightarrow> string \<Rightarrow> 's
     \<Rightarrow> gval \<times> redis_error option \<times> 's" where
  "GetSimple r rd T key s =
     (case cmd_get r key s of
        (Inl e, s') \<Rightarrow> (zero_value (\<lambda>_. []) T, Some e, s')
      | (Inr t, s') \<Rightarrow> (let (v, e) = parseSimpleValue rd T t in (v, e, s')))"

definition SetJSON ::
  "'s redis \<Rightarrow> (gval \<Rightarrow> redis_error + string) \<Rightarrow> string \<Rightarrow> gval \<Rightarrow> int \<Rightarrow> 's
     \<Rightarrow> redis_error option \<times> 's" where
  "SetJSON r marshal key value expire s =
     (case marshal value of
        Inl e \<Rightarrow> (Some e, s)
      | Inr data \<Rightarrow> cmd_set r key data expire s)"

text \<open>\<open>GetJSON\<close> and \<open>GetProto\<close> return their error and the target they were given, as it is now.\<close>

definition GetJSON ::
  "'s redis \<Rightarrow> (string \<Rightarrow> gval \<Rightarrow> gval \<times> redis_error option) \<Rightarrow> string \<Rightarrow> gval \<Rightarrow> 's
     \<Rightarrow> gval \<times> redis_error option \<times> 's" where
  "GetJSON r unmarshal key out s =
     (case cmd_get r key s of
        (Inl e, s') \<Rightarrow> (out, Some e, s')
      | (Inr data, s') \<Rightarrow> (let (out', e) = unmarshal data out in (out', e, s')))"

definition SetPorto ::
  "'s redis \<Rightarrow> (gval \<Rightarrow> redis_error + string) \<Rightarrow> string \<Rightarrow> gval \<Rightarrow> int \<Rightarrow> 's
     \<Rightarrow> redis_error option \<times> 's" where
  "SetPorto r marshal key value expire s =
     (case marshal value of
        Inl e \<Rightarrow> (Some e, s)
      | Inr byteArr \<Rightarrow> cmd_set r key byteArr expire s)"

definition GetProto ::
  "'s redis \<Rightarrow> (string \<Rightarrow> gval \<Rightarrow> gval \<times> redis_error option) \<Rightarrow> string \<Rightarrow> gval \<Rightarrow> 's
     \<Rightarrow> gval \<times> redis_error option \<times> 's" where
  "GetProto r unmarshal key out s =
     (case cmd_get r key s of
        (Inl e, s') \<Rightarrow> (out, Some e, s')
      | (Inr data, s') \<Rightarrow> (let (out', e) = unmarshal data out in (out', e, s')))"

definition SetNXSimple ::
  "'s redis \<Rightarrow> (nat \<Rightarrow> 64 word \<Rightarrow> string) \<Rightarrow> gtype \<Rightarrow> string \<Rightarrow> gval \<Rightarrow> int \<Rightarrow> 's
     \<Rightarrow> bool \<times> redis_error option \<times> 's" where
  "SetNXSimple r fmt T key value expire s =
     (case convertSimpleValue fmt T value of
        Inl e \<Rightarrow> (False, Some e, s)
      | Inr t \<Rightarrow>
          (case cmd_setnx r key t expire s of
             (Inl e, s') \<Rightarrow> (False, Some e, s')
           | (Inr result, s') \<Rightarrow> (result, None, s')))"

definition SetNXJSON ::
  "'s redis \<Rightarrow> (gval \<Rightarrow> redis_error + string) \<Rightarrow> string \<Rightarrow> gval \<Rightarrow> int \<Rightarrow> 's
     \<Rightarrow> bool \<times> redis_error option \<times> 's" where
  "SetNXJSON r marshal key value expire s =
     (case marshal value of
        Inl e \<Rightarrow> (False, Some e, s)
      | Inr data \<Rightarrow>
          (case cmd_setnx r key data expire s of
             (Inl e, s') \<Rightarrow> (False, Some e, s')
           | (Inr result, s') \<Rightarrow> (result, None, s')))"

definition SetNXProto ::
  "'s redis \<Rightarrow> (gval \<Rightarrow> redis_error + string) \<Rightarrow> string \<Rightarrow> gval \<Rightarrow> int \<Rightarrow> 's
     \<Rightarrow> bool \<times> redis_error option \<times> 's" where
  "SetNXProto r marshal key value expire s =
     (case marshal value of
        Inl e \<Rightarrow> (False, Some e, s)
      | Inr byteArr \<Rightarrow>
          (case cmd_setnx r key byteArr expire s of
             (Inl e, s') \<Rightarrow> (False, Some e, s')
           | (Inr result, s') \<Rightarrow> (result, None, s')))"

definition Delete :: "'s redis \<Rightarrow> string list \<Rightarrow> 's \<Rightarrow> nat \<times> redis_error option \<times> 's" where
  "Delete r keys s =
     (if length keys = 0 then (0, None, s)
      else case cmd_del r keys s of
             (Inl e, s') \<Rightarrow> (0, Some e, s')
           | (Inr count, s') \<Rightarrow> (count, None, s'))"

section \<open>Caches\<close>

record cacher =
  cache_expire :: int
  cache_prefix :: string

definition NewCacher :: "string \<Rightarrow> int \<Rightarrow> cacher" where
  "NewCacher prefix expire = \<lparr>cache_expire = expire, cache_prefix = prefix\<rparr>"

definition NewJSONCacher :: "string \<Rightarrow> int \<Rightarrow> cacher" where
  "NewJSONCacher prefix expire = \<lparr>cache_expire = expire, cache_prefix = prefix\<rparr>"

definition NewSimpleCacher :: "string \<Rightarrow> int \<Rightarrow> cacher" where
  "NewSimpleCacher prefix expire = \<lparr>cache_expire = expire, cache_prefix = prefix\<rparr>"

definition cacheKey :: "cacher \<Rightarrow> ('k \<Rightarrow> string) \<Rightarrow> 'k \<Rightarrow> string" where
  "cacheKey c GenKey key = cache_prefix c @ '':'' @ GenKey key"

definition StringKey_GenKey :: "string \<Rightarrow> string" where
  "StringKey_GenKey k = k"

definition getEntity :: "(string \<Rightarrow> gval list) \<Rightarrow> gtype \<Rightarrow> gval" where
  "getEntity zeros T =
     (case T of TPtr elemType \<Rightarrow> VPtr (zero_value zeros elemType) | _ \<Rightarrow> zero_value zeros T)"

subsection \<open>Cacher\<close>

definition Cacher_Get ::
  "'s redis \<Rightarrow> (string \<Rightarrow> gval \<Rightarrow> gval \<times> redis_error option) \<Rightarrow> gval \<Rightarrow> cacher
     \<Rightarrow> ('k \<Rightarrow> string) \<Rightarrow> 'k \<Rightarrow> 's \<Rightarrow> gval \<times> redis_error option \<times> 's" where
  "Cacher_Get r unmarshal entity c GenKey key s = GetProto r unmarshal (cacheKey c GenKey key) entity s"

definition Cacher_Set ::
  "'s redis \<Rightarrow> (gval \<Rightarrow> redis_error + string) \<Rightarrow> cacher \<Rightarrow> ('k \<Rightarrow> string) \<Rightarrow> 'k \<Rightarrow> gval \<Rightarrow> 's
     \<Rightarrow> redis_error option \<times> 's" where
  "Cacher_Set r marshal c GenKey key value s =
     SetPorto r marshal (cacheKey c GenKey key) value (cache_expire c) s"

definition Cacher_GetAndDelete ::
  "'s redis \<Rightarrow> (string \<Rightarrow> gval \<Rightarrow> gval \<times> redis_error option) \<Rightarrow> gval \<Rightarrow> cacher
     \<Rightarrow> ('k \<Rightarrow> string) \<Rightarrow> 'k \<Rightarrow> 's \<Rightarrow> gval \<times> redis_error option \<times> 's" where
  "Cacher_GetAndDelete r unmarshal entity c GenKey key s =
     (case GetProto r unmarshal (cacheKey c GenKey key) entity s of
        (result, None, s') \<Rightarrow> (result, None, snd (cmd_del r [cacheKey c GenKey key] s'))
      | (result, Some e, s') \<Rightarrow> (result, Some e, s'))"

definition Cacher_GetWithFallback ::
  "'s redis \<Rightarrow> (gval \<Rightarrow> redis_error + string) \<Rightarrow> (string \<Rightarrow> gval \<Rightarrow> gval \<times> redis_error option)
     \<Rightarrow> gval \<Rightarrow> cacher \<Rightarrow> ('k \<Rightarrow> string) \<Rightarrow> 'k \<Rightarrow> ('s \<Rightarrow> gval \<times> redis_error option \<times> 's) \<Rightarrow> 's
     \<Rightarrow> gval \<times> redis_error option \<times> 's" where
  "Cacher_GetWithFallback r marshal unmarshal entity c GenKey key fallback s =
     (case Cacher_Get r unmarshal entity c GenKey key s of
        (result, None, s1) \<Rightarrow> (result, None, s1)
      | (_, Some _, s1) \<Rightarrow>
          (case fallback s1 of
             (result, Some e, s2) \<Rightarrow> (result, Some e, s2)
           | (result, None, s2) \<Rightarrow> (result, None, snd (Cacher_Set r marshal c GenKey key result s2))))"

subsection \<open>JSONCacher\<close>

definition JSONCacher_Get ::
  "'s redis \<Rightarrow> (string \<Rightarrow> gval \<Rightarrow> gval \<times> redis_error option) \<Rightarrow> gval \<Rightarrow> cacher
     \<Rightarrow> ('k \<Rightarrow> string) \<Rightarrow> 'k \<Rightarrow> 's \<Rightarrow> gval \<times> redis_error option \<times> 's" where
  "JSONCacher_Get r unmarshal entity c GenKey key s = GetJSON r unmarshal (cacheKey c GenKey key) entity s"

definition JSONCacher_Set ::
  "'s redis \<Rightarrow> (gval \<Rightarrow> redis_error + string) \<Rightarrow> cacher \<Rightarrow> ('k \<Rightarrow> string) \<Rightarrow> 'k \<Rightarrow> gval \<Rightarrow> 's
     \<Rightarrow> redis_error option \<times> 's" where
  "JSONCacher_Set r marshal c GenKey key value s =
     SetJSON r marshal (cacheKey c GenKey key) value (cache_expire c) s"

definition JSONCacher_GetAndDelete ::
  "'s redis \<Rightarrow> (string \<Rightarrow> gval \<Rightarrow> gval \<times> redis_error option) \<Rightarrow> gval \<Rightarrow> cacher
     \<Rightarrow> ('k \<Rightarrow> string) \<Rightarrow> 'k \<Rightarrow> 's \<Rightarrow> gval \<times> redis_error option \<times> 's" where
  "JSONCacher_GetAndDelete r unmarshal entity c GenKey key s =
     (case GetJSON r unmarshal (cacheKey c GenKey key) entity s of
        (result, None, s') \<Rightarrow> (result, None, snd (cmd_del r [cacheKey c GenKey key] s'))
      | (result, Some e, s') \<Rightarrow> (result, Some e, s'))"

definition JSONCacher_GetWithFallback ::
  "'s redis \<Rightarrow> (gval \<Rightarrow> redis_error + string) \<Rightarrow> (string \<Rightarrow> gval \<Rightarrow> gval \<times> redis_error option)
     \<Rightarrow> gval \<Rightarrow> cacher \<Rightarrow> ('k \<Rightarrow> string) \<Rightarrow> 'k \<Rightarrow> ('s \<Rightarrow> gval \<times> redis_error option \<times> 's) \<Rightarrow> 's
     \<Rightarrow> gval \<times> redis_error option \<times> 's" where
  "JSONCacher_GetWithFallback r marshal unmarshal entity c GenKey key fallback s =
     (case JSONCacher_Get r unmarshal entity c GenKey key s of
        (result, None, s1) \<Rightarrow> (result, None, s1)
      | (_, Some _, s1) \<Rightarrow>
          (case fallback s1 of
             (result, Some e, s2) \<Rightarrow> (result, Some e, s2)
           | (result, None, s2) \<Rightarrow> (result, None, snd (JSONCacher_Set r marshal c GenKey key result s2))))"

subsection \<open>SimpleCacher\<close>

definition SimpleCacher_Get ::
  "'s redis \<Rightarrow> (nat \<Rightarrow> string \<Rightarrow> redis_error + 64 word) \<Rightarrow> gtype \<Rightarrow> cacher
     \<Rightarrow> ('k \<Rightarrow> string) \<Rightarrow> 'k \<Rightarrow> 's \<Rightarrow> gval \<times> redis_error option \<times> 's" where
  "SimpleCacher_Get r rd T c GenKey key s = GetSimple r rd T (cacheKey c GenKey key) s"

definition SimpleCacher_Set ::
  "'s redis \<Rightarrow> (nat \<Rightarrow> 64 word \<Rightarrow> string) \<Rightarrow> gtype \<Rightarrow> cacher \<Rightarrow> ('k \<Rightarrow> string) \<Rightarrow> 'k \<Rightarrow> gval \<Rightarrow> 's
     \<Rightarrow> redis_error option \<times> 's" where
  "SimpleCacher_Set r fmt T c GenKey key value s =
     SetSimple r fmt T (cacheKey c GenKey key) value (cache_expire c) s"

definition SimpleCacher_GetAndDelete ::
  "'s redis \<Rightarrow> (nat \<Rightarrow> string \<Rightarrow> redis_error + 64 word) \<Rightarrow> gtype \<Rightarrow> cacher
     \<Rightarrow> ('k \<Rightarrow> string) \<Rightarrow> 'k \<Rightarrow> 's \<Rightarrow> gval \<times> redis_error option \<times> 's" where
  "SimpleCacher_GetAndDelete r rd T c GenKey key s =
     (case GetSimple r rd T (cacheKey c GenKey key) s of
        (result, None, s') \<Rightarrow> (result, None, snd (cmd_del r [cacheKey c GenKey key] s'))
      | (result, Some e, s') \<Rightarrow> (result, Some e, s'))"

definition SimpleCacher_GetWithFallback ::
  "'s redis \<Rightarrow> (nat \<Rightarrow> 64 word \<Rightarrow> string) \<Rightarrow> (nat \<Rightarrow> string \<Rightarrow> redis_error + 64 word) \<Rightarrow> gtype
     \<Rightarrow> cacher \<Rightarrow> ('k \<Rightarrow> string) \<Rightarrow> 'k \<Rightarrow> ('s \<Rightarrow> gval \<times> redis_error option \<times> 's) \<Rightarrow> 's
     \<Rightarrow> gval \<times> redis_error option \<times> 's" where
  "SimpleCacher_GetWithFallback r fmt rd T c GenKey key fallback s =
     (case SimpleCacher_Get r rd T c GenKey key s of
        (result, None, s1) \<Rightarrow> (result, None, s1)
      | (_, Some _, s1) \<Rightarrow>
          (case fallback s1 of
             (result, Some e, s2) \<Rightarrow> (result, Some e, s2)
           | (result, None, s2) \<Rightarrow> (result, None, snd (SimpleCacher_Set r fmt T c GenKey key result s2))))"

end
