(* ===== verification/Redis_Props.thy ===== *)
theory Redis_Props
  imports Redis_Operation Keyed_Store
begin

text \<open>
  What the key operations and the caches of \<open>redisx\<close> promise. The three caches have one shape over
  different codecs: the locale \<open>read_through\<close> states it, proves what it gives once, and is
  interpreted on \<open>SimpleCacher\<close>, \<open>JSONCacher\<close> and \<open>Cacher\<close>. A value that is read may have been read
  long after it was written: the hypothesis \<open>view s2 k = view s1 k\<close> says that the key has neither
  been overwritten nor expired in between.
\<close>

section \<open>Facts about the commands\<close>

lemma cmd_getD:
  assumes "redis_ok view r" "cmd_get r k s = (res, s')"
  shows "view s' = view s \<and>
    (case res of Inr v \<Rightarrow> view s k = Some v
     | Inl e \<Rightarrow> e = ErrNil \<and> view s k = None \<or> (\<exists>m. e = ErrServer m))"
proof -
  have "get_ok view r" using assms(1) by (simp add: redis_ok_def)
  then have "view (snd (cmd_get r k s)) = view s \<and>
     (case fst (cmd_get r k s) of Inr v \<Rightarrow> view s k = Some v | Inl ErrNil \<Rightarrow> view s k = None
      | Inl e \<Rightarrow> \<exists>m. e = ErrServer m)"
    unfolding get_ok_def by blast
  then show ?thesis using assms(2) by (auto split: sum.splits redis_error.splits)
qed

lemma cmd_setD:
  assumes "redis_ok view r" "cmd_set r k v x s = (res, s')"
  shows "case res of None \<Rightarrow> view s' = (view s)(k \<mapsto> v)
    | Some e \<Rightarrow> (\<exists>m. e = ErrServer m) \<and> view s' \<in> {view s, (view s)(k \<mapsto> v)}"
proof -
  have "set_ok view r" using assms(1) by (simp add: redis_ok_def)
  then have "case fst (cmd_set r k v x s) of None \<Rightarrow> view (snd (cmd_set r k v x s)) = (view s)(k \<mapsto> v)
    | Some e \<Rightarrow> (\<exists>m. e = ErrServer m) \<and> view (snd (cmd_set r k v x s)) \<in> {view s, (view s)(k \<mapsto> v)}"
    unfolding set_ok_def by blast
  then show ?thesis using assms(2) by (cases res) simp_all
qed

lemma cmd_delD:
  assumes "redis_ok view r" "cmd_del r ks s = (res, s')"
  shows "case res of Inr n \<Rightarrow> n = card (set ks \<inter> dom (view s)) \<and> view s' = view s |` (- set ks)
    | Inl e \<Rightarrow> (\<exists>m. e = ErrServer m) \<and> view s' \<in> {view s, view s |` (- set ks)}"
proof -
  have "del_ok view r" using assms(1) by (simp add: redis_ok_def)
  then have "case fst (cmd_del r ks s) of Inr n \<Rightarrow> n = card (set ks \<inter> dom (view s)) \<and>
      view (snd (cmd_del r ks s)) = view s |` (- set ks)
    | Inl e \<Rightarrow> (\<exists>m. e = ErrServer m) \<and>
        view (snd (cmd_del r ks s)) \<in> {view s, view s |` (- set ks)}"
    unfolding del_ok_def by blast
  then show ?thesis using assms(2) by (cases res) simp_all
qed

section \<open>The map a cache stands for\<close>

text \<open>
  The abstract state of a cache: the value under each key, as far as its text can be decoded.
\<close>

definition contents ::
  "(string \<Rightarrow> 'v \<times> redis_error option) \<Rightarrow> ('k \<Rightarrow> string) \<Rightarrow> (string \<Rightarrow> string option) \<Rightarrow> 'k \<Rightarrow> 'v option" where
  "contents decode key_of m k =
     (case m (key_of k) of
        None \<Rightarrow> None
      | Some t \<Rightarrow> (case decode t of (v, None) \<Rightarrow> Some v | (v, Some e) \<Rightarrow> None))"

lemma contents_upd:
  "inj key_of \<Longrightarrow> decode t = (v, None) \<Longrightarrow>
    contents decode key_of (m(key_of k \<mapsto> t)) = (contents decode key_of m)(k \<mapsto> v)"
  by (auto simp: contents_def fun_eq_iff dest: injD)

lemma contents_del:
  "inj key_of \<Longrightarrow> contents decode key_of (m |` (- {key_of k})) = (contents decode key_of m)(k := None)"
  by (auto simp: contents_def fun_eq_iff restrict_map_def dest: injD)

lemma contents_Some_iff:
  "contents decode key_of m k = Some v \<longleftrightarrow> (\<exists>t. m (key_of k) = Some t \<and> decode t = (v, None))"
  by (auto simp: contents_def split: option.splits prod.splits)

text \<open>A server that is up fails no command.\<close>

definition server_up :: "'s redis \<Rightarrow> bool" where
  "server_up r \<longleftrightarrow>
     (\<forall>k s m. fst (cmd_get r k s) \<noteq> Inl (ErrServer m)) \<and>
     (\<forall>k v x s. fst (cmd_set r k v x s) = None)"

lemma server_up_get: "server_up r \<Longrightarrow> cmd_get r k s \<noteq> (Inl (ErrServer m), s')"
  unfolding server_up_def by (metis fst_conv)

section \<open>The shape of a cache\<close>

text \<open>
  \<open>get\<close> decodes the text under the key, \<open>put\<close> encodes the value first and sends nothing when that
  fails, \<open>take\<close> deletes the key it could read, \<open>through\<close> calls its fallback on any failed read.
\<close>

locale read_through =
  fixes r :: "'s redis"
    and key_of :: "'k \<Rightarrow> string"
    and ttl :: int
    and encode :: "'v \<Rightarrow> redis_error + string"
    and decode :: "string \<Rightarrow> 'v \<times> redis_error option"
    and nothing :: 'v
    and get :: "'k \<Rightarrow> 's \<Rightarrow> 'v \<times> redis_error option \<times> 's"
    and put :: "'k \<Rightarrow> 'v \<Rightarrow> 's \<Rightarrow> redis_error option \<times> 's"
    and take :: "'k \<Rightarrow> 's \<Rightarrow> 'v \<times> redis_error option \<times> 's"
    and through :: "'k \<Rightarrow> ('s \<Rightarrow> 'v \<times> redis_error option \<times> 's) \<Rightarrow> 's \<Rightarrow> 'v \<times> redis_error option \<times> 's"
  assumes get_shape: "get k s = (case cmd_get r (key_of k) s of
      (Inl e, s') \<Rightarrow> (nothing, Some e, s') | (Inr t, s') \<Rightarrow> (fst (decode t), snd (decode t), s'))"
    and put_shape: "put k v s =
      (case encode v of Inl e \<Rightarrow> (Some e, s) | Inr t \<Rightarrow> cmd_set r (key_of k) t ttl s)"
    and take_shape: "take k s = (case get k s of
      (v, None, s') \<Rightarrow> (v, None, snd (cmd_del r [key_of k] s')) | (v, Some e, s') \<Rightarrow> (v, Some e, s'))"
    and through_shape: "through k f s = (case get k s of
      (v, None, s1) \<Rightarrow> (v, None, s1)
    | (_, Some _, s1) \<Rightarrow> (case f s1 of
        (v, Some e, s2) \<Rightarrow> (v, Some e, s2) | (v, None, s2) \<Rightarrow> (v, None, snd (put k v s2))))"
begin

lemma get_refines:
  assumes ok: "redis_ok view r" and g: "get k s = (w, e, s')"
  shows "view s' = view s"
    and "e = None \<Longrightarrow> contents decode key_of (view s) k = Some w"
    and "e \<noteq> None \<Longrightarrow> contents decode key_of (view s) k = None \<or> (\<exists>m. e = Some (ErrServer m))"
proof -
  obtain res s1 where c: "cmd_get r (key_of k) s = (res, s1)" by force
  have "view s' = view s \<and> (e = None \<longrightarrow> contents decode key_of (view s) k = Some w) \<and>
    (e \<noteq> None \<longrightarrow> contents decode key_of (view s) k = None \<or> (\<exists>m. e = Some (ErrServer m)))"
  proof (cases res)
    case (Inl x)
    then show ?thesis using cmd_getD [OF ok c] g by (auto simp: get_shape c contents_def)
  next
    case (Inr t)
    then show ?thesis using cmd_getD [OF ok c] g
      by (cases "decode t") (auto simp: get_shape c contents_def split: option.splits)
  qed
  then show "view s' = view s"
    and "e = None \<Longrightarrow> contents decode key_of (view s) k = Some w"
    and "e \<noteq> None \<Longrightarrow> contents decode key_of (view s) k = None \<or> (\<exists>m. e = Some (ErrServer m))"
    by blast+
qed

lemma put_refines:
  assumes ok: "redis_ok view r" and inj: "inj key_of" and p: "put k v s = (e, s')"
    and codec: "\<And>t. encode v = Inr t \<Longrightarrow> decode t = (v, None)"
  shows "e = None \<Longrightarrow> contents decode key_of (view s') = (contents decode key_of (view s))(k \<mapsto> v)"
    and "contents decode key_of (view s') \<in>
      {contents decode key_of (view s), (contents decode key_of (view s))(k \<mapsto> v)}"
proof -
  have "(e = None \<longrightarrow> contents decode key_of (view s') = (contents decode key_of (view s))(k \<mapsto> v)) \<and>
    contents decode key_of (view s') \<in>
      {contents decode key_of (view s), (contents decode key_of (view s))(k \<mapsto> v)}"
  proof (cases "encode v")
    case (Inl x)
    then show ?thesis using p by (auto simp: put_shape)
  next
    case (Inr t)
    then have "cmd_set r (key_of k) t ttl s = (e, s')" using p by (simp add: put_shape)
    from cmd_setD [OF ok this] show ?thesis using contents_upd [of key_of decode t v, OF inj codec [OF Inr]]
      by (cases e) auto
  qed
  then show "e = None \<Longrightarrow> contents decode key_of (view s') = (contents decode key_of (view s))(k \<mapsto> v)"
    and "contents decode key_of (view s') \<in>
      {contents decode key_of (view s), (contents decode key_of (view s))(k \<mapsto> v)}"
    by blast+
qed

lemma take_refines:
  assumes ok: "redis_ok view r" and inj: "inj key_of" and t: "take k s = (w, e, s')"
  shows "e = None \<Longrightarrow> contents decode key_of (view s) k = Some w"
    and "e \<noteq> None \<Longrightarrow> view s' = view s"
    and "e = None \<Longrightarrow> \<forall>ks s. \<exists>n. fst (cmd_del r ks s) = Inr n \<Longrightarrow>
      contents decode key_of (view s') = (contents decode key_of (view s))(k := None)"
proof -
  obtain w' d s1 where g: "get k s = (w', d, s1)" by (metis prod_cases3)
  note get = get_refines [OF ok g]
  show "e = None \<Longrightarrow> contents decode key_of (view s) k = Some w"
    and "e \<noteq> None \<Longrightarrow> view s' = view s"
    using t get by (auto simp: take_shape g split: option.splits)
  assume e: "e = None" and works: "\<forall>ks s. \<exists>n. fst (cmd_del r ks s) = Inr n"
  have s': "s' = snd (cmd_del r [key_of k] s1)"
    using t e by (auto simp: take_shape g split: option.splits)
  obtain n s2 where del: "cmd_del r [key_of k] s1 = (Inr n, s2)"
    using works by (metis prod.collapse)
  show "contents decode key_of (view s') = (contents decode key_of (view s))(k := None)"
    using cmd_delD [OF ok del] get(1) s' del contents_del [OF inj] by simp
qed

text \<open>A read through the cache calls its fallback when it cannot read, and keeps what that returns.\<close>

lemma through_refines:
  assumes ok: "redis_ok view r" and inj: "inj key_of" and t: "through k f s = (w, e, s')"
    and f: "\<And>s1. view (snd (snd (f s1))) = view s1"
    and codec: "\<And>s1 v s2 t. f s1 = (v, None, s2) \<Longrightarrow> encode v = Inr t \<Longrightarrow> decode t = (v, None)"
  shows "contents decode key_of (view s) k = Some w \<and> e = None \<and> view s' = view s \<or>
    (contents decode key_of (view s) k = None \<or> (\<exists>m w1 s1. get k s = (w1, Some (ErrServer m), s1))) \<and>
    (\<exists>s1 s2. f s1 = (w, e, s2)) \<and>
    (e \<noteq> None \<longrightarrow> view s' = view s) \<and>
    (e = None \<longrightarrow> contents decode key_of (view s') \<in>
      {contents decode key_of (view s), (contents decode key_of (view s))(k \<mapsto> w)})"
proof -
  obtain w1 d s1 where g: "get k s = (w1, d, s1)" by (metis prod_cases3)
  note get = get_refines [OF ok g]
  obtain v x s2 where fs: "f s1 = (v, x, s2)" by (metis prod_cases3)
  have v2: "view s2 = view s" using f [of s1] fs get(1) by simp
  obtain y s3 where p: "put k v s2 = (y, s3)" by force
  show ?thesis
  proof (cases d)
    case None
    then show ?thesis using t get by (simp add: through_shape g)
  next
    case d: (Some b)
    show ?thesis
    proof (cases x)
      case None
      have "contents decode key_of (view s3) \<in>
        {contents decode key_of (view s), (contents decode key_of (view s))(k \<mapsto> v)}"
        using put_refines(2) [OF ok inj p codec] fs None v2 by auto
      moreover have "w = v \<and> e = None \<and> s' = s3"
        using t d None fs p by (simp add: through_shape g)
      ultimately show ?thesis using get(3) d fs None g by (metis fst_conv option.distinct(1))
    next
      case (Some c)
      then have "w = v \<and> e = Some c \<and> s' = s2" using t d fs by (simp add: through_shape g)
      then show ?thesis using get(3) d fs Some g v2 by (metis fst_conv option.distinct(1))
    qed
  qed
qed

text \<open>While the server is up, a value that a fallback returned is served from the cache afterwards.\<close>

lemma through_keeps:
  assumes ok: "redis_ok view r" and up: "server_up r" and miss: "view s (key_of k) = None"
    and f: "\<And>s1. \<exists>s2. f s1 = (v, None, s2) \<and> view s2 = view s1"
    and codec: "encode v = Inr t" "decode t = (v, None)"
  shows "\<exists>s1. through k f s = (v, None, s1) \<and> view s1 = (view s)(key_of k \<mapsto> t) \<and>
    (\<forall>s2 g. view s2 (key_of k) = view s1 (key_of k) \<longrightarrow>
      (\<exists>s3. through k g s2 = (v, None, s3) \<and> view s3 = view s2))"
proof -
  obtain res s0 where c: "cmd_get r (key_of k) s = (res, s0)" by force
  then have "res = Inl ErrNil" and v0: "view s0 = view s"
    using cmd_getD [OF ok c] server_up_get [OF up] miss by (auto split: sum.splits)
  then have g: "get k s = (nothing, Some ErrNil, s0)" by (simp add: get_shape c)
  obtain s2 where s2: "f s0 = (v, None, s2)" "view s2 = view s" using f [of s0] v0 by auto
  obtain y s1 where p: "cmd_set r (key_of k) t ttl s2 = (y, s1)" by force
  then have "y = None" using up unfolding server_up_def by (metis fst_conv)
  then have v1: "view s1 = (view s)(key_of k \<mapsto> t)" using cmd_setD [OF ok p] s2(2) by simp
  have "through k f s = (v, None, s1)"
    using g s2 p codec by (simp add: through_shape put_shape)
  moreover have "\<exists>s3. through k h s4 = (v, None, s3) \<and> view s3 = view s4"
    if same: "view s4 (key_of k) = view s1 (key_of k)" for s4 h
  proof -
    obtain res s3 where c: "cmd_get r (key_of k) s4 = (res, s3)" by force
    then have "res = Inr t" "view s3 = view s4"
      using cmd_getD [OF ok c] server_up_get [OF up] same v1 by (auto split: sum.splits)
    then show ?thesis using c codec by (simp add: through_shape get_shape)
  qed
  ultimately show ?thesis using v1 by blast
qed

end

section \<open>A cache is a store\<close>

text \<open>
  The operations of a cache as accesses of a store, judged by what they return to the caller. A read
  through the cache has given the key the value it returns.
\<close>

datatype ('k, 'v, 's) cache_op =
    Cache_Set 'k 'v
  | Cache_Take 'k
  | Cache_Through 'k "'s \<Rightarrow> 'v \<times> redis_error option \<times> 's"

definition cache_look :: "('k \<Rightarrow> 's \<Rightarrow> 'v \<times> redis_error option \<times> 's) \<Rightarrow> 'k \<Rightarrow> 's \<Rightarrow> 'v option \<times> 's" where
  "cache_look get k s = (case get k s of (v, None, s') \<Rightarrow> (Some v, s') | (v, Some e, s') \<Rightarrow> (None, s'))"

fun cache_change ::
  "('k \<Rightarrow> 'v \<Rightarrow> 's \<Rightarrow> redis_error option \<times> 's) \<Rightarrow> ('k \<Rightarrow> 's \<Rightarrow> 'v \<times> redis_error option \<times> 's) \<Rightarrow>
   ('k \<Rightarrow> ('s \<Rightarrow> 'v \<times> redis_error option \<times> 's) \<Rightarrow> 's \<Rightarrow> 'v \<times> redis_error option \<times> 's) \<Rightarrow>
   ('k, 'v, 's) cache_op \<Rightarrow> 's \<Rightarrow> ('k, 'v) effect option \<times> 's" where
  "cache_change put take_op through (Cache_Set k v) s =
     (case put k v s of (None, s') \<Rightarrow> (Some (k, Some v), s') | (Some e, s') \<Rightarrow> (None, s'))"
| "cache_change put take_op through (Cache_Take k) s =
     (case take_op k s of (v, None, s') \<Rightarrow> (Some (k, None), s') | (v, Some e, s') \<Rightarrow> (None, s'))"
| "cache_change put take_op through (Cache_Through k f) s =
     (case through k f s of (v, None, s') \<Rightarrow> (Some (k, Some v), s') | (v, Some e, s') \<Rightarrow> (None, s'))"

text \<open>The values the codec can keep, and fallbacks that leave the server alone.\<close>

fun cacheable ::
  "('v \<Rightarrow> redis_error + string) \<Rightarrow> (string \<Rightarrow> 'v \<times> redis_error option) \<Rightarrow> ('s \<Rightarrow> string \<rightharpoonup> string) \<Rightarrow>
   ('k, 'v, 's) cache_op \<Rightarrow> bool" where
  "cacheable encode decode view (Cache_Set k v) \<longleftrightarrow> (\<forall>t. encode v = Inr t \<longrightarrow> decode t = (v, None))"
| "cacheable encode decode view (Cache_Take k) \<longleftrightarrow> True"
| "cacheable encode decode view (Cache_Through k f) \<longleftrightarrow>
     (\<forall>s. view (snd (snd (f s))) = view s) \<and>
     (\<forall>s v s'. f s = (v, None, s') \<longrightarrow> (\<exists>t. encode v = Inr t \<and> decode t = (v, None)))"

definition server_works :: "('s \<Rightarrow> string \<rightharpoonup> string) \<Rightarrow> 's redis \<Rightarrow> bool" where
  "server_works view r \<longleftrightarrow> redis_ok view r \<and> server_up r \<and> (\<forall>ks s. \<exists>n. fst (cmd_del r ks s) = Inr n)"

context read_through begin

lemma get_exact:
  assumes "redis_ok view r" "server_up r" "get k s = (w, e, s')"
  shows "contents decode key_of (view s) k = (if e = None then Some w else None)"
proof -
  obtain res s1 where c: "cmd_get r (key_of k) s = (res, s1)" by force
  show ?thesis
  proof (cases res)
    case (Inl x)
    then have "\<nexists>m. x = ErrServer m" using server_up_get [OF assms(2)] c by blast
    with Inl show ?thesis
      using cmd_getD [OF assms(1) c] assms(3) by (auto simp: get_shape c contents_def)
  next
    case (Inr t)
    then show ?thesis using cmd_getD [OF assms(1) c] assms(3)
      by (cases "decode t") (auto simp: get_shape c contents_def split: option.splits)
  qed
qed

lemma put_exact:
  assumes "redis_ok view r" "server_up r" "inj key_of" "put k v s = (e, s')"
    and codec: "\<forall>t. encode v = Inr t \<longrightarrow> decode t = (v, None)"
  shows "contents decode key_of (view s') =
    (if e = None then (contents decode key_of (view s))(k \<mapsto> v) else contents decode key_of (view s))"
proof (cases "encode v")
  case (Inl x)
  then show ?thesis using assms(4) by (auto simp: put_shape)
next
  case (Inr t)
  then have c: "cmd_set r (key_of k) t ttl s = (e, s')" using assms(4) by (simp add: put_shape)
  then have "e = None" using assms(2) unfolding server_up_def by (metis fst_conv)
  then show ?thesis using put_refines(1) [OF assms(1,3,4)] codec by simp
qed

lemma through_exact:
  assumes ok: "redis_ok view r" "server_up r" "inj key_of" and t: "through k f s = (w, e, s')"
    and f: "cacheable encode decode view (Cache_Through k f :: ('k, 'v, 's) cache_op)"
  shows "contents decode key_of (view s') =
    (if e = None then (contents decode key_of (view s))(k \<mapsto> w) else contents decode key_of (view s))"
proof -
  obtain w1 d s1 where g: "get k s = (w1, d, s1)" by (metis prod_cases3)
  note get = get_refines(1) [OF ok(1) g] get_exact [OF ok(1,2) g]
  obtain v x s2 where fs: "f s1 = (v, x, s2)" by (metis prod_cases3)
  have s2: "view s2 = view s1" using f fs by (metis cacheable.simps(3) snd_conv)
  show ?thesis
  proof (cases d)
    case None
    with t g have "w = w1" "e = None" "s' = s1" by (simp_all add: through_shape)
    with None get show ?thesis by (auto simp: fun_upd_idem)
  next
    case d: (Some b)
    show ?thesis
    proof (cases x)
      case None
      obtain y s3 where p: "put k v s2 = (y, s3)" by force
      from f have "\<forall>s v s'. f s = (v, None, s') \<longrightarrow> (\<exists>t. encode v = Inr t \<and> decode t = (v, None))" by simp
      with fs None obtain t' where codec: "encode v = Inr t'" "decode t' = (v, None)" by blast
      then have "cmd_set r (key_of k) t' ttl s2 = (y, s3)" using p by (simp add: put_shape)
      then have "y = None" using ok(2) unfolding server_up_def by (metis fst_conv)
      moreover have "\<forall>t. encode v = Inr t \<longrightarrow> decode t = (v, None)" using codec by simp
      moreover have "w = v" "e = None" "s' = s3" using t g d fs None p by (simp_all add: through_shape)
      ultimately show ?thesis using put_exact [OF ok p] s2 get(1) by simp
    next
      case (Some c)
      with t g d fs have "e = Some c" "s' = s2" by (simp_all add: through_shape)
      with s2 get(1) show ?thesis by simp
    qed
  qed
qed

end

sublocale read_through \<subseteq> store: keyed_store "cache_look get" "cache_change put take through"
    "\<lambda>s. contents decode key_of (view s)" "\<lambda>s. server_works view r \<and> inj key_of" "cacheable encode decode view"
  for view
proof
  fix s k
  assume good: "server_works view r \<and> inj key_of"
  then have ok: "redis_ok view r" "server_up r" by (simp_all add: server_works_def)
  obtain w e s' where g: "get k s = (w, e, s')" by (metis prod_cases3)
  show "server_works view r \<and> inj key_of" by (rule good)
  show "fst (cache_look get k s) = contents decode key_of (view s) k"
    "contents decode key_of (view (snd (cache_look get k s))) = contents decode key_of (view s)"
    using get_exact [OF ok g] get_refines(1) [OF ok(1) g] g
    by (simp_all add: cache_look_def split: option.split)
next
  fix s and w :: "('k, 'v, 's) cache_op"
  assume good: "server_works view r \<and> inj key_of" and fit: "cacheable encode decode view w"
  show "server_works view r \<and> inj key_of" by (rule good)
  show "contents decode key_of (view (snd (cache_change put take through w s))) =
      (case fst (cache_change put take through w s) of None \<Rightarrow> contents decode key_of (view s)
       | Some (k, x) \<Rightarrow> (contents decode key_of (view s))(k := x))"
  proof (cases w)
    case (Cache_Set k v)
    obtain e s' where p: "put k v s = (e, s')" by force
    with Cache_Set good fit put_exact [of view k v s e s'] show ?thesis
      by (auto simp: server_works_def split: option.split)
  next
    case (Cache_Take k)
    obtain v e s' where t: "take k s = (v, e, s')" by (metis prod_cases3)
    with Cache_Take good take_refines(2,3) [of view k s v e s'] show ?thesis
      by (cases e) (simp_all add: server_works_def)
  next
    case (Cache_Through k f)
    obtain v e s' where t: "through k f s = (v, e, s')" by (metis prod_cases3)
    with Cache_Through good fit through_exact [of view k f s v e s'] show ?thesis
      by (cases e) (simp_all add: server_works_def)
  qed
qed

section \<open>The three caches have the shape\<close>

interpretation simple_cache: read_through r "cacheKey c GenKey" "cache_expire c"
  "convertSimpleValue fmt T" "parseSimpleValue rd T" "zero_value (\<lambda>_. []) T"
  "SimpleCacher_Get r rd T c GenKey" "SimpleCacher_Set r fmt T c GenKey"
  "SimpleCacher_GetAndDelete r rd T c GenKey" "SimpleCacher_GetWithFallback r fmt rd T c GenKey"
  by unfold_locales
    (simp_all add: SimpleCacher_Get_def GetSimple_def SimpleCacher_Set_def SetSimple_def
      SimpleCacher_GetAndDelete_def SimpleCacher_GetWithFallback_def case_prod_beta split: sum.split)

interpretation json_cache: read_through r "cacheKey c GenKey" "cache_expire c"
  marshal "\<lambda>t. unmarshal t entity" entity
  "JSONCacher_Get r unmarshal entity c GenKey" "JSONCacher_Set r marshal c GenKey"
  "JSONCacher_GetAndDelete r unmarshal entity c GenKey"
  "JSONCacher_GetWithFallback r marshal unmarshal entity c GenKey"
  by unfold_locales
    (simp_all add: JSONCacher_Get_def GetJSON_def JSONCacher_Set_def SetJSON_def
      JSONCacher_GetAndDelete_def JSONCacher_GetWithFallback_def case_prod_beta split: sum.split)

interpretation proto_cache: read_through r "cacheKey c GenKey" "cache_expire c"
  marshal "\<lambda>t. unmarshal t entity" entity
  "Cacher_Get r unmarshal entity c GenKey" "Cacher_Set r marshal c GenKey"
  "Cacher_GetAndDelete r unmarshal entity c GenKey"
  "Cacher_GetWithFallback r marshal unmarshal entity c GenKey"
  by unfold_locales
    (simp_all add: Cacher_Get_def GetProto_def Cacher_Set_def SetPorto_def
      Cacher_GetAndDelete_def Cacher_GetWithFallback_def case_prod_beta split: sum.split)

section \<open>Simple values\<close>

definition float_text_ok ::
  "(nat \<Rightarrow> 64 word \<Rightarrow> string) \<Rightarrow> (nat \<Rightarrow> string \<Rightarrow> redis_error + 64 word) \<Rightarrow> gtype \<Rightarrow> gval \<Rightarrow> bool" where
  "float_text_ok fmt rd T v =
     (case (T, v) of (TFloat w n, VFloat f) \<Rightarrow> rd w (fmt w f) = Inr f | _ \<Rightarrow> True)"

lemma parseBool_formatBool [simp]: "parseBool (formatBool b) = Inr b"
  by (cases b) (simp_all add: parseBool_def formatBool_def)

lemma simple_text_parse:
  assumes "predeclared T" "has_type T v" "float_text_ok fmt rd T v"
  shows "\<exists>t. simple_text fmt T v = Some t \<and> parse_kind rd T t = (v, None)"
proof (cases T)
  case (TInt k n)
  then obtain i where "v = VInt i" "- (2 ^ (width k - 1)) \<le> i" "i < 2 ^ (width k - 1)"
    using assms(2) by (cases v) auto
  then show ?thesis using TInt by (simp add: parseInt_formatInt parsed_def)
next
  case (TUint k n)
  then obtain i where "v = VUint i" "0 \<le> i" "i < 2 ^ width k"
    using assms(2) by (cases v) auto
  then show ?thesis using TUint by (simp add: parseUint_formatUint parsed_def)
next
  case (TFloat w n)
  then obtain f where "v = VFloat f" using assms(2) by (cases v) auto
  then show ?thesis using TFloat assms(3) by (simp add: parsed_def float_text_ok_def)
next
  case (TBool n)
  then obtain b where "v = VBool b" using assms(2) by (cases v) auto
  then show ?thesis using TBool by (simp add: parsed_def)
next
  case (TString n)
  then obtain s where "v = VString s" using assms(2) by (cases v) auto
  then show ?thesis using TString by simp
qed (use assms(1) in simp_all)

lemma simple_codec:
  assumes "predeclared T" "has_type T v" "float_text_ok fmt rd T v"
    and "convertSimpleValue fmt T v = Inr t"
  shows "parseSimpleValue rd T t = (v, None)"
  using simple_text_parse [OF assms(1-3)] assms
  by (auto simp: convertSimpleValue_def parseSimpleValue_def)

definition demo_fmt :: "nat \<Rightarrow> 64 word \<Rightarrow> string" where
  "demo_fmt w f = dec (unat f)"

definition demo_rd :: "nat \<Rightarrow> string \<Rightarrow> redis_error + 64 word" where
  "demo_rd w s = Inr (of_nat (read_dec 0 s))"

text \<open>
  A value of every predeclared string, integer, float and bool type survives
  \<open>convertSimpleValue\<close> and \<open>parseSimpleValue\<close>, at every width and sign; for floats this rests on the
  round trip of \<open>strconv.FormatFloat\<close> with precision \<open>-1\<close>. A value of any other type, a defined
  type over \<open>int\<close> included, is refused with an error on both ways.
\<close>

theorem simple_value_round_trip:
  "(predeclared T \<longrightarrow> has_type T v \<longrightarrow> float_text_ok fmt rd T v \<longrightarrow>
      (\<exists>t. convertSimpleValue fmt T v = Inr t \<and> parseSimpleValue rd T t = (v, None))) \<and>
   (\<not> predeclared T \<longrightarrow>
      convertSimpleValue fmt T v = Inl (ErrNew ''unsupported simple type'') \<and>
      parseSimpleValue rd T s = (zero_value (\<lambda>_. []) T, Some (ErrNew ''GetSimple unsupported type'')))"
proof (cases "predeclared T")
  case True
  then show ?thesis
    using simple_text_parse [of T v fmt rd] by (auto simp: convertSimpleValue_def parseSimpleValue_def)
next
  case False
  then show ?thesis by (simp add: convertSimpleValue_def parseSimpleValue_def)
qed

theorem simple_value_round_trip_witness:
  "(\<exists>t. convertSimpleValue demo_fmt (TInt K8 ''int8'') (VInt (- 128)) = Inr t \<and>
        parseSimpleValue demo_rd (TInt K8 ''int8'') t = (VInt (- 128), None)) \<and>
   (\<exists>t. convertSimpleValue demo_fmt (TFloat 64 ''float64'') (VFloat 7) = Inr t \<and>
        parseSimpleValue demo_rd (TFloat 64 ''float64'') t = (VFloat 7, None)) \<and>
   parseSimpleValue demo_rd (TInt K ''main.Age'') ''30'' =
     (VInt 0, Some (ErrNew ''GetSimple unsupported type''))"
  using simple_value_round_trip [of "TInt K8 ''int8''" "VInt (- 128)" demo_fmt demo_rd]
    simple_value_round_trip [of "TFloat 64 ''float64''" "VFloat 7" demo_fmt demo_rd]
    simple_value_round_trip [of "TInt K ''main.Age''" "VInt 0" demo_fmt demo_rd "''30''"]
  by (simp add: float_text_ok_def demo_fmt_def demo_rd_def)

text \<open>
  The numerals of \<open>strconv.ParseInt\<close> in base 10: digits, with an optional sign.
\<close>

definition int_numeral :: "string \<Rightarrow> int \<Rightarrow> bool" where
  "int_numeral s v \<longleftrightarrow> (case parse_sign s of (neg, ds) \<Rightarrow>
     is_numeral ds \<and> v = (if neg then - int (read_dec 0 ds) else int (read_dec 0 ds)))"

lemma parse_sign_Nil: "parse_sign [] = (False, [])"
  by (simp add: parse_sign_def)

lemma parseInt_Inr_iff:
  assumes "0 < bits"
  shows "parseInt bits s = Inr v \<longleftrightarrow>
    int_numeral s v \<and> - (2 ^ (bits - 1)) \<le> v \<and> v < 2 ^ (bits - 1)"
proof -
  obtain neg ds where ps: "parse_sign s = (neg, ds)" by force
  show ?thesis
  proof (cases "parseUint bits ds")
    case (Inl e)
    then have "is_numeral ds \<Longrightarrow> \<not> int (read_dec 0 ds) < 2 ^ bits"
      using parseUint_Inr_iff [of bits ds] by (metis sum.distinct(1))
    then have "is_numeral ds \<Longrightarrow> 2 ^ bits \<le> read_dec 0 ds" by simp
    moreover have "(2 :: nat) ^ bits = 2 ^ (bits - 1) + 2 ^ (bits - 1)"
      using assms by (cases bits) simp_all
    moreover have "(0 :: nat) < 2 ^ (bits - 1)" by simp
    ultimately have "is_numeral ds \<Longrightarrow> 2 ^ (bits - 1) < read_dec 0 ds" by linarith
    then show ?thesis using Inl ps
      by (auto simp: parseInt_def int_numeral_def)
  next
    case (Inr u)
    then have u: "is_numeral ds" "u = int (read_dec 0 ds)" by (simp_all add: parseUint_Inr_iff)
    then have "s \<noteq> []" using ps by (auto simp: parse_sign_Nil is_numeral_def)
    moreover have "- int (read_dec 0 ds) < 2 ^ (bits - Suc 0)" "- (2 ^ (bits - Suc 0)) \<le> int (read_dec 0 ds)"
      using zero_less_power [of "2 :: int" "bits - Suc 0"] by linarith+
    ultimately show ?thesis using ps u Inr by (auto simp: parseInt_def int_numeral_def)
  qed
qed

text \<open>
  C39: Reading an integer key accepts exactly the numerals whose value fits the type: for each signed
  and unsigned width, \<open>parseSimpleValue\<close> returns a value without an error if and only if the text is
  a decimal numeral (a sign is allowed for signed types only) denoting that value within the type's
  range. Otherwise it returns zero with an error; nothing is truncated or wrapped.
\<close>

theorem parse_integers_exact:
  "(parseSimpleValue rd (TInt k (int_name k)) s = (VInt v, None) \<longleftrightarrow>
      int_numeral s v \<and> - (2 ^ (width k - 1)) \<le> v \<and> v < 2 ^ (width k - 1)) \<and>
   (parseSimpleValue rd (TUint k (CHR ''u'' # int_name k)) s = (VUint v, None) \<longleftrightarrow>
      is_numeral s \<and> v = int (read_dec 0 s) \<and> v < 2 ^ width k) \<and>
   (snd (parseSimpleValue rd (TInt k (int_name k)) s) \<noteq> None \<longrightarrow>
      fst (parseSimpleValue rd (TInt k (int_name k)) s) = VInt 0) \<and>
   (snd (parseSimpleValue rd (TUint k (CHR ''u'' # int_name k)) s) \<noteq> None \<longrightarrow>
      fst (parseSimpleValue rd (TUint k (CHR ''u'' # int_name k)) s) = VUint 0)"
proof -
  have ok: "parsed z mk x = (mk y, None) \<longleftrightarrow> x = Inr y"
    if "inj mk" for z x and mk :: "int \<Rightarrow> gval" and y
    using that by (cases x) (auto simp: parsed_def dest: injD)
  have bad: "snd (parsed z mk x) \<noteq> None \<longrightarrow> fst (parsed z mk x) = z"
    for z x and mk :: "int \<Rightarrow> gval"
    by (cases x) (simp_all add: parsed_def)
  have "inj VInt" "inj VUint" by (simp_all add: inj_def)
  then show ?thesis using bad
    by (simp add: parseSimpleValue_def ok parseInt_Inr_iff parseUint_Inr_iff)
qed

theorem parse_integers_exact_witness:
  "parseSimpleValue demo_rd (TInt K8 ''int8'') ''-128'' = (VInt (- 128), None) \<and>
   snd (parseSimpleValue demo_rd (TInt K8 ''int8'') ''128'') = Some ErrRange \<and>
   fst (parseSimpleValue demo_rd (TInt K8 ''int8'') ''128'') = VInt 0"
proof -
  have e: "snd (parseSimpleValue demo_rd (TInt K8 ''int8'') ''128'') = Some ErrRange"
    by (simp add: parseSimpleValue_def parsed_def parseInt_def parse_sign_def parseUint_def is_digit_def)
  have "int_numeral ''-128'' (- 128)"
    by (simp add: int_numeral_def parse_sign_def is_numeral_def is_digit_def)
  then show ?thesis
    using parse_integers_exact [of demo_rd K8 "''-128''" "- 128"]
      parse_integers_exact [of demo_rd K8 "''128''" 0] e by simp
qed

section \<open>Caches as maps\<close>

definition demo_redis :: "(string \<rightharpoonup> string) redis" where
  "demo_redis = \<lparr>
     cmd_get = (\<lambda>k s. (case s k of None \<Rightarrow> Inl ErrNil | Some v \<Rightarrow> Inr v, s)),
     cmd_set = (\<lambda>k v x s. (None, s(k \<mapsto> v))),
     cmd_setnx = (\<lambda>k v x s. (Inr (s k = None), if s k = None then s(k \<mapsto> v) else s)),
     cmd_del = (\<lambda>ks s. (Inr (card (set ks \<inter> dom s)), s |` (- set ks)))\<rparr>"

lemma demo_redis_ok: "redis_ok id demo_redis"
  by (simp add: redis_ok_def get_ok_def set_ok_def setnx_ok_def del_ok_def demo_redis_def
      split: option.split)

lemma inj_cacheKey: "inj GenKey \<Longrightarrow> inj (cacheKey c GenKey)"
  by (simp add: inj_def cacheKey_def)

lemma inj_StringKey: "inj StringKey_GenKey"
  by (simp add: inj_def StringKey_GenKey_def)

text \<open>The map from keys to values that a \<open>SimpleCacher\<close> stands for.\<close>

definition simple_contents ::
  "(nat \<Rightarrow> string \<Rightarrow> redis_error + 64 word) \<Rightarrow> gtype \<Rightarrow> cacher \<Rightarrow> ('k \<Rightarrow> string)
     \<Rightarrow> (string \<Rightarrow> string option) \<Rightarrow> 'k \<Rightarrow> gval option" where
  "simple_contents rd T c GenKey = contents (parseSimpleValue rd T) (cacheKey c GenKey)"

text \<open>
  C16: A \<open>SimpleCacher\<close> implements a partial map from keys to values. \<open>Set\<close> without an error updates
  the map at its key and nowhere else (with an error it has done so or not). \<open>Get\<close> leaves the map
  alone; without an error it returns what the map holds, and it fails only when the key is not in
  the map or the server failed. \<open>GetAndDelete\<close> returns what the map held, and has removed it when
  \<open>DEL\<close> went through. Required are distinct keys for distinct \<open>GenKey\<close>s, a type the simple
  operations support, and the documented behaviour of the server.
\<close>

theorem simple_cache_refines_map:
  assumes ok: "redis_ok view r" and T: "predeclared T" and inj: "inj GenKey"
    and v: "has_type T v" "float_text_ok fmt rd T v"
  shows "(\<forall>e s'. SimpleCacher_Set r fmt T c GenKey k v s = (e, s') \<longrightarrow>
      simple_contents rd T c GenKey (view s') \<in>
        {simple_contents rd T c GenKey (view s), (simple_contents rd T c GenKey (view s))(k \<mapsto> v)} \<and>
      (e = None \<longrightarrow>
        simple_contents rd T c GenKey (view s') = (simple_contents rd T c GenKey (view s))(k \<mapsto> v))) \<and>
    (\<forall>w e s'. SimpleCacher_Get r rd T c GenKey k s = (w, e, s') \<longrightarrow>
      view s' = view s \<and>
      (e = None \<longrightarrow> simple_contents rd T c GenKey (view s) k = Some w) \<and>
      (e \<noteq> None \<longrightarrow>
        simple_contents rd T c GenKey (view s) k = None \<or> (\<exists>m. e = Some (ErrServer m)))) \<and>
    (\<forall>w e s'. SimpleCacher_GetAndDelete r rd T c GenKey k s = (w, e, s') \<longrightarrow>
      (e = None \<longrightarrow> simple_contents rd T c GenKey (view s) k = Some w) \<and>
      (e \<noteq> None \<longrightarrow> view s' = view s) \<and>
      (e = None \<longrightarrow> (\<forall>ks s. \<exists>n. fst (cmd_del r ks s) = Inr n) \<longrightarrow>
        simple_contents rd T c GenKey (view s') = (simple_contents rd T c GenKey (view s))(k := None)))"
  unfolding simple_contents_def
proof (intro conjI allI impI)
  note key = inj_cacheKey [OF inj, of c]
  have codec: "convertSimpleValue fmt T v = Inr t \<Longrightarrow> parseSimpleValue rd T t = (v, None)" for t
    by (rule simple_codec [OF T v])
  fix e s' assume "SimpleCacher_Set r fmt T c GenKey k v s = (e, s')"
  note put = simple_cache.put_refines [where view = view and rd = rd, OF ok key this codec]
  show "contents (parseSimpleValue rd T) (cacheKey c GenKey) (view s') \<in>
      {contents (parseSimpleValue rd T) (cacheKey c GenKey) (view s),
       (contents (parseSimpleValue rd T) (cacheKey c GenKey) (view s))(k \<mapsto> v)}"
    by (rule put(2))
  show "e = None \<Longrightarrow> contents (parseSimpleValue rd T) (cacheKey c GenKey) (view s') =
      (contents (parseSimpleValue rd T) (cacheKey c GenKey) (view s))(k \<mapsto> v)"
    by (rule put(1))
next
  fix w e s' assume "SimpleCacher_Get r rd T c GenKey k s = (w, e, s')"
  note get = simple_cache.get_refines [where view = view, OF ok this]
  show "view s' = view s" by (rule get(1))
  show "e = None \<Longrightarrow> contents (parseSimpleValue rd T) (cacheKey c GenKey) (view s) k = Some w"
    by (rule get(2))
  show "e \<noteq> None \<Longrightarrow> contents (parseSimpleValue rd T) (cacheKey c GenKey) (view s) k = None \<or>
      (\<exists>m. e = Some (ErrServer m))"
    by (rule get(3))
next
  fix w e s' assume t: "SimpleCacher_GetAndDelete r rd T c GenKey k s = (w, e, s')"
  note take = simple_cache.take_refines [where view = view, OF ok inj_cacheKey [OF inj] t]
  show "e = None \<Longrightarrow> contents (parseSimpleValue rd T) (cacheKey c GenKey) (view s) k = Some w"
    by (rule take(1))
  show "e \<noteq> None \<Longrightarrow> view s' = view s" by (rule take(2))
  show "e = None \<Longrightarrow> \<forall>ks s. \<exists>n. fst (cmd_del r ks s) = Inr n \<Longrightarrow>
      contents (parseSimpleValue rd T) (cacheKey c GenKey) (view s') =
      (contents (parseSimpleValue rd T) (cacheKey c GenKey) (view s))(k := None)"
    by (rule take(3))
qed

lemma parse_digits_no_server: "parse_digits m n s \<noteq> Inl (ErrServer x)"
  by (induction m n s rule: parse_digits.induct) auto

lemma parseInt_no_server: "parseInt bits s \<noteq> Inl (ErrServer x)"
proof -
  have "map_sum id int (parse_digits m n t) \<noteq> Inl (ErrServer x)" for m n t
    using parse_digits_no_server [of m n t x] by (cases "parse_digits m n t") auto
  then show ?thesis
    by (auto simp: parseInt_def parseUint_def split: prod.split sum.split)
qed

definition demo_cache :: cacher where
  "demo_cache = NewCacher ''age'' 60"

definition demo_set :: "string \<rightharpoonup> string" where
  "demo_set = snd (SimpleCacher_Set demo_redis demo_fmt (TInt K ''int'') demo_cache StringKey_GenKey
     ''bob'' (VInt 30) Map.empty)"

theorem simple_cache_refines_map_witness:
  "simple_contents demo_rd (TInt K ''int'') demo_cache StringKey_GenKey demo_set = [''bob'' \<mapsto> VInt 30] \<and>
   SimpleCacher_Get demo_redis demo_rd (TInt K ''int'') demo_cache StringKey_GenKey ''bob'' demo_set
     = (VInt 30, None, demo_set)"
proof -
  have e: "simple_contents demo_rd (TInt K ''int'') demo_cache StringKey_GenKey Map.empty = Map.empty"
    by (simp add: simple_contents_def contents_def fun_eq_iff)
  have set: "SimpleCacher_Set demo_redis demo_fmt (TInt K ''int'') demo_cache StringKey_GenKey
     ''bob'' (VInt 30) Map.empty = (None, demo_set)"
    by (simp add: demo_set_def SimpleCacher_Set_def SetSimple_def demo_redis_def convertSimpleValue_def)
  note refines = simple_cache_refines_map [OF demo_redis_ok, of "TInt K ''int''" StringKey_GenKey "VInt 30"
      demo_fmt demo_rd demo_cache "''bob''"]
  have 1: "simple_contents demo_rd (TInt K ''int'') demo_cache StringKey_GenKey demo_set = [''bob'' \<mapsto> VInt 30]"
    using refines [of Map.empty] set e by (simp add: inj_StringKey float_text_ok_def)
  obtain w d s' where g: "SimpleCacher_Get demo_redis demo_rd (TInt K ''int'') demo_cache StringKey_GenKey
     ''bob'' demo_set = (w, d, s')" by (metis prod_cases3)
  have "d \<noteq> Some (ErrServer m)" for m
    using g parseInt_no_server [of 64 _ m]
    by (auto simp: SimpleCacher_Get_def GetSimple_def demo_redis_def parseSimpleValue_def
        parsed_def split: option.splits sum.splits)
  then have "d = None \<and> w = VInt 30 \<and> s' = demo_set"
    using refines [of demo_set] g 1 by (cases d) (auto simp: inj_StringKey float_text_ok_def)
  then show ?thesis using 1 g by simp
qed

text \<open>
  \<open>JSONCacher.GetWithFallback\<close> on a key that is not cached returns the value of the fallback
  and stores its JSON text under the key, and nowhere else; from then on, as long as nobody
  overwrites the key and it does not expire, the same call returns that value without consulting
  its fallback, whatever that is. The error of a fallback is returned unchanged and nothing is
  stored. Required are a server that is up and behaves as documented, a fallback that leaves the
  cache alone, and a value whose JSON text decodes to it.
\<close>

theorem json_cache_read_through:
  assumes ok: "redis_ok view r" and up: "server_up r"
    and miss: "view s (cacheKey c GenKey k) = None"
    and f: "\<forall>s1. \<exists>s2. fallback s1 = (v, None, s2) \<and> view s2 = view s1"
    and e: "\<forall>s1. \<exists>s2. failing s1 = (v', Some d, s2) \<and> view s2 = view s1"
    and codec: "marshal v = Inr t" "unmarshal t entity = (v, None)"
  shows "(\<exists>s1. JSONCacher_GetWithFallback r marshal unmarshal entity c GenKey k fallback s = (v, None, s1) \<and>
      view s1 = (view s)(cacheKey c GenKey k \<mapsto> t) \<and>
      (\<forall>s2 g. view s2 (cacheKey c GenKey k) = view s1 (cacheKey c GenKey k) \<longrightarrow>
        (\<exists>s3. JSONCacher_GetWithFallback r marshal unmarshal entity c GenKey k g s2 = (v, None, s3) \<and>
          view s3 = view s2))) \<and>
    (\<exists>s1. JSONCacher_GetWithFallback r marshal unmarshal entity c GenKey k failing s = (v', Some d, s1) \<and>
      view s1 = view s)"
proof (rule conjI)
  show "\<exists>s1. JSONCacher_GetWithFallback r marshal unmarshal entity c GenKey k fallback s = (v, None, s1) \<and>
      view s1 = (view s)(cacheKey c GenKey k \<mapsto> t) \<and>
      (\<forall>s2 g. view s2 (cacheKey c GenKey k) = view s1 (cacheKey c GenKey k) \<longrightarrow>
        (\<exists>s3. JSONCacher_GetWithFallback r marshal unmarshal entity c GenKey k g s2 = (v, None, s3) \<and>
          view s3 = view s2))"
    using json_cache.through_keeps [where view = view and marshal = marshal and unmarshal = unmarshal
        and entity = entity, OF ok up miss _ codec] f by blast
  obtain w x s0 where g: "JSONCacher_Get r unmarshal entity c GenKey k s = (w, x, s0)"
    by (metis prod_cases3)
  note get = json_cache.get_refines [where view = view, OF ok g]
  have "x \<noteq> None" using get(2) miss by (auto simp: contents_def)
  moreover obtain s2 where "failing s0 = (v', Some d, s2)" "view s2 = view s" using e get(1) by metis
  ultimately show "\<exists>s1. JSONCacher_GetWithFallback r marshal unmarshal entity c GenKey k failing s
      = (v', Some d, s1) \<and> view s1 = view s"
    using g by (auto simp: JSONCacher_GetWithFallback_def)
qed

theorem json_cache_read_through_witness:
  "\<exists>s1. JSONCacher_GetWithFallback demo_redis (\<lambda>v. Inr ''{}'') (\<lambda>t v. (VStruct [], None)) (VStruct [])
       demo_cache StringKey_GenKey ''bob'' (\<lambda>s. (VStruct [], None, s)) Map.empty = (VStruct [], None, s1) \<and>
     s1 = [cacheKey demo_cache StringKey_GenKey ''bob'' \<mapsto> ''{}'']"
proof -
  have up: "server_up demo_redis"
    by (simp add: server_up_def demo_redis_def split: option.split)
  show ?thesis
    using json_cache_read_through [OF demo_redis_ok up, of Map.empty demo_cache StringKey_GenKey "''bob''"
        "\<lambda>s. (VStruct [], None, s)" "VStruct []" "\<lambda>s. (VNil, Some ErrNil, s)" VNil ErrNil
        "\<lambda>v. Inr ''{}''" "''{}''" "\<lambda>t v. (VStruct [], None)" "VStruct []"]
    by simp
qed

end
