(* ===== verification/Cache_History.thy ===== *)
theory Cache_History
  imports Redis_Props
begin

text \<open>
  What a client of a cache reads after any number of accesses: the consequence of \<open>keyed_store\<close> for the
  \<open>SimpleCacher\<close> of \<open>redisx/simpleCacher.go\<close>, with all four of its operations as accesses.
\<close>

section \<open>The accesses of a SimpleCacher\<close>

text \<open>The values the simple operations can keep exactly.\<close>

definition keeps ::
  "(nat \<Rightarrow> 64 word \<Rightarrow> string) \<Rightarrow> (nat \<Rightarrow> string \<Rightarrow> redis_error + 64 word) \<Rightarrow> gtype \<Rightarrow> gval \<Rightarrow> bool" where
  "keeps fmt rd T v \<longleftrightarrow> has_type T v \<and> float_text_ok fmt rd T v"

text \<open>A fallback that leaves the server alone and returns such a value, or an error.\<close>

definition harmless ::
  "('s \<Rightarrow> string \<rightharpoonup> string) \<Rightarrow> (gval \<Rightarrow> bool) \<Rightarrow> ('s \<Rightarrow> gval \<times> redis_error option \<times> 's) \<Rightarrow> bool" where
  "harmless view P f \<longleftrightarrow>
     (\<forall>s. view (snd (snd (f s))) = view s \<and> (fst (snd (f s)) = None \<longrightarrow> P (fst (f s))))"

definition simple_play ::
  "'s redis \<Rightarrow> (nat \<Rightarrow> 64 word \<Rightarrow> string) \<Rightarrow> (nat \<Rightarrow> string \<Rightarrow> redis_error + 64 word) \<Rightarrow> gtype \<Rightarrow> cacher \<Rightarrow> ('k \<Rightarrow> string) \<Rightarrow>
   ('k, ('k, gval, 's) cache_op) access list \<Rightarrow> 's \<Rightarrow> ('k, gval) effect list \<times> 's" where
  "simple_play r fmt rd T c GenKey =
     play (cache_look (SimpleCacher_Get r rd T c GenKey))
       (cache_change (SimpleCacher_Set r fmt T c GenKey) (SimpleCacher_GetAndDelete r rd T c GenKey)
         (SimpleCacher_GetWithFallback r fmt rd T c GenKey))"

lemma simple_text_exists:
  assumes "predeclared T" "keeps fmt rd T v"
  shows "\<exists>t. convertSimpleValue fmt T v = Inr t \<and> parseSimpleValue rd T t = (v, None)"
  using simple_text_parse [OF assms(1), of v fmt rd] assms
  by (auto simp: keeps_def convertSimpleValue_def parseSimpleValue_def)

lemma simple_cacheable:
  assumes "predeclared T"
  shows "keeps fmt rd T v \<Longrightarrow> cacheable (convertSimpleValue fmt T) (parseSimpleValue rd T) view (Cache_Set k v)"
    and "harmless view (keeps fmt rd T) f \<Longrightarrow>
      cacheable (convertSimpleValue fmt T) (parseSimpleValue rd T) view (Cache_Through k f)"
proof -
  show "keeps fmt rd T v \<Longrightarrow> cacheable (convertSimpleValue fmt T) (parseSimpleValue rd T) view (Cache_Set k v)"
    using simple_text_exists [OF assms, of fmt rd v] by auto
  assume "harmless view (keeps fmt rd T) f"
  then have f: "view (snd (snd (f s))) = view s" "f s = (v, None, s') \<Longrightarrow> keeps fmt rd T v" for s v s'
    unfolding harmless_def by (blast, metis fst_conv snd_conv)
  then show "cacheable (convertSimpleValue fmt T) (parseSimpleValue rd T) view (Cache_Through k f)"
    unfolding cacheable.simps using simple_text_exists [OF assms, of fmt rd] by metis
qed

section \<open>Properties\<close>

text \<open>
  C15: a cache returns what was put into it last. After any sequence of \<open>Set\<close>, \<open>Get\<close>, \<open>GetAndDelete\<close> and
  \<open>GetWithFallback\<close> on any keys, \<open>Get\<close> of a key returns the value that the last of those calls which
  concerned the key and succeeded set, or returned from its fallback or the cache; it fails if that was
  a \<open>GetAndDelete\<close>; and if there was none it returns what was under the key at first, if that can be read.
  The server works and nothing expires, values are those the simple operations can keep.
\<close>

theorem cache_returns_last_value:
  assumes "server_works view r" "predeclared T" "inj GenKey"
    and "\<forall>k v. Change (Cache_Set k v) \<in> set h \<longrightarrow> keeps fmt rd T v"
    and "\<forall>k f. Change (Cache_Through k f) \<in> set h \<longrightarrow> harmless view (keeps fmt rd T) f"
    and "simple_play r fmt rd T c GenKey h s = (es, s')"
    and "SimpleCacher_Get r rd T c GenKey k s' = (v, e, s'')"
  shows "(if e = None then Some v else None) =
    (case last_effect k es of Some x \<Rightarrow> x | None \<Rightarrow> simple_contents rd T c GenKey (view s) k)"
proof -
  have good: "server_works view r \<and> inj (cacheKey c GenKey)" using assms(1,3) inj_cacheKey by blast
  have fit: "\<forall>w. Change w \<in> set h \<longrightarrow> cacheable (convertSimpleValue fmt T) (parseSimpleValue rd T) view w"
  proof (intro allI impI)
    fix w assume w: "Change w \<in> set h"
    show "cacheable (convertSimpleValue fmt T) (parseSimpleValue rd T) view w"
    proof (cases w)
      case (Cache_Set k v)
      with w assms(4) have "keeps fmt rd T v" by simp
      then show ?thesis unfolding Cache_Set by (rule simple_cacheable(1) [OF assms(2)])
    next
      case (Cache_Through k f)
      with w assms(5) have "harmless view (keeps fmt rd T) f" by simp
      then show ?thesis unfolding Cache_Through by (rule simple_cacheable(2) [OF assms(2)])
    qed simp
  qed
  have "fst (cache_look (SimpleCacher_Get r rd T c GenKey) k s') =
      (case last_effect k es of Some x \<Rightarrow> x
       | None \<Rightarrow> contents (parseSimpleValue rd T) (cacheKey c GenKey) (view s) k)"
    by (rule simple_cache.store.reads_last_change [OF good fit assms(6) [unfolded simple_play_def]])
  moreover have "fst (cache_look (SimpleCacher_Get r rd T c GenKey) k s') = (if e = None then Some v else None)"
    unfolding cache_look_def assms(7) by (simp split: option.split)
  ultimately show ?thesis unfolding simple_contents_def by simp
qed

definition demo_accesses :: "(string, (string, gval, string \<rightharpoonup> string) cache_op) access list" where
  "demo_accesses =
     [Change (Cache_Set ''bob'' (VInt 30)), Read ''eve'', Change (Cache_Take ''eve''),
      Change (Cache_Set ''bob'' (VInt 31)),
      Change (Cache_Through ''eve'' (\<lambda>s. (VInt 7, None, s)))]"

lemma demo_play:
  "\<exists>s'. simple_play demo_redis demo_fmt demo_rd (TInt K ''int'') demo_cache StringKey_GenKey demo_accesses Map.empty =
     ([(''bob'', Some (VInt 30)), (''bob'', Some (VInt 31)), (''eve'', Some (VInt 7))], s')"
  by (simp add: simple_play_def demo_accesses_def cache_look_def SimpleCacher_Get_def SimpleCacher_Set_def
      SimpleCacher_GetAndDelete_def SimpleCacher_GetWithFallback_def GetSimple_def SetSimple_def
      demo_redis_def convertSimpleValue_def StringKey_GenKey_def cacheKey_def demo_cache_def NewCacher_def)

theorem cache_returns_last_value_witness:
  "\<exists>s' s'' s3 e. SimpleCacher_Get demo_redis demo_rd (TInt K ''int'') demo_cache StringKey_GenKey ''bob'' s' =
       (VInt 31, None, s'') \<and>
     SimpleCacher_Get demo_redis demo_rd (TInt K ''int'') demo_cache StringKey_GenKey ''eve'' s' = (VInt 7, None, s3)"
proof -
  let ?get = "SimpleCacher_Get demo_redis demo_rd (TInt K ''int'') demo_cache StringKey_GenKey"
  obtain s' where p: "simple_play demo_redis demo_fmt demo_rd (TInt K ''int'') demo_cache StringKey_GenKey
      demo_accesses Map.empty = ([(''bob'', Some (VInt 30)), (''bob'', Some (VInt 31)), (''eve'', Some (VInt 7))], s')"
    using demo_play by blast
  have works: "server_works id demo_redis"
    using demo_redis_ok by (simp add: server_works_def server_up_def demo_redis_def split: option.split)
  have sets: "\<forall>k v. Change (Cache_Set k v) \<in> set demo_accesses \<longrightarrow> keeps demo_fmt demo_rd (TInt K ''int'') v"
    by (simp add: demo_accesses_def keeps_def float_text_ok_def)
  have thr: "\<forall>k f. Change (Cache_Through k f) \<in> set demo_accesses \<longrightarrow>
      harmless id (keeps demo_fmt demo_rd (TInt K ''int'')) f"
    by (simp add: demo_accesses_def harmless_def keeps_def float_text_ok_def)
  note last = cache_returns_last_value [OF works _ inj_StringKey sets thr p]
  obtain v e s2 where b: "?get ''bob'' s' = (v, e, s2)" by (metis prod_cases3)
  obtain w d s3 where c: "?get ''eve'' s' = (w, d, s3)" by (metis prod_cases3)
  from last [OF _ b] last [OF _ c] have "v = VInt 31" "e = None" "w = VInt 7" "d = None"
    by (simp_all add: last_effect_def split: if_splits)
  with b c show ?thesis by blast
qed

end
