(* ===== verification/Dist_Flight.thy ===== *)
theory Dist_Flight
  imports Go_Prelude
begin

text \<open>
  \<open>redisx/singleFlight.go\<close>: one \<open>DistributedSingleFlight\<close> on several nodes (processes) that share a
  Redis server. The state holds what the server keeps (the lock of each key, the results, who still
  has a notification to process), what each node keeps (\<open>callMap\<close> and its calls) and where each
  goroutine stands. \<open>dstep\<close> performs one event; a step is one critical section, one command, or one
  write of a field that another goroutine may read without a lock.

  Goroutines that make a call of \<open>Do\<close> are numbered, \<open>site\<close> tells their node. Each node has one
  goroutine that processes notifications (\<open>comp\<close>), each call that follows another node has one that
  polls (\<open>poller\<close>), each execution has a watchdog (\<open>dogs\<close>).

  The request ids of \<open>SnoyflakeString\<close> are distinct numbers. What \<open>json.Unmarshal\<close> makes of the text
  of \<open>json.Marshal\<close> is the parameter \<open>wire\<close>. \<open>outcome\<close> and \<open>guarded\<close> are ghosts: the item of each
  execution, and the executions that have not deleted their lock yet.

  Time appears in one place only. A key expires 24 seconds after its last renewal. \<open>timely\<close> says
  that this never catches an execution in the middle: its context is not cancelled (which stops the
  watchdog), the watchdog renews in time, and the commands after the function take less than that.
\<close>

section \<open>Items\<close>

text \<open>Errors of the function: a \<open>*ErrorCode\<close>, an \<open>ErrorCode\<close>, any other error with its text.\<close>

datatype 'e go_err = ErrPtr 'e | ErrVal 'e | ErrText string

record ('v, 'e) cacheItem =
  Data :: 'v
  BuError :: "'e option"
  SysError :: string

definition empty_item :: "'v \<Rightarrow> ('v, 'e) cacheItem" where
  "empty_item z = \<lparr>Data = z, BuError = None, SysError = ''''\<rparr>"

definition Result :: "('v, 'e) cacheItem \<Rightarrow> 'v \<times> 'e go_err option" where
  "Result t =
     (case BuError t of
        Some e \<Rightarrow> (Data t, Some (ErrVal e))
      | None \<Rightarrow> if SysError t \<noteq> '''' then (Data t, Some (ErrText (SysError t))) else (Data t, None))"

text \<open>\<open>errors.As\<close> with a \<open>**ErrorCode\<close> finds pointers only. \<open>etext\<close> is \<open>ErrorCode.Error\<close>.\<close>

definition newCacheItem :: "('e \<Rightarrow> string) \<Rightarrow> 'v \<Rightarrow> 'e go_err option \<Rightarrow> ('v, 'e) cacheItem" where
  "newCacheItem etext res err =
     (case err of
        None \<Rightarrow> \<lparr>Data = res, BuError = None, SysError = ''''\<rparr>
      | Some (ErrPtr e) \<Rightarrow> \<lparr>Data = res, BuError = Some e, SysError = ''''\<rparr>
      | Some (ErrVal e) \<Rightarrow> \<lparr>Data = res, BuError = None, SysError = etext e\<rparr>
      | Some (ErrText m) \<Rightarrow> \<lparr>Data = res, BuError = None, SysError = m\<rparr>)"

section \<open>State\<close>

text \<open>\<open>item\<close> is the embedded pointer \<open>*cacheItem\<close>, nil at first; \<open>ckey\<close> and \<open>cnode\<close> are ghosts.\<close>

record ('v, 'e) dcall =
  processId :: nat
  item :: "('v, 'e) cacheItem option"
  is_done :: bool
  ckey :: string
  cnode :: nat

datatype ('v, 'e) dpc =
    DIdle
  | DWaiting nat
  | DFollowing nat string
  | DFollowed nat
  | DRunning nat string
  | DItem nat string 'v "'e go_err option"
  | DDone nat string 'v "'e go_err option"
  | DSaved nat string 'v "'e go_err option"
  | DUnlocked nat string 'v "'e go_err option"
  | DDeleted nat string 'v "'e go_err option"
  | DReturned nat 'v "'e go_err option"
  | DLed nat 'v "'e go_err option"
  | DPanicked nat string
  | DUnwound nat string
  | DNilDeref nat
  | DFailed

text \<open>What a \<open>GET\<close> of a result brings: nothing, a failure, an item with the error of \<open>Unmarshal\<close>.\<close>

datatype ('v, 'e) got = GotNil | GotErr string | Got "('v, 'e) cacheItem" "string option"

datatype ('v, 'e) wpc = WIdle | WFound nat | WGot nat "('v, 'e) got" | WEmptied nat "('v, 'e) got" | WFilled nat

record ('v, 'e) dist =
  dlock :: "string \<rightharpoonup> nat"
  armed :: "string \<Rightarrow> bool"
  dres :: "nat \<rightharpoonup> ('v, 'e) cacheItem"
  inbox :: "nat \<Rightarrow> string list"
  callMap :: "nat \<Rightarrow> string \<rightharpoonup> nat"
  dcalls :: "nat \<Rightarrow> ('v, 'e) dcall"
  next_call :: nat
  next_req :: nat
  dpcs :: "nat \<Rightarrow> ('v, 'e) dpc"
  comp :: "nat \<Rightarrow> ('v, 'e) wpc"
  poller :: "nat \<Rightarrow> ('v, 'e) wpc"
  polling :: "nat \<Rightarrow> bool"
  dogs :: "nat list"
  stuck :: "nat \<Rightarrow> bool"
  down :: "nat \<Rightarrow> bool"
  guarded :: "nat list"
  outcome :: "nat \<rightharpoonup> ('v, 'e) cacheItem"

definition dist_init :: "('v, 'e) dist \<Rightarrow> bool" where
  "dist_init s \<longleftrightarrow>
     dlock s = Map.empty \<and> armed s = (\<lambda>_. False) \<and> dres s = Map.empty \<and> inbox s = (\<lambda>_. []) \<and>
     callMap s = (\<lambda>_. Map.empty) \<and> next_call s = 0 \<and> next_req s = 0 \<and> dpcs s = (\<lambda>_. DIdle) \<and>
     comp s = (\<lambda>_. WIdle) \<and> poller s = (\<lambda>_. WIdle) \<and> polling s = (\<lambda>_. False) \<and> dogs s = [] \<and>
     stuck s = (\<lambda>_. False) \<and> down s = (\<lambda>_. False) \<and> guarded s = [] \<and> outcome s = Map.empty"

text \<open>The surroundings of a run. \<open>nodes\<close> are the processes that subscribe, \<open>registered\<close> those that
  created this flight with \<open>NewSingleFlight\<close>.\<close>

record ('v, 'e) surroundings =
  site :: "nat \<Rightarrow> nat"
  nodes :: "nat list"
  registered :: "nat \<Rightarrow> bool"
  zero :: 'v
  etext :: "'e \<Rightarrow> string"
  wire :: "('v, 'e) cacheItem \<Rightarrow> ('v, 'e) cacheItem \<times> string option"
  timely :: bool

section \<open>Do\<close>

definition set_pc :: "nat \<Rightarrow> ('v, 'e) dpc \<Rightarrow> ('v, 'e) dist \<Rightarrow> ('v, 'e) dist" where
  "set_pc t p s = s\<lparr>dpcs := (dpcs s)(t := p)\<rparr>"

definition upd_call :: "nat \<Rightarrow> (('v, 'e) dcall \<Rightarrow> ('v, 'e) dcall) \<Rightarrow> ('v, 'e) dist \<Rightarrow> ('v, 'e) dist" where
  "upd_call c f s = s\<lparr>dcalls := (dcalls s)(c := f (dcalls s c))\<rparr>"

definition new_call :: "nat \<Rightarrow> string \<Rightarrow> nat \<Rightarrow> ('v, 'e) dcall" where
  "new_call r k n = \<lparr>processId = r, item = None, is_done = False, ckey = k, cnode = n\<rparr>"

text \<open>The Lua script of \<open>GetSetNX\<close>, one atomic command: was the value set, and which is there now.\<close>

definition GetSetNX :: "string \<Rightarrow> nat \<Rightarrow> (string \<rightharpoonup> nat) \<Rightarrow> bool \<times> nat \<times> (string \<rightharpoonup> nat)" where
  "GetSetNX k r db =
     (case db k of
        Some currentVal \<Rightarrow> (False, currentVal, db)
      | None \<Rightarrow> (True, r, db(k \<mapsto> r)))"

declare GetSetNX_def [simp]

text \<open>
  The critical section at the start of \<open>Do\<close>: a call in \<open>callMap\<close> is joined; otherwise \<open>GetSetNX\<close>
  stores a fresh request id under the key, or reads the one that is there.
\<close>

definition do_enter :: "('v, 'e) surroundings \<Rightarrow> nat \<Rightarrow> string \<Rightarrow> ('v, 'e) dist \<Rightarrow> ('v, 'e) dist option" where
  "do_enter K t k s =
     (let n = site K t; c = next_call s; r = next_req s in
      if dpcs s t = DIdle \<and> \<not> stuck s n \<and> \<not> down s n \<and> registered K n then
        case callMap s n k of
          Some c' \<Rightarrow> Some (set_pc t (DWaiting c') s)
        | None \<Rightarrow>
            (case GetSetNX k r (dlock s) of
               (True, r', db) \<Rightarrow> Some (set_pc t (DRunning c k)
                 (s\<lparr>dlock := db, armed := (armed s)(k := False),
                    callMap := (callMap s)(n := (callMap s n)(k \<mapsto> c)),
                    dcalls := (dcalls s)(c := new_call r' k n),
                    next_call := Suc c, next_req := Suc r,
                    dogs := c # dogs s, guarded := c # guarded s\<rparr>))
             | (False, r', db) \<Rightarrow> Some (set_pc t (DFollowing c k)
                 (s\<lparr>dlock := db, callMap := (callMap s)(n := (callMap s n)(k \<mapsto> c)),
                    dcalls := (dcalls s)(c := new_call r' k n),
                    next_call := Suc c, next_req := Suc r,
                    polling := (polling s)(c := True)\<rparr>)))
      else None)"

text \<open>\<open>GetSetNX\<close> fails, with an error or a panic: \<open>Do\<close> leaves without releasing \<open>d.lock\<close>.\<close>

definition do_enter_fails :: "('v, 'e) surroundings \<Rightarrow> nat \<Rightarrow> string \<Rightarrow> ('v, 'e) dist \<Rightarrow> ('v, 'e) dist option" where
  "do_enter_fails K t k s =
     (let n = site K t in
      if dpcs s t = DIdle \<and> \<not> stuck s n \<and> \<not> down s n \<and> registered K n \<and> callMap s n k = None then
        Some (set_pc t DFailed (s\<lparr>stuck := (stuck s)(n := True)\<rparr>))
      else None)"

text \<open>\<open>fn\<close> returns: the watchdog is stopped and the item stored in the call.\<close>

definition fn_returns ::
  "('v, 'e) surroundings \<Rightarrow> nat \<Rightarrow> 'v \<Rightarrow> 'e go_err option \<Rightarrow> ('v, 'e) dist \<Rightarrow> ('v, 'e) dist option" where
  "fn_returns K t v e s =
     (if down s (site K t) then None
      else case dpcs s t of
        DRunning c k \<Rightarrow>
          (let it = newCacheItem (etext K) v e in
           Some (set_pc t (DItem c k v e) (upd_call c (\<lambda>x. x\<lparr>item := Some it\<rparr>)
             (s\<lparr>dogs := removeAll c (dogs s), outcome := (outcome s)(processId (dcalls s c) \<mapsto> it)\<rparr>))))
      | _ \<Rightarrow> None)"

text \<open>
  \<open>fn\<close> panics: the deferred function stores the message in the item of the call. If there is none
  that dereferences nil, and the rest of it is not reached: the watchdog goes on and the waiters are
  not released. Otherwise both happen, and the lock is left to expire.
\<close>

definition fn_panics :: "('v, 'e) surroundings \<Rightarrow> nat \<Rightarrow> string \<Rightarrow> ('v, 'e) dist \<Rightarrow> ('v, 'e) dist option" where
  "fn_panics K t m s =
     (if down s (site K t) then None
      else case dpcs s t of
        DRunning c k \<Rightarrow>
          (case item (dcalls s c) of
             None \<Rightarrow> Some (set_pc t (DPanicked c k) s)
           | Some it \<Rightarrow> Some (set_pc t (DUnwound c k) (upd_call c
               (\<lambda>x. x\<lparr>item := Some (it\<lparr>SysError := ''singleFlight panic '' @ m\<rparr>), is_done := True\<rparr>)
               (s\<lparr>dogs := removeAll c (dogs s), guarded := removeAll c (guarded s)\<rparr>))))
      | _ \<Rightarrow> None)"

text \<open>The return of somebody who waited: the item of the call is read now.\<close>

definition leave :: "nat \<Rightarrow> nat \<Rightarrow> ('v, 'e) dist \<Rightarrow> ('v, 'e) dist" where
  "leave t c s =
     (case item (dcalls s c) of
        None \<Rightarrow> set_pc t (DNilDeref c) s
      | Some it \<Rightarrow> set_pc t (DReturned c (fst (Result it)) (snd (Result it))) s)"

text \<open>
  The next step of a goroutine in \<open>Do\<close>, one command or critical section at a time. \<open>ok\<close> says
  whether the command went through; the code ignores failures of the last three.
\<close>

definition advance :: "('v, 'e) surroundings \<Rightarrow> nat \<Rightarrow> bool \<Rightarrow> ('v, 'e) dist \<Rightarrow> ('v, 'e) dist option" where
  "advance K t ok s =
     (let n = site K t in
      if down s n then None
      else case dpcs s t of
        DWaiting c \<Rightarrow> if is_done (dcalls s c) then Some (leave t c s) else None
      | DFollowing c k \<Rightarrow>
          if is_done (dcalls s c) \<and> \<not> stuck s n then
            Some (set_pc t (DFollowed c) (s\<lparr>callMap := (callMap s)(n := (callMap s n)(k := None))\<rparr>))
          else None
      | DFollowed c \<Rightarrow> Some (leave t c s)
      | DItem c k v e \<Rightarrow> Some (set_pc t (DDone c k v e) (upd_call c (\<lambda>x. x\<lparr>is_done := True\<rparr>) s))
      | DDone c k v e \<Rightarrow>
          Some (set_pc t (DSaved c k v e)
            (if ok then s\<lparr>dres := (dres s)(processId (dcalls s c) := outcome s (processId (dcalls s c)))\<rparr> else s))
      | DSaved c k v e \<Rightarrow>
          Some (set_pc t (DUnlocked c k v e)
            (if ok then s\<lparr>dlock := (dlock s)(k := None), guarded := removeAll c (guarded s)\<rparr>
             else s\<lparr>guarded := removeAll c (guarded s)\<rparr>))
      | DUnlocked c k v e \<Rightarrow>
          if \<not> stuck s n then
            Some (set_pc t (DDeleted c k v e) (s\<lparr>callMap := (callMap s)(n := (callMap s n)(k := None))\<rparr>))
          else None
      | DDeleted c k v e \<Rightarrow>
          Some (set_pc t (DLed c v e)
            (if ok then s\<lparr>inbox := (\<lambda>m. if m \<in> set (nodes K) then inbox s m @ [k] else inbox s m)\<rparr> else s))
      | _ \<Rightarrow> None)"

section \<open>Notifications and polling\<close>

text \<open>
  The goroutine of \<open>InitSingleFlight\<close> takes a message: a node that has not created the flight finds
  nil in \<open>flightMap\<close> and dies of it, the others look the key up in \<open>complete\<close>.
\<close>

definition deliver :: "('v, 'e) surroundings \<Rightarrow> nat \<Rightarrow> ('v, 'e) dist \<Rightarrow> ('v, 'e) dist option" where
  "deliver K n s =
     (if down s n \<or> comp s n \<noteq> WIdle then None
      else case inbox s n of
        [] \<Rightarrow> None
      | k # ks \<Rightarrow>
          if \<not> registered K n then Some (s\<lparr>inbox := (inbox s)(n := ks), down := (down s)(n := True)\<rparr>)
          else if stuck s n then None
          else (case callMap s n k of
             None \<Rightarrow> Some (s\<lparr>inbox := (inbox s)(n := ks)\<rparr>)
           | Some c \<Rightarrow> Some (s\<lparr>inbox := (inbox s)(n := ks), comp := (comp s)(n := WFound c)\<rparr>)))"

definition get_result :: "('v, 'e) surroundings \<Rightarrow> nat \<Rightarrow> string option \<Rightarrow> ('v, 'e) dist \<Rightarrow> ('v, 'e) got" where
  "get_result K c fail s =
     (case fail of
        Some m \<Rightarrow> GotErr m
      | None \<Rightarrow>
          (case dres s (processId (dcalls s c)) of
             None \<Rightarrow> GotNil
           | Some it \<Rightarrow> Got (fst (wire K it)) (snd (wire K it))))"

fun complete_item :: "'v \<Rightarrow> ('v, 'e) got \<Rightarrow> ('v, 'e) cacheItem" where
  "complete_item z GotNil = (empty_item z)\<lparr>SysError := ''singleFlight get res by redis get error redis: nil''\<rparr>"
| "complete_item z (GotErr m) = (empty_item z)\<lparr>SysError := ''singleFlight get res by redis get error '' @ m\<rparr>"
| "complete_item z (Got it None) = it"
| "complete_item z (Got it (Some m)) =
     it\<lparr>SysError := ''singleFlight get res by redis json.Unmarshal error '' @ m\<rparr>"

fun poll_item :: "('v, 'e) got \<Rightarrow> ('v, 'e) cacheItem \<Rightarrow> ('v, 'e) cacheItem" where
  "poll_item (Got it None) old = it"
| "poll_item (Got it (Some m)) old = it\<lparr>SysError := m\<rparr>"
| "poll_item _ old = old"

definition comp_step :: "('v, 'e) surroundings \<Rightarrow> nat \<Rightarrow> string option \<Rightarrow> ('v, 'e) dist \<Rightarrow> ('v, 'e) dist option" where
  "comp_step K n fail s =
     (if down s n then None
      else case comp s n of
        WIdle \<Rightarrow> None
      | WFound c \<Rightarrow> Some (s\<lparr>comp := (comp s)(n := WGot c (get_result K c fail s))\<rparr>)
      | WGot c g \<Rightarrow> Some (upd_call c (\<lambda>x. x\<lparr>item := Some (empty_item (zero K))\<rparr>)
          (s\<lparr>comp := (comp s)(n := WEmptied c g)\<rparr>))
      | WEmptied c g \<Rightarrow> Some (upd_call c (\<lambda>x. x\<lparr>item := Some (complete_item (zero K) g)\<rparr>)
          (s\<lparr>comp := (comp s)(n := WFilled c)\<rparr>))
      | WFilled c \<Rightarrow> Some (upd_call c (\<lambda>x. x\<lparr>is_done := True\<rparr>) (s\<lparr>comp := (comp s)(n := WIdle)\<rparr>)))"

text \<open>
  The polling goroutine of call \<open>c\<close>: a tick, the \<open>GET\<close>, the item, \<open>done\<close>. A failing \<open>GET\<close> makes it
  write through the item pointer of the call, which takes the process down when that is nil. The
  text of that failure is not empty.
\<close>

definition poll_step :: "('v, 'e) surroundings \<Rightarrow> nat \<Rightarrow> string option \<Rightarrow> ('v, 'e) dist \<Rightarrow> ('v, 'e) dist option" where
  "poll_step K c fail s =
     (if down s (cnode (dcalls s c)) \<or> \<not> polling s c \<or> fail = Some '''' then None
      else case poller s c of
        WIdle \<Rightarrow> Some (s\<lparr>poller := (poller s)(c := WFound c)\<rparr>)
      | WFound d \<Rightarrow>
          (case get_result K c fail s of
             GotNil \<Rightarrow> Some (s\<lparr>poller := (poller s)(c := WIdle)\<rparr>)
           | GotErr m \<Rightarrow>
               (case item (dcalls s c) of
                  None \<Rightarrow> Some (s\<lparr>down := (down s)(cnode (dcalls s c) := True)\<rparr>)
                | Some it \<Rightarrow> Some (upd_call c (\<lambda>x. x\<lparr>item := Some (it\<lparr>SysError := m\<rparr>)\<rparr>)
                    (s\<lparr>poller := (poller s)(c := WFilled c)\<rparr>)))
           | Got it x \<Rightarrow> Some (s\<lparr>poller := (poller s)(c := WGot c (Got it x))\<rparr>))
      | WGot d g \<Rightarrow> Some (upd_call c (\<lambda>x. x\<lparr>item := Some (empty_item (zero K))\<rparr>)
          (s\<lparr>poller := (poller s)(c := WEmptied c g)\<rparr>))
      | WEmptied d g \<Rightarrow> Some (upd_call c (\<lambda>x. x\<lparr>item := Some (poll_item g (empty_item (zero K)))\<rparr>)
          (s\<lparr>poller := (poller s)(c := WFilled c)\<rparr>))
      | WFilled d \<Rightarrow> Some (upd_call c (\<lambda>x. x\<lparr>is_done := True\<rparr>) (s\<lparr>polling := (polling s)(c := False)\<rparr>)))"

definition poll_exit :: "nat \<Rightarrow> ('v, 'e) dist \<Rightarrow> ('v, 'e) dist option" where
  "poll_exit c s =
     (if is_done (dcalls s c) \<and> poller s c = WIdle then Some (s\<lparr>polling := (polling s)(c := False)\<rparr>) else None)"

section \<open>Watchdogs and the passing of time\<close>

definition alive_for :: "('v, 'e) dist \<Rightarrow> string \<Rightarrow> nat list \<Rightarrow> bool" where
  "alive_for s k cs \<longleftrightarrow> list_ex (\<lambda>c. ckey (dcalls s c) = k \<and> \<not> down s (cnode (dcalls s c))) cs"

definition renew :: "nat \<Rightarrow> ('v, 'e) dist \<Rightarrow> ('v, 'e) dist option" where
  "renew c s =
     (let k = ckey (dcalls s c) in
      if c \<in> set (dogs s) \<and> \<not> down s (cnode (dcalls s c)) \<and> dlock s k \<noteq> None
      then Some (s\<lparr>armed := (armed s)(k := True)\<rparr>) else None)"

definition dog_stops :: "('v, 'e) surroundings \<Rightarrow> nat \<Rightarrow> ('v, 'e) dist \<Rightarrow> ('v, 'e) dist option" where
  "dog_stops K c s =
     (if \<not> timely K \<and> c \<in> set (dogs s) then Some (s\<lparr>dogs := removeAll c (dogs s)\<rparr>) else None)"

definition key_expires :: "('v, 'e) surroundings \<Rightarrow> string \<Rightarrow> ('v, 'e) dist \<Rightarrow> ('v, 'e) dist option" where
  "key_expires K k s =
     (if armed s k \<and> \<not> alive_for s k (dogs s) \<and> (timely K \<longrightarrow> \<not> alive_for s k (guarded s))
      then Some (s\<lparr>dlock := (dlock s)(k := None), armed := (armed s)(k := False)\<rparr>) else None)"

section \<open>Events\<close>

datatype ('v, 'e) event =
    Enter nat string
  | EnterFails nat string
  | FnReturns nat 'v "'e go_err option"
  | FnPanics nat string
  | Advance nat bool
  | Deliver nat
  | Lose nat
  | Comp nat "string option"
  | Poll nat "string option"
  | PollExit nat
  | Renew nat
  | DogStops nat
  | KeyExpires string
  | ResExpires nat
  | NodeDown nat

fun dstep :: "('v, 'e) surroundings \<Rightarrow> ('v, 'e) event \<Rightarrow> ('v, 'e) dist \<Rightarrow> ('v, 'e) dist option" where
  "dstep K (Enter t k) s = do_enter K t k s"
| "dstep K (EnterFails t k) s = do_enter_fails K t k s"
| "dstep K (FnReturns t v e) s = fn_returns K t v e s"
| "dstep K (FnPanics t m) s = fn_panics K t m s"
| "dstep K (Advance t ok) s = advance K t ok s"
| "dstep K (Deliver n) s = deliver K n s"
| "dstep K (Lose n) s = Some (s\<lparr>inbox := (inbox s)(n := tl (inbox s n))\<rparr>)"
| "dstep K (Comp n fail) s = comp_step K n fail s"
| "dstep K (Poll c fail) s = poll_step K c fail s"
| "dstep K (PollExit c) s = poll_exit c s"
| "dstep K (Renew c) s = renew c s"
| "dstep K (DogStops c) s = dog_stops K c s"
| "dstep K (KeyExpires k) s = key_expires K k s"
| "dstep K (ResExpires r) s = Some (s\<lparr>dres := (dres s)(r := None)\<rparr>)"
| "dstep K (NodeDown n) s = Some (s\<lparr>down := (down s)(n := True)\<rparr>)"

definition dist_step :: "('v, 'e) surroundings \<Rightarrow> ('v, 'e) dist \<Rightarrow> ('v, 'e) dist \<Rightarrow> bool" where
  "dist_step K s t \<longleftrightarrow> (\<exists>ev. dstep K ev s = Some t)"

primrec run_events :: "('v, 'e) surroundings \<Rightarrow> ('v, 'e) event list \<Rightarrow> ('v, 'e) dist \<Rightarrow> ('v, 'e) dist option" where
  "run_events K [] s = Some s"
| "run_events K (ev # evs) s = (case dstep K ev s of None \<Rightarrow> None | Some t \<Rightarrow> run_events K evs t)"

lemma run_events_steps: "run_events K evs s = Some t \<Longrightarrow> (dist_step K)\<^sup>*\<^sup>* s t"
proof (induction evs arbitrary: s)
  case (Cons ev evs)
  from Cons.prems obtain u where u: "dstep K ev s = Some u" "run_events K evs u = Some t"
    by (auto split: option.splits)
  from u(1) have "dist_step K s u" by (auto simp: dist_step_def)
  then show ?case using Cons.IH [OF u(2)] by (rule converse_rtranclp_into_rtranclp)
qed simp

lemma run_events_reach:
  "run_events K evs s = Some t \<Longrightarrow> reach dist_init (dist_step K) s \<Longrightarrow> reach dist_init (dist_step K) t"
  by (rule reach_rtranclp [OF _ run_events_steps])

end
