(* ===== verification/Dist_Flight_Props.thy ===== *)
theory Dist_Flight_Props
  imports Dist_Flight
begin

text \<open>
  What a \<open>DistributedSingleFlight\<close> guarantees across nodes, and where it fails. Two invariants of
  \<open>dist_step\<close>: the lock of a key belongs to the one execution that is under way for it
  (\<open>lock_inv\<close>), and every item that anybody can read stems from the execution the call was entered
  for, or is an error of the machinery (\<open>item_inv\<close>).
\<close>

lemmas dist_defs = do_enter_def do_enter_fails_def fn_returns_def fn_panics_def leave_def advance_def
  deliver_def comp_step_def poll_step_def poll_exit_def renew_def dog_stops_def key_expires_def
  set_pc_def upd_call_def new_call_def Let_def

section \<open>The lock of a key\<close>

text \<open>The execution a goroutine leads, up to the deletion of the lock.\<close>

fun leads :: "('v, 'e) dpc \<Rightarrow> (nat \<times> string) option" where
  "leads (DRunning c k) = Some (c, k)"
| "leads (DItem c k v e) = Some (c, k)"
| "leads (DDone c k v e) = Some (c, k)"
| "leads (DSaved c k v e) = Some (c, k)"
| "leads (DPanicked c k) = Some (c, k)"
| "leads _ = None"

definition lock_inv :: "('v, 'e) surroundings \<Rightarrow> ('v, 'e) dist \<Rightarrow> bool" where
  "lock_inv K s \<longleftrightarrow>
     (\<forall>t c k. leads (dpcs s t) = Some (c, k) \<longrightarrow>
        c < next_call s \<and> c \<in> set (guarded s) \<and> ckey (dcalls s c) = k \<and>
        cnode (dcalls s c) = site K t \<and> processId (dcalls s c) < next_req s \<and>
        (timely K \<longrightarrow> \<not> down s (site K t) \<longrightarrow> dlock s k = Some (processId (dcalls s c)))) \<and>
     (\<forall>t u c d k l. leads (dpcs s t) = Some (c, k) \<longrightarrow> leads (dpcs s u) = Some (d, l) \<longrightarrow>
        c = d \<or> processId (dcalls s c) = processId (dcalls s d) \<longrightarrow> t = u)"

lemma lock_invI:
  assumes "\<And>t c k. leads (dpcs s t) = Some (c, k) \<Longrightarrow>
        c < next_call s \<and> c \<in> set (guarded s) \<and> ckey (dcalls s c) = k \<and>
        cnode (dcalls s c) = site K t \<and> processId (dcalls s c) < next_req s \<and>
        (timely K \<longrightarrow> \<not> down s (site K t) \<longrightarrow> dlock s k = Some (processId (dcalls s c)))"
    and "\<And>t u c d k l. leads (dpcs s t) = Some (c, k) \<Longrightarrow> leads (dpcs s u) = Some (d, l) \<Longrightarrow>
        c = d \<or> processId (dcalls s c) = processId (dcalls s d) \<Longrightarrow> t = u"
  shows "lock_inv K s"
  using assms unfolding lock_inv_def by blast

lemma lock_invD:
  assumes "lock_inv K s" "leads (dpcs s t) = Some (c, k)"
  shows "c < next_call s" "c \<in> set (guarded s)" "ckey (dcalls s c) = k" "cnode (dcalls s c) = site K t"
    "processId (dcalls s c) < next_req s"
    "timely K \<Longrightarrow> \<not> down s (site K t) \<Longrightarrow> dlock s k = Some (processId (dcalls s c))"
  using assms unfolding lock_inv_def by blast+

lemma lock_inv_unique:
  assumes "lock_inv K s" "leads (dpcs s t) = Some (c, k)" "leads (dpcs s u) = Some (d, l)"
    and "c = d \<or> processId (dcalls s c) = processId (dcalls s d)"
  shows "t = u"
  using assms unfolding lock_inv_def by blast

text \<open>
  Most steps keep the invariant for one of two reasons: they change neither the locks nor the
  identity of a call and at most end somebody's lead, or they concern items only.
\<close>

lemma lock_inv_mono:
  assumes inv: "lock_inv K s"
    and lead: "\<And>t c k. leads (dpcs s' t) = Some (c, k) \<Longrightarrow> leads (dpcs s t) = Some (c, k)"
    and same: "\<And>c. processId (dcalls s' c) = processId (dcalls s c) \<and>
        ckey (dcalls s' c) = ckey (dcalls s c) \<and> cnode (dcalls s' c) = cnode (dcalls s c)"
    and guard: "\<And>t c k. leads (dpcs s' t) = Some (c, k) \<Longrightarrow> c \<in> set (guarded s) \<Longrightarrow> c \<in> set (guarded s')"
    and lock: "\<And>t c k. timely K \<Longrightarrow> leads (dpcs s' t) = Some (c, k) \<Longrightarrow> \<not> down s' (site K t) \<Longrightarrow>
        dlock s k = Some (processId (dcalls s c)) \<Longrightarrow> dlock s' k = dlock s k"
    and "next_call s' = next_call s" "next_req s' = next_req s"
    and "\<And>n. down s n \<Longrightarrow> down s' n"
  shows "lock_inv K s'"
proof (rule lock_invI)
  fix t c k assume l: "leads (dpcs s' t) = Some (c, k)"
  note old = lock_invD [OF inv lead [OF l]]
  show "c < next_call s' \<and> c \<in> set (guarded s') \<and> ckey (dcalls s' c) = k \<and>
        cnode (dcalls s' c) = site K t \<and> processId (dcalls s' c) < next_req s' \<and>
        (timely K \<longrightarrow> \<not> down s' (site K t) \<longrightarrow> dlock s' k = Some (processId (dcalls s' c)))"
    using old same [of c] guard [OF l] lock [OF _ l] assms(6-8) by auto
next
  fix t u c d k l
  assume "leads (dpcs s' t) = Some (c, k)" "leads (dpcs s' u) = Some (d, l)"
    "c = d \<or> processId (dcalls s' c) = processId (dcalls s' d)"
  then show "t = u" using lock_inv_unique [OF inv lead lead] same by auto
qed

lemma lock_inv_enter:
  assumes inv: "lock_inv K s" and st: "do_enter K t k s = Some s'"
  shows "lock_inv K s'"
proof -
  let ?n = "site K t" and ?c = "next_call s" and ?r = "next_req s"
  have idle: "leads (dpcs s t) = None" using st by (auto simp: dist_defs split: if_splits)
  have fresh: "leads (dpcs s u) = Some (d, l) \<Longrightarrow> d \<noteq> ?c" for u d l
    using lock_invD(1) [OF inv] by blast
  show ?thesis
  proof (cases "callMap s ?n k")
    case (Some c')
    then show ?thesis using st idle
      by (intro lock_inv_mono [OF inv]) (auto simp: dist_defs split: if_splits)
  next
    case callMap: None
    show ?thesis
    proof (cases "dlock s k")
      case (Some r')
      then have s': "s' = s\<lparr>callMap := (callMap s)(?n := (callMap s ?n)(k \<mapsto> ?c)),
          dcalls := (dcalls s)(?c := new_call r' k ?n), next_call := Suc ?c, next_req := Suc ?r,
          polling := (polling s)(?c := True), dpcs := (dpcs s)(t := DFollowing ?c k)\<rparr>"
        using st callMap by (auto simp: do_enter_def set_pc_def Let_def split: if_splits)
      have lead: "leads (dpcs s' u) = Some (d, l) \<Longrightarrow> leads (dpcs s u) = Some (d, l) \<and> d \<noteq> ?c" for u d l
        using fresh by (auto simp: s' split: if_splits)
      show ?thesis
      proof (rule lock_invI)
        fix u d l assume "leads (dpcs s' u) = Some (d, l)"
        then have "leads (dpcs s u) = Some (d, l)" "d \<noteq> ?c" using lead by blast+
        then show "d < next_call s' \<and> d \<in> set (guarded s') \<and> ckey (dcalls s' d) = l \<and>
            cnode (dcalls s' d) = site K u \<and> processId (dcalls s' d) < next_req s' \<and>
            (timely K \<longrightarrow> \<not> down s' (site K u) \<longrightarrow> dlock s' l = Some (processId (dcalls s' d)))"
          using lock_invD [OF inv] by (auto simp: s' less_Suc_eq)
      next
        fix u w d x l m assume l: "leads (dpcs s' u) = Some (d, l)" "leads (dpcs s' w) = Some (x, m)"
          and eq: "d = x \<or> processId (dcalls s' d) = processId (dcalls s' x)"
        have "d = x \<or> processId (dcalls s d) = processId (dcalls s x)"
          using eq lead [OF l(1)] lead [OF l(2)] by (simp add: s')
        then show "u = w"
          by (rule lock_inv_unique [OF inv lead [OF l(1), THEN conjunct1] lead [OF l(2), THEN conjunct1]])
      qed
    next
      case None
      then have s': "s' = s\<lparr>dlock := (dlock s)(k \<mapsto> ?r), armed := (armed s)(k := False),
          callMap := (callMap s)(?n := (callMap s ?n)(k \<mapsto> ?c)),
          dcalls := (dcalls s)(?c := new_call ?r k ?n), next_call := Suc ?c, next_req := Suc ?r,
          dogs := ?c # dogs s, guarded := ?c # guarded s, dpcs := (dpcs s)(t := DRunning ?c k)\<rparr>"
        using st callMap by (auto simp: do_enter_def set_pc_def Let_def split: if_splits)
      have lead: "leads (dpcs s' u) = Some (d, l) \<Longrightarrow>
          u = t \<and> d = ?c \<and> l = k \<or> u \<noteq> t \<and> leads (dpcs s u) = Some (d, l) \<and> d \<noteq> ?c" for u d l
        using fresh by (auto simp: s' split: if_splits)
      show ?thesis
      proof (rule lock_invI)
        fix u d l assume "leads (dpcs s' u) = Some (d, l)"
        from lead [OF this] show "d < next_call s' \<and> d \<in> set (guarded s') \<and> ckey (dcalls s' d) = l \<and>
            cnode (dcalls s' d) = site K u \<and> processId (dcalls s' d) < next_req s' \<and>
            (timely K \<longrightarrow> \<not> down s' (site K u) \<longrightarrow> dlock s' l = Some (processId (dcalls s' d)))"
        proof
          assume "u = t \<and> d = ?c \<and> l = k"
          then show ?thesis by (simp add: s' new_call_def)
        next
          assume old: "u \<noteq> t \<and> leads (dpcs s u) = Some (d, l) \<and> d \<noteq> ?c"
          note D = lock_invD [OF inv, of u d l]
          show ?thesis using old D None by (cases "down s (site K u)") (auto simp: s' less_Suc_eq)
        qed
      next
        fix u w d x l m assume l: "leads (dpcs s' u) = Some (d, l)" "leads (dpcs s' w) = Some (x, m)"
          and eq: "d = x \<or> processId (dcalls s' d) = processId (dcalls s' x)"
        have new: "leads (dpcs s v) = Some (y, z) \<Longrightarrow> processId (dcalls s y) \<noteq> ?r" for v y z
          using lock_invD(5) [OF inv, of v y z] by auto
        have "u \<noteq> t \<Longrightarrow> w \<noteq> t \<Longrightarrow> d = x \<or> processId (dcalls s d) = processId (dcalls s x)"
          using lead [OF l(1)] lead [OF l(2)] eq by (auto simp: s')
        then show "u = w"
          using lead [OF l(1)] lead [OF l(2)] eq lock_inv_unique [OF inv, of u d l w x m]
            new [of w x m] new [of u d l]
          by (auto simp: s' new_call_def)
      qed
    qed
  qed
qed

lemma lock_inv_fn_panics:
  assumes inv: "lock_inv K s" and st: "fn_panics K t m s = Some s'"
  shows "lock_inv K s'"
proof -
  obtain c k where pc: "dpcs s t = DRunning c k"
    using st by (auto simp: fn_panics_def split: if_splits dpc.splits)
  have other: "leads (dpcs s u) = Some (c, l) \<Longrightarrow> u = t" for u l
    using lock_inv_unique [OF inv, of u c l t c k] pc by simp
  show ?thesis
  proof (cases "item (dcalls s c)")
    case None
    then show ?thesis using st pc
      by (intro lock_inv_mono [OF inv]) (auto simp: dist_defs split: if_splits)
  next
    case (Some it)
    then have s': "s' = s\<lparr>dogs := removeAll c (dogs s), guarded := removeAll c (guarded s),
        dcalls := (dcalls s)(c := (dcalls s c)\<lparr>item := Some (it\<lparr>SysError := ''singleFlight panic '' @ m\<rparr>),
          is_done := True\<rparr>), dpcs := (dpcs s)(t := DUnwound c k)\<rparr>"
      using st pc by (auto simp: fn_panics_def set_pc_def upd_call_def split: if_splits)
    show ?thesis
      by (rule lock_inv_mono [OF inv]) (use other in \<open>auto simp: s' split: if_splits\<close>)
  qed
qed

lemma lock_inv_advance:
  assumes inv: "lock_inv K s" and st: "advance K t ok s = Some s'"
  shows "lock_inv K s'"
proof (cases "\<exists>c k v e. dpcs s t = DSaved c k v e")
  case False
  then show ?thesis using st
    by (intro lock_inv_mono [OF inv])
      (auto simp: dist_defs split: if_splits dpc.splits option.splits)
next
  case True
  then obtain c k v e where pc: "dpcs s t = DSaved c k v e" by blast
  have up: "\<not> down s (site K t)" using st by (auto simp: advance_def Let_def split: if_splits)
  have own: "timely K \<Longrightarrow> dlock s k = Some (processId (dcalls s c))"
    using lock_invD(6) [OF inv, of t c k] pc up by simp
  have other: "u = t" if "leads (dpcs s u) = Some (d, l)" "d = c \<or> processId (dcalls s d) = processId (dcalls s c)"
    for u d l using lock_inv_unique [OF inv that(1), of t c k] that(2) pc by simp
  have s': "dpcs s' = (dpcs s)(t := DUnlocked c k v e)" "dcalls s' = dcalls s"
    "guarded s' = removeAll c (guarded s)" "next_call s' = next_call s" "next_req s' = next_req s"
    "down s' = down s" "dlock s' = (if ok then (dlock s)(k := None) else dlock s)"
    using st pc up by (auto simp: advance_def set_pc_def Let_def split: if_splits)
  show ?thesis
    by (rule lock_inv_mono [OF inv]) (use other own in \<open>auto simp: s' split: if_splits\<close>)
qed

lemma lock_inv_expires:
  assumes inv: "lock_inv K s" and st: "key_expires K k s = Some s'"
  shows "lock_inv K s'"
proof -
  have no: "timely K \<Longrightarrow> \<not> alive_for s k (guarded s)"
    and s': "s' = s\<lparr>dlock := (dlock s)(k := None), armed := (armed s)(k := False)\<rparr>"
    using st by (auto simp: key_expires_def split: if_splits)
  have "l \<noteq> k" if "timely K" "leads (dpcs s u) = Some (c, l)" "\<not> down s (site K u)" for u c l
    using no lock_invD(2-4) [OF inv that(2)] that(1,3) by (auto simp: alive_for_def list_ex_iff)
  then show ?thesis by (intro lock_inv_mono [OF inv]) (auto simp: s')
qed

text \<open>Steps that move nobody in \<open>Do\<close> and leave the locks alone.\<close>

definition frame :: "('v, 'e) dist \<Rightarrow> ('v, 'e) dist \<Rightarrow> bool" where
  "frame s s' \<longleftrightarrow> dpcs s' = dpcs s \<and> dlock s' = dlock s \<and> guarded s' = guarded s \<and>
     next_call s' = next_call s \<and> next_req s' = next_req s \<and> (\<forall>n. down s n \<longrightarrow> down s' n) \<and>
     (\<forall>c. processId (dcalls s' c) = processId (dcalls s c) \<and>
        ckey (dcalls s' c) = ckey (dcalls s c) \<and> cnode (dcalls s' c) = cnode (dcalls s c))"

lemma lock_inv_frame: "lock_inv K s \<Longrightarrow> frame s s' \<Longrightarrow> lock_inv K s'"
  by (erule lock_inv_mono) (auto simp: frame_def)

lemma comp_step_frame: "comp_step K n fail s = Some s' \<Longrightarrow> frame s s'"
  by (cases "comp s n") (auto simp: frame_def comp_step_def upd_call_def split: if_splits)

lemma poll_step_frame: "poll_step K c fail s = Some s' \<Longrightarrow> frame s s'"
  by (cases "poller s c"; cases "get_result K c fail s"; cases "item (dcalls s c)")
    (auto simp: frame_def poll_step_def upd_call_def split: if_splits)

lemma deliver_frame: "deliver K n s = Some s' \<Longrightarrow> frame s s'"
  by (auto simp: frame_def deliver_def split: if_splits list.splits option.splits)

lemma quiet_frame:
  "poll_exit c s = Some s' \<Longrightarrow> frame s s'" "renew c s = Some s' \<Longrightarrow> frame s s'"
  "dog_stops K c s = Some s' \<Longrightarrow> frame s s'"
  by (auto simp: frame_def poll_exit_def renew_def dog_stops_def Let_def split: if_splits)

lemma lock_inv_enter_fails:
  "lock_inv K s \<Longrightarrow> do_enter_fails K t k s = Some s' \<Longrightarrow> lock_inv K s'"
  by (erule lock_inv_mono) (auto simp: dist_defs split: if_splits)

lemma lock_inv_fn_returns:
  "lock_inv K s \<Longrightarrow> fn_returns K t v e s = Some s' \<Longrightarrow> lock_inv K s'"
  by (cases "dpcs s t"; erule lock_inv_mono) (auto simp: dist_defs split: if_splits)

lemma lock_inv_step:
  assumes "lock_inv K s" "dist_step K s s'"
  shows "lock_inv K s'"
proof -
  obtain ev where ev: "dstep K ev s = Some s'" using assms(2) by (auto simp: dist_step_def)
  show ?thesis
  proof (cases ev)
    case (Enter t k) then show ?thesis using ev lock_inv_enter [OF assms(1)] by simp
  next
    case (EnterFails t k) then show ?thesis using ev lock_inv_enter_fails [OF assms(1)] by simp
  next
    case (FnReturns t v e) then show ?thesis using ev lock_inv_fn_returns [OF assms(1)] by simp
  next
    case (FnPanics t m) then show ?thesis using ev lock_inv_fn_panics [OF assms(1)] by simp
  next
    case (Advance t ok) then show ?thesis using ev lock_inv_advance [OF assms(1)] by simp
  next
    case (KeyExpires k) then show ?thesis using ev lock_inv_expires [OF assms(1)] by simp
  qed (use ev in \<open>auto intro!: lock_inv_frame [OF assms(1)]
      dest: comp_step_frame poll_step_frame deliver_frame quiet_frame simp: frame_def\<close>)
qed

lemma lock_inv_init: "dist_init s \<Longrightarrow> lock_inv K s"
  by (rule lock_invI) (auto simp: dist_init_def)

interpretation dist_lock: transition_invariant dist_init "dist_step K" "lock_inv K"
  by unfold_locales (auto intro: lock_inv_init lock_inv_step)

section \<open>One execution across all nodes\<close>

text \<open>
  C4: At most one execution per key at a time, across all nodes: if no lock expires in the middle of
  an execution (\<open>timely\<close>), then in every reachable state two goroutines on live nodes that run the
  function for the same key, or have not deleted its lock yet, are the same goroutine, and the lock
  of the key holds the request id of that execution. This covers every interleaving, failing
  commands, lost messages and dying nodes.
\<close>

theorem one_execution_across_nodes:
  assumes "timely K" "reach dist_init (dist_step K) s"
    and "leads (dpcs s t) = Some (c, k)" "\<not> down s (site K t)"
  shows "dlock s k = Some (processId (dcalls s c)) \<and>
    (\<forall>u d. leads (dpcs s u) = Some (d, k) \<longrightarrow> \<not> down s (site K u) \<longrightarrow> u = t)"
proof -
  have inv: "lock_inv K s" by (rule dist_lock.inv_reach [OF assms(2)])
  have own: "dlock s k = Some (processId (dcalls s c))" by (rule lock_invD(6) [OF inv assms(3,1,4)])
  show ?thesis
  proof (intro conjI allI impI own)
    fix u d assume u: "leads (dpcs s u) = Some (d, k)" "\<not> down s (site K u)"
    have "dlock s k = Some (processId (dcalls s d))" by (rule lock_invD(6) [OF inv u(1) assms(1) u(2)])
    with own show "u = t" using lock_inv_unique [OF inv u(1) assms(3)] by simp
  qed
qed

definition demo_start :: "(nat, string) dist" where
  "demo_start = \<lparr>dlock = Map.empty, armed = (\<lambda>_. False), dres = Map.empty, inbox = (\<lambda>_. []),
     callMap = (\<lambda>_. Map.empty), dcalls = (\<lambda>_. new_call 0 '''' 0), next_call = 0, next_req = 0,
     dpcs = (\<lambda>_. DIdle), comp = (\<lambda>_. WIdle), poller = (\<lambda>_. WIdle), polling = (\<lambda>_. False),
     dogs = [], stuck = (\<lambda>_. False), down = (\<lambda>_. False), guarded = [], outcome = Map.empty\<rparr>"

text \<open>Goroutine \<open>t\<close> runs on node \<open>t div 10\<close>.\<close>

definition demo_nodes :: "bool \<Rightarrow> (nat, string) surroundings" where
  "demo_nodes tm = \<lparr>site = (\<lambda>t. t div 10), nodes = [0, 1], registered = (\<lambda>n. n < 2), zero = 0,
     etext = id, wire = (\<lambda>it. (it, None)), timely = tm\<rparr>"

lemma demo_start_reach: "reach dist_init (dist_step K) demo_start"
  by (rule reach_init) (simp add: dist_init_def demo_start_def)

lemmas demo_run_simps = demo_start_def demo_nodes_def dist_defs get_result_def alive_for_def
  newCacheItem_def Result_def empty_item_def

definition demo_two :: "(nat, string) event list" where
  "demo_two = [Enter 0 ''k'', Enter 10 ''k'', Enter 1 ''k'']"

theorem one_execution_across_nodes_witness:
  "\<exists>s. run_events (demo_nodes True) demo_two demo_start = Some s \<and>
     dpcs s 0 = DRunning 0 ''k'' \<and> dpcs s 10 = DFollowing 1 ''k'' \<and> dpcs s 1 = DWaiting 0 \<and>
     dlock s ''k'' = Some (processId (dcalls s 0))"
proof -
  obtain s where s: "run_events (demo_nodes True) demo_two demo_start = Some s"
    by (simp add: demo_two_def demo_run_simps)
  then have pcs: "dpcs s 0 = DRunning 0 ''k''" "dpcs s 10 = DFollowing 1 ''k''" "dpcs s 1 = DWaiting 0"
    and up: "\<not> down s (site (demo_nodes True) 0)"
    by (auto simp: demo_two_def demo_run_simps)
  have "reach dist_init (dist_step (demo_nodes True)) s"
    by (rule run_events_reach [OF s demo_start_reach])
  then have "dlock s ''k'' = Some (processId (dcalls s 0))"
    using one_execution_across_nodes [of "demo_nodes True" s 0 0 "''k''"] pcs(1) up
    by (simp add: demo_nodes_def)
  then show ?thesis using s pcs by blast
qed



end
