(* ===== verification/Dist_Flight_Items.thy ===== *)
theory Dist_Flight_Items
  imports Dist_Flight_Props
begin

text \<open>
  What the callers of a \<open>DistributedSingleFlight\<close> are given. \<open>item_inv\<close> follows every item from the
  function's result through Redis to the callers on other nodes: it stems from the execution whose
  request id the call holds, or the machinery put it there.
\<close>

section \<open>Items of a call\<close>

definition okitem :: "'v \<Rightarrow> ('v, 'e) cacheItem option \<Rightarrow> ('v, 'e) cacheItem \<Rightarrow> bool" where
  "okitem z out it \<longleftrightarrow> it = empty_item z \<or> out = Some it \<or>
     (\<exists>b m. (b = empty_item z \<or> out = Some b) \<and> m \<noteq> '''' \<and> it = b\<lparr>SysError := m\<rparr>)"

fun okgot :: "('v, 'e) cacheItem option \<Rightarrow> ('v, 'e) got \<Rightarrow> bool" where
  "okgot out (Got it x) = (x = None \<and> out = Some it)"
| "okgot out _ = True"

lemma okitem_empty [simp]: "okitem z out (empty_item z)"
  by (simp add: okitem_def)

lemma okitem_outcome [simp]: "okitem z (Some it) it"
  by (simp add: okitem_def)

lemma okitem_SysError: "okitem z out it \<Longrightarrow> m \<noteq> '''' \<Longrightarrow> okitem z out (it\<lparr>SysError := m\<rparr>)"
  unfolding okitem_def by force

lemma okitem_complete: "okgot out g \<Longrightarrow> okitem z out (complete_item z g)"
  by (cases "(z, g)" rule: complete_item.cases) (auto intro!: okitem_SysError)

lemma okitem_poll: "okgot out g \<Longrightarrow> okitem z out (poll_item g (empty_item z))"
  by (cases g; cases "case g of Got it x \<Rightarrow> x | _ \<Rightarrow> None") auto

lemma okitem_mono:
  "okitem z out it \<Longrightarrow> (\<And>x. out = Some x \<Longrightarrow> out' = Some x) \<Longrightarrow> okitem z out' it"
  unfolding okitem_def by blast

lemma okgot_mono: "okgot out g \<Longrightarrow> (\<And>x. out = Some x \<Longrightarrow> out' = Some x) \<Longrightarrow> okgot out' g"
  by (cases g) auto

section \<open>The invariant\<close>

definition result_of :: "('v, 'e) dist \<Rightarrow> nat \<Rightarrow> ('v, 'e) cacheItem option" where
  "result_of s c = outcome s (processId (dcalls s c))"

definition has_item :: "('v, 'e) dist \<Rightarrow> nat \<Rightarrow> bool" where
  "has_item s c \<longleftrightarrow> item (dcalls s c) \<noteq> None"

definition led_ok :: "('v, 'e) surroundings \<Rightarrow> ('v, 'e) dist \<Rightarrow> nat \<Rightarrow> 'v \<Rightarrow> 'e go_err option \<Rightarrow> bool" where
  "led_ok K s c v e \<longleftrightarrow> c < next_call s \<and> has_item s c \<and> result_of s c = Some (newCacheItem (etext K) v e)"

fun okpc :: "('v, 'e) surroundings \<Rightarrow> ('v, 'e) dist \<Rightarrow> ('v, 'e) dpc \<Rightarrow> bool" where
  "okpc K s (DWaiting c) = (c < next_call s)"
| "okpc K s (DFollowing c k) = (c < next_call s)"
| "okpc K s (DFollowed c) = (c < next_call s \<and> has_item s c)"
| "okpc K s (DRunning c k) = (c < next_call s)"
| "okpc K s (DItem c k v e) = led_ok K s c v e"
| "okpc K s (DDone c k v e) = led_ok K s c v e"
| "okpc K s (DSaved c k v e) = led_ok K s c v e"
| "okpc K s (DUnlocked c k v e) = led_ok K s c v e"
| "okpc K s (DDeleted c k v e) = led_ok K s c v e"
| "okpc K s (DLed c v e) = led_ok K s c v e"
| "okpc K s (DReturned c v e) =
     (c < next_call s \<and> (\<exists>it. okitem (zero K) (result_of s c) it \<and> (v, e) = Result it))"
| "okpc K s (DNilDeref c) = False"
| "okpc K s _ = True"

fun okw :: "('v, 'e) dist \<Rightarrow> nat option \<Rightarrow> ('v, 'e) wpc \<Rightarrow> bool" where
  "okw s own WIdle = True"
| "okw s own (WFound c) = ((own = None \<or> own = Some c) \<and> c < next_call s)"
| "okw s own (WGot c g) = ((own = None \<or> own = Some c) \<and> c < next_call s \<and> okgot (result_of s c) g)"
| "okw s own (WEmptied c g) =
     ((own = None \<or> own = Some c) \<and> c < next_call s \<and> has_item s c \<and> okgot (result_of s c) g)"
| "okw s own (WFilled c) = ((own = None \<or> own = Some c) \<and> c < next_call s \<and> has_item s c)"

definition okcell :: "('v, 'e) surroundings \<Rightarrow> ('v, 'e) dist \<Rightarrow> nat \<Rightarrow> bool" where
  "okcell K s c \<longleftrightarrow> (\<forall>it. item (dcalls s c) = Some it \<longrightarrow> okitem (zero K) (result_of s c) it) \<and>
     (is_done (dcalls s c) \<longrightarrow> has_item s c)"

definition item_inv :: "('v, 'e) surroundings \<Rightarrow> ('v, 'e) dist \<Rightarrow> bool" where
  "item_inv K s \<longleftrightarrow>
     (\<forall>t. okpc K s (dpcs s t)) \<and> (\<forall>n. okw s None (comp s n)) \<and> (\<forall>c. okw s (Some c) (poller s c)) \<and>
     (\<forall>c. polling s c \<longrightarrow> c < next_call s) \<and> (\<forall>c < next_call s. okcell K s c) \<and>
     (\<forall>r it. dres s r = Some it \<longrightarrow> outcome s r = Some it) \<and>
     (\<forall>n k c. callMap s n k = Some c \<longrightarrow> c < next_call s) \<and>
     (\<forall>r it. outcome s r = Some it \<longrightarrow> r < next_req s) \<and>
     (\<forall>t c k. dpcs s t = DRunning c k \<longrightarrow> result_of s c = None)"

lemma item_invD:
  assumes "item_inv K s"
  shows "okpc K s (dpcs s t)" "okw s None (comp s n)" "okw s (Some c) (poller s c)"
    "polling s c \<Longrightarrow> c < next_call s" "c < next_call s \<Longrightarrow> okcell K s c"
    "dres s r = Some it \<Longrightarrow> outcome s r = Some it" "callMap s n k = Some c \<Longrightarrow> c < next_call s"
    "outcome s r = Some it \<Longrightarrow> r < next_req s" "dpcs s t = DRunning c k \<Longrightarrow> result_of s c = None"
  using assms unfolding item_inv_def by blast+

text \<open>Calls keep their request id and their item once they have one, executions their outcome.\<close>

definition evolves :: "('v, 'e) dist \<Rightarrow> ('v, 'e) dist \<Rightarrow> bool" where
  "evolves s s' \<longleftrightarrow> next_call s \<le> next_call s' \<and>
     (\<forall>c < next_call s. processId (dcalls s' c) = processId (dcalls s c) \<and> (has_item s c \<longrightarrow> has_item s' c)) \<and>
     (\<forall>r it. outcome s r = Some it \<longrightarrow> outcome s' r = Some it)"

lemma evolves_refl: "evolves s s"
  by (simp add: evolves_def)

lemma evolves_result: "evolves s s' \<Longrightarrow> c < next_call s \<Longrightarrow> result_of s c = Some x \<Longrightarrow> result_of s' c = Some x"
  by (simp add: evolves_def result_of_def)

lemma led_ok_mono: "evolves s s' \<Longrightarrow> led_ok K s c v e \<Longrightarrow> led_ok K s' c v e"
  using evolves_result [of s s' c] by (auto simp: led_ok_def evolves_def)

lemma evolves_next: "evolves s s' \<Longrightarrow> c < next_call s \<Longrightarrow> c < next_call s'"
  by (simp add: evolves_def)

lemma evolves_item: "evolves s s' \<Longrightarrow> c < next_call s \<Longrightarrow> has_item s c \<Longrightarrow> has_item s' c"
  by (simp add: evolves_def)

lemma okpc_mono:
  assumes ev: "evolves s s'" and p: "okpc K s p"
  shows "okpc K s' p"
proof (cases p)
  case (DReturned c v e)
  then have c: "c < next_call s" using p by simp
  show ?thesis using DReturned p okitem_mono [OF _ evolves_result [OF ev c]] evolves_next [OF ev c]
    by auto
qed (use p led_ok_mono [OF ev] evolves_next [OF ev] evolves_item [OF ev] in auto)

lemma okw_mono: "evolves s s' \<Longrightarrow> okw s own w \<Longrightarrow> okw s' own w"
  using evolves_result [of s s'] by (cases w) (auto simp: evolves_def intro: okgot_mono)

lemma okcell_mono:
  assumes ev: "evolves s s'" and c: "c < next_call s" and ok: "okcell K s c"
    and "item (dcalls s' c) = item (dcalls s c)" "is_done (dcalls s' c) = is_done (dcalls s c)"
  shows "okcell K s' c"
  using assms(4,5) ok okitem_mono [OF _ evolves_result [OF ev c]] by (auto simp: okcell_def has_item_def)

lemma item_invI:
  assumes inv: "item_inv K s" and ev: "evolves s s'"
    and pcs: "\<And>t. dpcs s' t = dpcs s t \<or> okpc K s' (dpcs s' t)"
    and comp: "\<And>n. comp s' n = comp s n \<or> okw s' None (comp s' n)"
    and poller: "\<And>c. poller s' c = poller s c \<or> okw s' (Some c) (poller s' c)"
    and polling: "\<And>c. polling s' c \<Longrightarrow> polling s c \<or> c < next_call s'"
    and cells: "\<And>c. c < next_call s' \<Longrightarrow>
      c < next_call s \<and> item (dcalls s' c) = item (dcalls s c) \<and> is_done (dcalls s' c) = is_done (dcalls s c)
      \<or> okcell K s' c"
    and res: "\<And>r it. dres s' r = Some it \<Longrightarrow> dres s r = Some it \<or> outcome s' r = Some it"
    and callMap: "\<And>n k c. callMap s' n k = Some c \<Longrightarrow> callMap s n k = Some c \<or> c < next_call s'"
    and outcome: "\<And>r it. outcome s' r = Some it \<Longrightarrow> outcome s r = Some it \<or> r < next_req s'"
    and req: "next_req s \<le> next_req s'"
    and running: "\<And>t c k. dpcs s' t = DRunning c k \<Longrightarrow> result_of s' c = None"
  shows "item_inv K s'"
proof -
  note D = item_invD [OF inv]
  have next_ge: "next_call s \<le> next_call s'" using ev by (simp add: evolves_def)
  have "okpc K s' (dpcs s' t)" for t using pcs [of t] okpc_mono [OF ev D(1)] by auto
  moreover have "okw s' None (comp s' n)" for n using comp [of n] okw_mono [OF ev D(2)] by auto
  moreover have "okw s' (Some c) (poller s' c)" for c using poller [of c] okw_mono [OF ev D(3)] by auto
  moreover have "polling s' c \<Longrightarrow> c < next_call s'" for c using polling [of c] D(4) next_ge by force
  moreover have "c < next_call s' \<Longrightarrow> okcell K s' c" for c
    using cells [of c] okcell_mono [OF ev _ D(5)] by blast
  moreover have "dres s' r = Some it \<Longrightarrow> outcome s' r = Some it" for r it
    using res [of r it] D(6) ev by (auto simp: evolves_def)
  moreover have "callMap s' n k = Some c \<Longrightarrow> c < next_call s'" for n k c
    using callMap [of n k c] D(7) next_ge by force
  moreover have "outcome s' r = Some it \<Longrightarrow> r < next_req s'" for r it
    using outcome [of r it] D(8) req by force
  ultimately show ?thesis using running unfolding item_inv_def by blast
qed

section \<open>Every step keeps it\<close>

lemma evolves_same_calls:
  "dcalls s' = dcalls s \<Longrightarrow> next_call s' = next_call s \<Longrightarrow> outcome s' = outcome s \<Longrightarrow> evolves s s'"
  by (simp add: evolves_def has_item_def)

lemma evolves_upd_call:
  assumes "dcalls s' = (dcalls s)(c := x)" "processId x = processId (dcalls s c)" "item x \<noteq> None \<or> item x = item (dcalls s c)"
    and "next_call s' = next_call s" "outcome s' = outcome s"
  shows "evolves s s'"
  using assms by (auto simp: evolves_def has_item_def)

text \<open>A step that leaves calls, results and messages alone and moves one goroutine.\<close>

lemma item_inv_move:
  assumes inv: "item_inv K s" and pc: "okpc K s p" "\<And>c k. p \<noteq> DRunning c k"
    and same: "dpcs s' = (dpcs s)(t := p)" "dcalls s' = dcalls s" "next_call s' = next_call s"
      "outcome s' = outcome s" "comp s' = comp s" "poller s' = poller s" "polling s' = polling s"
      "next_req s' = next_req s"
    and res: "\<And>r it. dres s' r = Some it \<Longrightarrow> dres s r = Some it \<or> outcome s r = Some it"
    and map: "\<And>n k c. callMap s' n k = Some c \<Longrightarrow> callMap s n k = Some c"
  shows "item_inv K s'"
proof (rule item_invI [OF inv])
  show ev: "evolves s s'" by (rule evolves_same_calls) (simp_all add: same)
  show "dpcs s' u = dpcs s u \<or> okpc K s' (dpcs s' u)" for u
    using okpc_mono [OF ev pc(1)] by (simp add: same)
  show "result_of s' c = None" if "dpcs s' u = DRunning c k" for u c k
    using that pc(2) item_invD(9) [OF inv, of u c k] by (auto simp: same result_of_def split: if_splits)
qed (use same res map in auto)

lemma item_inv_enter:
  assumes inv: "item_inv K s" and st: "do_enter K t k s = Some s'"
  shows "item_inv K s'"
proof (cases "callMap s (site K t) k")
  case (Some c)
  then have s': "s' = set_pc t (DWaiting c) s" using st by (auto simp: do_enter_def Let_def split: if_splits)
  show ?thesis
    by (rule item_inv_move [OF inv, where t = t and p = "DWaiting c"])
      (use item_invD(7) [OF inv Some] in \<open>auto simp: s' set_pc_def\<close>)
next
  case None
  let ?c = "next_call s" and ?n = "site K t"
  obtain r p where r: "dcalls s' = (dcalls s)(?c := new_call r k ?n)" "next_call s' = Suc ?c"
      "next_req s' = Suc (next_req s)" "outcome s' = outcome s" "dpcs s' = (dpcs s)(t := p)"
      "comp s' = comp s" "poller s' = poller s" "dres s' = dres s"
      "callMap s' = (callMap s)(?n := (callMap s ?n)(k \<mapsto> ?c))"
      "polling s' = polling s \<or> polling s' = (polling s)(?c := True)"
    and p: "p = DRunning ?c k \<and> r = next_req s \<or> p = DFollowing ?c k"
    using st None by (cases "dlock s k")
      (auto simp: do_enter_def set_pc_def Let_def split: if_splits)
  have ev: "evolves s s'" by (auto simp: evolves_def r has_item_def)
  show ?thesis
  proof (rule item_invI [OF inv ev])
    show "dpcs s' u = dpcs s u \<or> okpc K s' (dpcs s' u)" for u using p by (auto simp: r)
    show "c < ?c \<and> item (dcalls s' c) = item (dcalls s c) \<and> is_done (dcalls s' c) = is_done (dcalls s c)
      \<or> okcell K s' c" if "c < next_call s'" for c
      using that by (auto simp: r okcell_def new_call_def)
    show "result_of s' c = None" if "dpcs s' u = DRunning c l" for u c l
    proof (cases "u = t")
      case True
      then have "c = ?c \<and> r = next_req s" using that p by (auto simp: r)
      then show ?thesis using item_invD(8) [OF inv, of "next_req s"]
        by (cases "outcome s (next_req s)") (auto simp: result_of_def r new_call_def)
    next
      case False
      then have pc: "dpcs s u = DRunning c l" using that by (simp add: r)
      then have "c < ?c" using item_invD(1) [OF inv, of u] by simp
      then show ?thesis using item_invD(9) [OF inv pc] by (simp add: result_of_def r)
    qed
    show "polling s c \<or> c < next_call s'" if "polling s' c" for c
      using r(10)
    proof
      assume "polling s' = (polling s)(?c := True)"
      then show ?thesis using that by (auto simp: r(2) split: if_splits)
    qed (use that in simp)
    show "callMap s m l = Some c \<or> c < next_call s'" if "callMap s' m l = Some c" for m l c
      using that by (auto simp: r split: if_splits)
  qed (auto simp: r)
qed

lemma item_inv_fn_returns:
  assumes lock: "lock_inv K s" and inv: "item_inv K s" and st: "fn_returns K t v e s = Some s'"
  shows "item_inv K s'"
proof -
  obtain c k where pc: "dpcs s t = DRunning c k"
    using st by (auto simp: fn_returns_def split: if_splits dpc.splits)
  let ?it = "newCacheItem (etext K) v e" and ?r = "processId (dcalls s c)"
  have s': "s' = s\<lparr>dogs := removeAll c (dogs s), outcome := (outcome s)(?r \<mapsto> ?it),
      dcalls := (dcalls s)(c := (dcalls s c)\<lparr>item := Some ?it\<rparr>), dpcs := (dpcs s)(t := DItem c k v e)\<rparr>"
    using st pc by (auto simp: fn_returns_def set_pc_def upd_call_def Let_def split: if_splits)
  have c: "c < next_call s" using item_invD(1) [OF inv, of t] pc by simp
  have none: "outcome s ?r = None" using item_invD(9) [OF inv pc] by (simp add: result_of_def)
  have r: "?r < next_req s" using lock_invD(5) [OF lock, of t c k] pc by simp
  have ev: "evolves s s'" using none by (auto simp: evolves_def s' has_item_def)
  show ?thesis
  proof (rule item_invI [OF inv ev])
    show "dpcs s' u = dpcs s u \<or> okpc K s' (dpcs s' u)" for u
      using c by (auto simp: s' led_ok_def has_item_def result_of_def)
    show "d < next_call s \<and> item (dcalls s' d) = item (dcalls s d) \<and> is_done (dcalls s' d) = is_done (dcalls s d)
      \<or> okcell K s' d" if "d < next_call s'" for d
      using that by (auto simp: s' okcell_def has_item_def result_of_def)
    show "result_of s' d = None" if "dpcs s' u = DRunning d l" for u d l
    proof -
      have u: "u \<noteq> t" "dpcs s u = DRunning d l" using that by (auto simp: s' split: if_splits)
      have "processId (dcalls s d) \<noteq> ?r" "d \<noteq> c"
        using lock_inv_unique [OF lock, of u d l t c k] u pc by auto
      then show ?thesis using item_invD(9) [OF inv u(2)] by (simp add: s' result_of_def)
    qed
    show "outcome s q = Some it \<or> q < next_req s'" if "outcome s' q = Some it" for q it
      using that r by (auto simp: s' split: if_splits)
  qed (auto simp: s')
qed

lemma item_inv_fn_panics:
  assumes inv: "item_inv K s" and st: "fn_panics K t m s = Some s'"
  shows "item_inv K s'"
proof -
  obtain c k where pc: "dpcs s t = DRunning c k"
    using st by (auto simp: fn_panics_def split: if_splits dpc.splits)
  show ?thesis
  proof (cases "item (dcalls s c)")
    case None
    then have s': "s' = set_pc t (DPanicked c k) s"
      using st pc by (auto simp: fn_panics_def split: if_splits)
    show ?thesis
      by (rule item_inv_move [OF inv, where t = t and p = "DPanicked c k"]) (auto simp: s' set_pc_def)
  next
    case (Some it)
    let ?it = "it\<lparr>SysError := ''singleFlight panic '' @ m\<rparr>"
    have s': "s' = s\<lparr>dogs := removeAll c (dogs s), guarded := removeAll c (guarded s),
        dcalls := (dcalls s)(c := (dcalls s c)\<lparr>item := Some ?it, is_done := True\<rparr>),
        dpcs := (dpcs s)(t := DUnwound c k)\<rparr>"
      using st pc Some by (auto simp: fn_panics_def set_pc_def upd_call_def split: if_splits)
    have c: "c < next_call s" using item_invD(1) [OF inv, of t] pc by simp
    have "okitem (zero K) (result_of s c) it" using item_invD(5) [OF inv c] Some by (simp add: okcell_def)
    then have ok: "okitem (zero K) (result_of s c) ?it" by (rule okitem_SysError) simp
    have ev: "evolves s s'" by (auto simp: evolves_def s' has_item_def)
    show ?thesis
    proof (rule item_invI [OF inv ev])
      show "dpcs s' u = dpcs s u \<or> okpc K s' (dpcs s' u)" for u by (auto simp: s')
      show "d < next_call s \<and> item (dcalls s' d) = item (dcalls s d) \<and> is_done (dcalls s' d) = is_done (dcalls s d)
        \<or> okcell K s' d" if "d < next_call s'" for d
        using that ok by (auto simp: s' okcell_def has_item_def result_of_def)
      show "result_of s' d = None" if "dpcs s' u = DRunning d l" for u d l
        using that item_invD(9) [OF inv, of u d l] by (auto simp: s' result_of_def split: if_splits)
    qed (auto simp: s')
  qed
qed

text \<open>Steps that write to one call, or to nothing but the writers.\<close>

lemma item_inv_write:
  assumes inv: "item_inv K s"
    and same: "next_call s' = next_call s" "outcome s' = outcome s" "next_req s' = next_req s"
      "callMap s' = callMap s" "dres s' = dres s"
    and x: "dcalls s' = (dcalls s)(c := x)" "processId x = processId (dcalls s c)"
      "item x \<noteq> None \<or> item x = item (dcalls s c)"
    and cell: "c < next_call s \<Longrightarrow> okcell K s' c"
    and pc: "dpcs s' = (dpcs s)(t := p)" "p = dpcs s t \<or> okpc K s' p \<and> (\<forall>c k. p \<noteq> DRunning c k)"
    and comp: "\<And>n. comp s' n = comp s n \<or> okw s' None (comp s' n)"
    and poller: "\<And>d. poller s' d = poller s d \<or> okw s' (Some d) (poller s' d)"
    and polling: "\<And>d. polling s' d \<Longrightarrow> polling s d"
  shows "item_inv K s'"
proof (rule item_invI [OF inv])
  show "evolves s s'" by (rule evolves_upd_call [OF x same(1,2)])
  show "dpcs s' u = dpcs s u \<or> okpc K s' (dpcs s' u)" for u using pc by auto
  show "d < next_call s \<and> item (dcalls s' d) = item (dcalls s d) \<and> is_done (dcalls s' d) = is_done (dcalls s d)
      \<or> okcell K s' d" if "d < next_call s'" for d
    using that cell by (auto simp: x(1) same)
  show "result_of s' d = None" if "dpcs s' u = DRunning d l" for u d l
  proof -
    have "dpcs s u = DRunning d l" using that pc by (auto split: if_splits)
    then have "result_of s d = None" by (rule item_invD(9) [OF inv])
    then show ?thesis using x by (cases "d = c") (simp_all add: result_of_def same)
  qed
qed (use comp poller polling same in auto)

lemma item_inv_leave:
  assumes inv: "item_inv K s" and c: "c < next_call s" "has_item s c" and s': "s' = leave t c s"
  shows "item_inv K s'"
proof -
  obtain it where it: "item (dcalls s c) = Some it" using c(2) by (auto simp: has_item_def)
  have ok: "okitem (zero K) (result_of s c) it" using item_invD(5) [OF inv c(1)] it by (simp add: okcell_def)
  show ?thesis
    by (rule item_inv_move [OF inv, where t = t and p = "DReturned c (fst (Result it)) (snd (Result it))"])
      (use c(1) ok it in \<open>auto simp: s' leave_def set_pc_def\<close>)
qed

lemma has_item_done: "item_inv K s \<Longrightarrow> c < next_call s \<Longrightarrow> is_done (dcalls s c) \<Longrightarrow> has_item s c"
  using item_invD(5) [of K s c] by (simp add: okcell_def)

lemma item_inv_advance:
  assumes inv: "item_inv K s" and st: "advance K t ok s = Some s'"
  shows "item_inv K s'"
proof -
  note pc_ok = item_invD(1) [OF inv, of t]
  show ?thesis
  proof (cases "dpcs s t")
    case (DWaiting c)
    then have "is_done (dcalls s c)" "s' = leave t c s" using st by (auto simp: advance_def Let_def split: if_splits)
    then show ?thesis using pc_ok DWaiting has_item_done [OF inv, of c] item_inv_leave [OF inv, of c s' t] by simp
  next
    case (DFollowed c)
    then have "s' = leave t c s" using st by (auto simp: advance_def Let_def split: if_splits)
    then show ?thesis using pc_ok DFollowed item_inv_leave [OF inv, of c s' t] by simp
  next
    case (DFollowing c k)
    then have "is_done (dcalls s c)" and s': "s' = set_pc t (DFollowed c)
        (s\<lparr>callMap := (callMap s)(site K t := (callMap s (site K t))(k := None))\<rparr>)"
      using st by (auto simp: advance_def Let_def split: if_splits)
    then have "okpc K s (DFollowed c)" using pc_ok DFollowing has_item_done [OF inv, of c] by simp
    then show ?thesis
      by (rule item_inv_move [OF inv, where t = t]) (auto simp: s' set_pc_def split: if_splits)
  next
    case (DItem c k v e)
    then have s': "s' = set_pc t (DDone c k v e) (upd_call c (\<lambda>x. x\<lparr>is_done := True\<rparr>) s)"
      using st by (auto simp: advance_def Let_def split: if_splits)
    have c: "c < next_call s" "has_item s c" using pc_ok DItem by (auto simp: led_ok_def)
    show ?thesis
      by (rule item_inv_write [OF inv, where c = c and t = t and p = "DDone c k v e"
            and x = "(dcalls s c)\<lparr>is_done := True\<rparr>"])
        (use item_invD(5) [OF inv c(1)] pc_ok DItem in
          \<open>auto simp: s' set_pc_def upd_call_def okcell_def has_item_def led_ok_def result_of_def\<close>)
  next
    case (DDone c k v e)
    then have led: "led_ok K s c v e" using pc_ok by simp
    show ?thesis
      by (rule item_inv_move [OF inv, where t = t and p = "DSaved c k v e"])
        (use st DDone led in \<open>auto simp: advance_def set_pc_def Let_def split: if_splits\<close>)
  next
    case (DSaved c k v e)
    then have led: "led_ok K s c v e" using pc_ok by simp
    show ?thesis
      by (rule item_inv_move [OF inv, where t = t and p = "DUnlocked c k v e"])
        (use st DSaved led in \<open>auto simp: advance_def set_pc_def Let_def split: if_splits\<close>)
  next
    case (DUnlocked c k v e)
    then have led: "led_ok K s c v e" using pc_ok by simp
    show ?thesis
      by (rule item_inv_move [OF inv, where t = t and p = "DDeleted c k v e"])
        (use st DUnlocked led in \<open>auto simp: advance_def set_pc_def Let_def split: if_splits\<close>)
  next
    case (DDeleted c k v e)
    then have led: "led_ok K s c v e" using pc_ok by simp
    show ?thesis
      by (rule item_inv_move [OF inv, where t = t and p = "DLed c v e"])
        (use st DDeleted led in \<open>auto simp: advance_def set_pc_def Let_def split: if_splits\<close>)
  qed (use st in \<open>auto simp: advance_def Let_def split: if_splits\<close>)
qed

lemma okgot_get_result:
  assumes "item_inv K s" "\<And>it. wire K it = (it, None)"
  shows "okgot (result_of s c) (get_result K c fail s)"
  using item_invD(6) [OF assms(1)] assms(2)
  by (auto simp: get_result_def result_of_def split: option.splits)

lemma item_inv_comp_step:
  assumes inv: "item_inv K s" and wire: "\<And>it. wire K it = (it, None)"
    and st: "comp_step K n fail s = Some s'"
  shows "item_inv K s'"
proof -
  note w = item_invD(2) [OF inv, of n]
  have up: "\<not> down s n" using st by (auto simp: comp_step_def split: if_splits)
  show ?thesis
  proof (cases "comp s n")
    case WIdle
    then show ?thesis using st up by (simp add: comp_step_def)
  next
    case (WFound c)
    then have s': "s' = s\<lparr>comp := (comp s)(n := WGot c (get_result K c fail s))\<rparr>"
      using st up by (simp add: comp_step_def)
    show ?thesis
      by (rule item_inv_write [OF inv, where c = c and x = "dcalls s c" and t = 0 and p = "dpcs s 0"])
        (use w WFound okgot_get_result [OF inv wire] item_invD(5) [OF inv] in
          \<open>auto simp: s' okcell_def has_item_def result_of_def\<close>)
  next
    case (WGot c g)
    then have s': "s' = upd_call c (\<lambda>x. x\<lparr>item := Some (empty_item (zero K))\<rparr>)
          (s\<lparr>comp := (comp s)(n := WEmptied c g)\<rparr>)"
      using st up by (simp add: comp_step_def)
    show ?thesis
      by (rule item_inv_write [OF inv, where c = c and t = 0 and p = "dpcs s 0"
            and x = "(dcalls s c)\<lparr>item := Some (empty_item (zero K))\<rparr>"])
        (use w WGot in \<open>auto simp: s' upd_call_def okcell_def has_item_def result_of_def\<close>)
  next
    case (WEmptied c g)
    then have s': "s' = upd_call c (\<lambda>x. x\<lparr>item := Some (complete_item (zero K) g)\<rparr>)
          (s\<lparr>comp := (comp s)(n := WFilled c)\<rparr>)"
      using st up by (simp add: comp_step_def)
    show ?thesis
      by (rule item_inv_write [OF inv, where c = c and t = 0 and p = "dpcs s 0"
            and x = "(dcalls s c)\<lparr>item := Some (complete_item (zero K) g)\<rparr>"])
        (use w WEmptied okitem_complete in \<open>auto simp: s' upd_call_def okcell_def has_item_def result_of_def\<close>)
  next
    case (WFilled c)
    then have s': "s' = upd_call c (\<lambda>x. x\<lparr>is_done := True\<rparr>) (s\<lparr>comp := (comp s)(n := WIdle)\<rparr>)"
      using st up by (simp add: comp_step_def)
    show ?thesis
      by (rule item_inv_write [OF inv, where c = c and t = 0 and p = "dpcs s 0"
            and x = "(dcalls s c)\<lparr>is_done := True\<rparr>"])
        (use w WFilled item_invD(5) [OF inv, of c] in
          \<open>auto simp: s' upd_call_def okcell_def has_item_def result_of_def\<close>)
  qed
qed

lemma item_inv_poll_step:
  assumes inv: "item_inv K s" and wire: "\<And>it. wire K it = (it, None)"
    and st: "poll_step K c fail s = Some s'"
  shows "item_inv K s'"
proof -
  note w = item_invD(3) [OF inv, of c]
  have up: "\<not> down s (cnode (dcalls s c))" "polling s c" "fail \<noteq> Some ''''"
    using st by (auto simp: poll_step_def split: if_splits)
  have c: "c < next_call s" by (rule item_invD(4) [OF inv up(2)])
  note cell = item_invD(5) [OF inv c]
  show ?thesis
  proof (cases "poller s c")
    case WIdle
    then have s': "s' = s\<lparr>poller := (poller s)(c := WFound c)\<rparr>" using st up by (simp add: poll_step_def)
    show ?thesis
      by (rule item_inv_write [OF inv, where c = c and x = "dcalls s c" and t = 0 and p = "dpcs s 0"])
        (use c cell in \<open>auto simp: s' okcell_def has_item_def result_of_def\<close>)
  next
    case (WFound d)
    show ?thesis
    proof (cases "get_result K c fail s")
      case GotNil
      then have s': "s' = s\<lparr>poller := (poller s)(c := WIdle)\<rparr>"
        using st up WFound by (simp add: poll_step_def)
      show ?thesis
        by (rule item_inv_write [OF inv, where c = c and x = "dcalls s c" and t = 0 and p = "dpcs s 0"])
          (use c cell in \<open>auto simp: s' okcell_def has_item_def result_of_def\<close>)
    next
      case (GotErr m)
      then have m: "m \<noteq> ''''" using up(3) by (auto simp: get_result_def split: option.splits)
      show ?thesis
      proof (cases "item (dcalls s c)")
        case None
        then have s': "s' = s\<lparr>down := (down s)(cnode (dcalls s c) := True)\<rparr>"
          using st up WFound GotErr by (simp add: poll_step_def)
        show ?thesis
          by (rule item_inv_write [OF inv, where c = c and x = "dcalls s c" and t = 0 and p = "dpcs s 0"])
            (use c cell in \<open>auto simp: s' okcell_def has_item_def result_of_def\<close>)
      next
        case (Some it)
        then have s': "s' = upd_call c (\<lambda>x. x\<lparr>item := Some (it\<lparr>SysError := m\<rparr>)\<rparr>)
            (s\<lparr>poller := (poller s)(c := WFilled c)\<rparr>)"
          using st up WFound GotErr by (simp add: poll_step_def)
        have "okitem (zero K) (result_of s c) (it\<lparr>SysError := m\<rparr>)"
          using cell Some m by (auto simp: okcell_def intro: okitem_SysError)
        then show ?thesis
          by (intro item_inv_write [OF inv, where c = c and t = 0 and p = "dpcs s 0"
                and x = "(dcalls s c)\<lparr>item := Some (it\<lparr>SysError := m\<rparr>)\<rparr>"])
            (use c in \<open>auto simp: s' upd_call_def okcell_def has_item_def result_of_def\<close>)
      qed
    next
      case (Got it x)
      then have s': "s' = s\<lparr>poller := (poller s)(c := WGot c (Got it x))\<rparr>"
        using st up WFound by (simp add: poll_step_def)
      have "okgot (result_of s c) (Got it x)" using okgot_get_result [OF inv wire, of c fail] Got by simp
      then show ?thesis
        by (intro item_inv_write [OF inv, where c = c and x = "dcalls s c" and t = 0 and p = "dpcs s 0"])
          (use c cell in \<open>auto simp: s' okcell_def has_item_def result_of_def\<close>)
    qed
  next
    case (WGot d g)
    then have s': "s' = upd_call c (\<lambda>x. x\<lparr>item := Some (empty_item (zero K))\<rparr>)
          (s\<lparr>poller := (poller s)(c := WEmptied c g)\<rparr>)"
      using st up by (simp add: poll_step_def)
    show ?thesis
      by (rule item_inv_write [OF inv, where c = c and t = 0 and p = "dpcs s 0"
            and x = "(dcalls s c)\<lparr>item := Some (empty_item (zero K))\<rparr>"])
        (use w WGot c in \<open>auto simp: s' upd_call_def okcell_def has_item_def result_of_def\<close>)
  next
    case (WEmptied d g)
    then have s': "s' = upd_call c (\<lambda>x. x\<lparr>item := Some (poll_item g (empty_item (zero K)))\<rparr>)
          (s\<lparr>poller := (poller s)(c := WFilled c)\<rparr>)"
      using st up by (simp add: poll_step_def)
    show ?thesis
      by (rule item_inv_write [OF inv, where c = c and t = 0 and p = "dpcs s 0"
            and x = "(dcalls s c)\<lparr>item := Some (poll_item g (empty_item (zero K)))\<rparr>"])
        (use w WEmptied c okitem_poll in \<open>auto simp: s' upd_call_def okcell_def has_item_def result_of_def\<close>)
  next
    case (WFilled d)
    then have s': "s' = upd_call c (\<lambda>x. x\<lparr>is_done := True\<rparr>) (s\<lparr>polling := (polling s)(c := False)\<rparr>)"
      using st up by (simp add: poll_step_def)
    show ?thesis
      by (rule item_inv_write [OF inv, where c = c and t = 0 and p = "dpcs s 0"
            and x = "(dcalls s c)\<lparr>is_done := True\<rparr>"])
        (use w WFilled cell in \<open>auto simp: s' upd_call_def okcell_def has_item_def result_of_def split: if_splits\<close>)
  qed
qed

lemma item_inv_deliver:
  assumes inv: "item_inv K s" and st: "deliver K n s = Some s'"
  shows "item_inv K s'"
proof -
  have same: "dcalls s' = dcalls s" "dpcs s' = dpcs s" "next_call s' = next_call s" "next_req s' = next_req s"
    "callMap s' = callMap s" "dres s' = dres s" "outcome s' = outcome s" "poller s' = poller s" "polling s' = polling s"
    using st by (auto simp: deliver_def split: if_splits list.splits option.splits)
  have comp: "comp s' m = comp s m \<or> okw s' None (comp s' m)" for m
    using st item_invD(7) [OF inv] by (auto simp: deliver_def split: if_splits list.splits option.splits)
  show ?thesis
    by (rule item_inv_write [OF inv same(3,7,4,5,6), where c = 0 and x = "dcalls s 0" and t = 0 and p = "dpcs s 0"])
      (use comp item_invD(5) [OF inv] in \<open>auto simp: same okcell_def has_item_def result_of_def\<close>)
qed

text \<open>What else happens concerns the locks, the messages and the nodes, or lets results vanish.\<close>

lemma item_inv_quiet:
  assumes inv: "item_inv K s"
    and same: "dcalls s' = dcalls s" "dpcs s' = dpcs s \<or> (\<exists>t. dpcs s' = (dpcs s)(t := DFailed))"
      "next_call s' = next_call s" "next_req s' = next_req s"
      "callMap s' = callMap s" "outcome s' = outcome s" "poller s' = poller s" "comp s' = comp s"
    and polling: "\<And>c. polling s' c \<Longrightarrow> polling s c"
    and res: "\<And>r it. dres s' r = Some it \<Longrightarrow> dres s r = Some it"
  shows "item_inv K s'"
proof (rule item_invI [OF inv])
  show "evolves s s'" by (rule evolves_same_calls) (simp_all add: same)
  show "dpcs s' u = dpcs s u \<or> okpc K s' (dpcs s' u)" for u using same(2) by auto
  show "result_of s' d = None" if "dpcs s' u = DRunning d l" for u d l
    using that same(2) item_invD(9) [OF inv, of u d l]
    by (auto simp: result_of_def same(1,6) split: if_splits)
qed (use same polling res in auto)

lemma item_inv_step:
  assumes wire: "\<And>it. wire K it = (it, None)" and lock: "lock_inv K s" and inv: "item_inv K s"
    and st: "dist_step K s s'"
  shows "item_inv K s'"
proof -
  obtain ev where ev: "dstep K ev s = Some s'" using st by (auto simp: dist_step_def)
  show ?thesis
  proof (cases ev)
    case (Enter t k) then show ?thesis using ev item_inv_enter [OF inv] by simp
  next
    case (FnReturns t v e) then show ?thesis using ev item_inv_fn_returns [OF lock inv] by simp
  next
    case (FnPanics t m) then show ?thesis using ev item_inv_fn_panics [OF inv] by simp
  next
    case (Advance t ok) then show ?thesis using ev item_inv_advance [OF inv] by simp
  next
    case (Deliver n) then show ?thesis using ev item_inv_deliver [OF inv] by simp
  next
    case (Comp n fail) then show ?thesis using ev item_inv_comp_step [OF inv wire] by simp
  next
    case (Poll c fail) then show ?thesis using ev item_inv_poll_step [OF inv wire] by simp
  qed (use ev in \<open>auto intro!: item_inv_quiet [OF inv] simp: do_enter_fails_def poll_exit_def renew_def
      dog_stops_def key_expires_def set_pc_def Let_def split: if_splits\<close>)
qed

lemma item_inv_init: "dist_init s \<Longrightarrow> item_inv K s"
  by (simp add: item_inv_def dist_init_def)

definition lossless_wire :: "('v, 'e) surroundings \<Rightarrow> bool" where
  "lossless_wire K \<longleftrightarrow> (\<forall>it. wire K it = (it, None))"

interpretation dist_items: transition_invariant dist_init "dist_step K"
    "\<lambda>s. lossless_wire K \<longrightarrow> lock_inv K s \<and> item_inv K s"
  by unfold_locales
    (auto simp: lossless_wire_def intro: lock_inv_init item_inv_init lock_inv_step item_inv_step)

section \<open>What callers are given\<close>

lemma Result_okitem:
  assumes "okitem z out it" "(v, e) = Result it"
  shows "(v, e) = (z, None) \<or> (\<exists>b. out = Some b \<and> (v, e) = Result b) \<or> (\<exists>m. e = Some (ErrText m))"
proof -
  from assms(1) consider "it = empty_item z" | "out = Some it"
    | b m where "b = empty_item z \<or> out = Some b" "m \<noteq> ''''" "it = b\<lparr>SysError := m\<rparr>"
    unfolding okitem_def by blast
  then show ?thesis
  proof cases
    case 1
    then show ?thesis using assms(2) by (simp add: Result_def empty_item_def)
  next
    case 2
    then show ?thesis using assms(2) by blast
  next
    case 3
    show ?thesis
    proof (cases "BuError b")
      case None
      then show ?thesis using 3 assms(2) by (simp add: Result_def)
    next
      case (Some x)
      then have "out = Some b" using 3(1) by (auto simp: empty_item_def)
      moreover have "Result it = Result b" using Some 3(3) by (simp add: Result_def)
      ultimately show ?thesis using assms(2) by simp
    qed
  qed
qed


definition demo_follow :: "(nat, string) event list" where
  "demo_follow = [Enter 0 ''k'', Enter 10 ''k'', FnReturns 0 5 None, Advance 0 True, Advance 0 True,
     Advance 0 True, Advance 0 True, Advance 0 True, Deliver 1, Comp 1 None, Comp 1 None, Comp 1 None,
     Comp 1 None, Advance 10 True, Advance 10 True]"


definition demo_stale :: "(nat, string) event list" where
  "demo_stale = [Enter 0 ''k'', FnReturns 0 5 None, Advance 0 True, Advance 0 True,
     Advance 0 True, Advance 0 True, Advance 0 True, Enter 1 ''k'', Enter 2 ''k'',
     Deliver 0, Comp 0 None, Comp 0 None, Comp 0 None, Comp 0 None, Advance 2 True]"

definition demo_torn :: "(nat, string) event list" where
  "demo_torn = [Enter 0 ''k'', Enter 10 ''k'', FnReturns 0 5 None, Advance 0 True, Advance 0 True,
     Advance 0 True, Advance 0 True, Advance 0 True, Deliver 1, Comp 1 None,
     Poll 1 None, Poll 1 None, Poll 1 None, Poll 1 None, Poll 1 None, Advance 10 True,
     Comp 1 None, Advance 10 True]"

text \<open>
  Two ways in which callers are misled although nothing fails. A notification carries the key
  only: the one of an execution that is over reaches the next execution for the key on its node, finds no
  result, and hands a redis error to everybody who joined that execution, which is still running. And
  the polling goroutine and \<open>complete\<close> write the same item: a caller released by one may read the item while
  the other has just emptied it, and returns the zero value with a nil error instead of the result 5.
\<close>

theorem joined_callers_misled:
  "(\<exists>s. run_events (demo_nodes True) demo_stale demo_start = Some s \<and>
      dpcs s 1 = DRunning 1 ''k'' \<and> processId (dcalls s 1) = 1 \<and>
      dpcs s 2 = DReturned 1 0 (Some (ErrText ''singleFlight get res by redis get error redis: nil''))) \<and>
   (\<exists>s. run_events (demo_nodes True) demo_torn demo_start = Some s \<and>
      dpcs s 0 = DLed 0 5 None \<and> dpcs s 10 = DReturned 1 0 None)"
  by (simp add: demo_stale_def demo_torn_def demo_run_simps)

definition demo_cancel :: "(nat, string) event list" where
  "demo_cancel = [Enter 0 ''k'', Renew 0, DogStops 0, KeyExpires ''k'', Enter 10 ''k'']"

text \<open>
  Without the proviso \<open>timely\<close> exclusion is lost: when the context of the caller is cancelled the
  watchdog stops, the lock expires, and another node runs the function beside the first.
\<close>

lemma cancelled_context_runs_twice:
  "\<exists>s. run_events (demo_nodes False) demo_cancel demo_start = Some s \<and>
      dpcs s 0 = DRunning 0 ''k'' \<and> dpcs s 10 = DRunning 1 ''k'' \<and>
      \<not> down s 0 \<and> \<not> down s 1"
  by (simp add: demo_cancel_def demo_run_simps)

text \<open>A business error returned by value reaches those who joined as a plain error without its code.\<close>

lemma business_error_is_flattened:
  "Result (newCacheItem tx v (Some (ErrPtr e))) = (v, Some (ErrVal e)) \<and>
   (tx e \<noteq> '''' \<longrightarrow> Result (newCacheItem tx v (Some (ErrVal e))) = (v, Some (ErrText (tx e))))"
  by (simp add: newCacheItem_def Result_def)

end
