(* ===== verification/Dist_Start.thy ===== *)
theory Dist_Start
  imports Dist_Flight
begin

text \<open>
  The set-up of \<open>redisx/singleFlight.go\<close> in one process: \<open>NewSingleFlight\<close> enters a flight into
  \<open>flightMap\<close>, \<open>InitSingleFlight\<close> subscribes and starts the goroutine that hands each message to the
  flight of its channel. Flights are numbered; a flight publishes on the channel that is its name.
  \<open>Dist_Flight\<close> is about one flight after that: a node is \<open>registered\<close> there if its map has the channel.
\<close>

section \<open>Operations\<close>

record flights =
  isInit :: bool
  flightMap :: "string \<rightharpoonup> nat"
  flight_names :: "string list"

definition no_flights :: flights where
  "no_flights = \<lparr>isInit = False, flightMap = Map.empty, flight_names = []\<rparr>"

definition flight_channel :: "string \<Rightarrow> string" where
  "flight_channel name = ''singleFlight:'' @ name"

definition NewSingleFlight :: "string \<Rightarrow> flights \<Rightarrow> (nat \<times> flights) outcome" where
  "NewSingleFlight name F =
     (if isInit F then Panic ''singleFlight is init''
      else
        (let name' = flight_channel name in
         case flightMap F name' of
           Some f \<Rightarrow> Panic (''flight '' @ name' @ '' already exists'')
         | None \<Rightarrow>
             (let res = length (flight_names F)
              in Return (res, F\<lparr>flight_names := flight_names F @ [name'],
                                flightMap := (flightMap F)(name' \<mapsto> res)\<rparr>))))"

definition InitSingleFlight :: "string option \<Rightarrow> flights \<Rightarrow> flights outcome" where
  "InitSingleFlight receive_err F =
     (if isInit F then Panic ''singleFlight is init''
      else case receive_err of
        Some e \<Rightarrow> Panic (''redis subscribe failed: '' @ e)
      | None \<Rightarrow> Return (F\<lparr>isInit := True\<rparr>))"

text \<open>
  One message of the subscription: a channel and a key. The pattern lets through every channel that
  starts with \<open>singleFlight:\<close>; for one without a flight the map gives a nil interface.
\<close>

definition dispatch :: "flights \<Rightarrow> string \<times> string \<Rightarrow> (nat \<times> string) outcome" where
  "dispatch F msg =
     (case flightMap F (fst msg) of
        None \<Rightarrow> Panic ''nil pointer dereference''
      | Some f \<Rightarrow> Return (f, snd msg))"

text \<open>The goroutine: the calls of \<open>complete\<close> it makes, up to the message that takes the process down.\<close>

fun dispatch_loop :: "flights \<Rightarrow> (string \<times> string) list \<Rightarrow> (nat \<times> string) list \<times> string option" where
  "dispatch_loop F [] = ([], None)"
| "dispatch_loop F (msg # msgs) =
     (case dispatch F msg of
        Panic m \<Rightarrow> ([], Some m)
      | Return call \<Rightarrow> map_prod ((#) call) id (dispatch_loop F msgs))"

section \<open>A process that is set up\<close>

fun create_all :: "string list \<Rightarrow> flights \<Rightarrow> flights outcome" where
  "create_all [] F = Return F"
| "create_all (n # ns) F = bind_outcome (NewSingleFlight n F) (\<lambda>(f, F'). create_all ns F')"

definition channels :: "string list \<Rightarrow> string list" where
  "channels ns = map flight_channel ns"

definition indexed :: "flights \<Rightarrow> bool" where
  "indexed F \<longleftrightarrow> distinct (flight_names F) \<and>
     (\<forall>c i. flightMap F c = Some i \<longleftrightarrow> i < length (flight_names F) \<and> flight_names F ! i = c)"

lemma indexed_none: "indexed F \<Longrightarrow> flightMap F c = None \<longleftrightarrow> c \<notin> set (flight_names F)"
  unfolding indexed_def in_set_conv_nth by (metis not_None_eq)

lemma NewSingleFlight_indexed:
  assumes "indexed F" "\<not> isInit F"
  shows "if flight_channel n \<in> set (flight_names F) then \<exists>m. NewSingleFlight n F = Panic m
    else \<exists>F'. NewSingleFlight n F = Return (length (flight_names F), F') \<and> indexed F' \<and> \<not> isInit F' \<and>
      flight_names F' = flight_names F @ [flight_channel n]"
proof (cases "flightMap F (flight_channel n)")
  case None
  let ?F = "F\<lparr>flight_names := flight_names F @ [flight_channel n],
    flightMap := (flightMap F)(flight_channel n \<mapsto> length (flight_names F))\<rparr>"
  from None indexed_none [OF assms(1)] have new: "flight_channel n \<notin> set (flight_names F)" by blast
  then have "indexed ?F" using assms(1) by (auto simp: indexed_def nth_append less_Suc_eq in_set_conv_nth)
  with None new assms(2) show ?thesis by (simp add: NewSingleFlight_def Let_def)
next
  case (Some f)
  with indexed_none [OF assms(1), of "flight_channel n"] assms(2) show ?thesis
    by (simp add: NewSingleFlight_def)
qed

lemma create_all_indexed:
  assumes "indexed F" "\<not> isInit F"
  shows "if distinct (flight_names F @ channels ns)
    then \<exists>F'. create_all ns F = Return F' \<and> indexed F' \<and> \<not> isInit F' \<and> flight_names F' = flight_names F @ channels ns
    else \<exists>m. create_all ns F = Panic m"
  using assms
proof (induction ns arbitrary: F)
  case (Cons n ns)
  note new = NewSingleFlight_indexed [OF Cons.prems, of n]
  show ?case
  proof (cases "flight_channel n \<in> set (flight_names F)")
    case True
    with new obtain m where "NewSingleFlight n F = Panic m" by auto
    with True show ?thesis by (auto simp: channels_def)
  next
    case False
    with new obtain F' where F': "NewSingleFlight n F = Return (length (flight_names F), F')" "indexed F'"
      "\<not> isInit F'" "flight_names F' = flight_names F @ [flight_channel n]" by auto
    then have same: "flight_names F' @ channels ns = flight_names F @ channels (n # ns)" by (simp add: channels_def)
    from Cons.IH [OF F'(2,3)] F'(1) show ?thesis unfolding same by simp
  qed
qed (simp add: channels_def indexed_def)

lemma dispatch_loop_calls:
  "dispatch_loop F msgs =
     (map (\<lambda>m. (the (flightMap F (fst m)), snd m)) (takeWhile (\<lambda>m. flightMap F (fst m) \<noteq> None) msgs),
      if list_all (\<lambda>m. flightMap F (fst m) \<noteq> None) msgs then None else Some ''nil pointer dereference'')"
  by (induction msgs) (auto simp: dispatch_def split: option.splits)

text \<open>
  The set-up of a process: creating flights succeeds exactly if their names differ; after the
  subscription every message on the channel of a flight is handed to that flight, a message on any
  other channel takes the process down, and no further flight can be created.
\<close>

theorem flights_are_told_apart:
  "(if distinct ns
    then \<exists>F. bind_outcome (create_all ns no_flights) (InitSingleFlight None) = Return F \<and>
      (\<forall>i < length ns. \<forall>k. dispatch F (flight_channel (ns ! i), k) = Return (i, k)) \<and>
      (\<forall>c k. c \<notin> set (channels ns) \<longrightarrow> (\<exists>m. dispatch F (c, k) = Panic m)) \<and>
      (\<forall>n. \<exists>m. NewSingleFlight n F = Panic m)
    else \<exists>m. bind_outcome (create_all ns no_flights) (InitSingleFlight None) = Panic m)"
proof -
  have "inj flight_channel" by (simp add: inj_def flight_channel_def)
  then have dist: "distinct (channels ns) \<longleftrightarrow> distinct ns"
    using inj_on_subset [of flight_channel UNIV "set ns"] by (simp add: channels_def distinct_map)
  have start: "indexed no_flights" "\<not> isInit no_flights" "flight_names no_flights = []"
    by (simp_all add: no_flights_def indexed_def)
  note all = create_all_indexed [OF start(1,2), of ns, unfolded start(3) append_Nil dist]
  show ?thesis
  proof (cases "distinct ns")
    case True
    with all obtain F where F: "create_all ns no_flights = Return F" "indexed F" "\<not> isInit F"
      "flight_names F = channels ns" by auto
    let ?F = "F\<lparr>isInit := True\<rparr>"
    have "dispatch ?F (flight_channel (ns ! i), k) = Return (i, k)" if "i < length ns" for i k
    proof -
      have "flightMap F (flight_channel (ns ! i)) = Some i"
        using F(2,4) that by (simp add: indexed_def channels_def)
      then show ?thesis by (simp add: dispatch_def)
    qed
    moreover have "\<exists>m. dispatch ?F (c, k) = Panic m" if "c \<notin> set (channels ns)" for c k
      using indexed_none [OF F(2), of c] F(4) that by (simp add: dispatch_def)
    moreover have "\<exists>m. NewSingleFlight n ?F = Panic m" for n by (simp add: NewSingleFlight_def)
    ultimately show ?thesis using True F(1,3)
      by (simp add: InitSingleFlight_def)
  next
    case False
    with all obtain m where "create_all ns no_flights = Panic m" by auto
    with False show ?thesis by simp
  qed
qed

end
