(* ===== verification/Log_Buffer.thy ===== *)
theory Log_Buffer
  imports Go_Prelude "HOL-Library.Multiset"
begin

text \<open>
  The log handler of \<open>logx\<close>: attributes carried by a context (\<open>ctx.go\<close>) and the handler that collects
  records and sends them to OpenObserve in batches (\<open>openObserver.go\<close>), with the goroutines that
  do so: the loop of \<open>flushLoop\<close>, one goroutine per tick, and \<open>Close\<close>. A step takes the buffer under
  its lock, or ends an HTTP request.

  Parameters: which levels the wrapped handler enables, \<open>json.Marshal\<close> of a batch, and how each request
  ends. Times are in seconds. Ghosts: \<open>taken\<close>, \<open>accepted\<close> and \<open>last_seen\<close> are the batches in the order they were
  taken, every entry ever buffered, and how many there were when the loop took its last batch; \<open>delivered\<close>,
  \<open>blank\<close> and \<open>lost\<close> are the batches whose request has ended. The wrapped handler gets the record, too,
  which is left out.
\<close>

section \<open>Entries\<close>

datatype lval = LStr string | LErr string | LSource string string int | LAny string

type_synonym entry = "string \<rightharpoonup> lval"
type_synonym log_ctx = "entry option"

definition AddAttrs :: "log_ctx \<Rightarrow> string \<Rightarrow> lval \<Rightarrow> log_ctx" where
  "AddAttrs ctx key v =
     (let attrs = (case ctx of None \<Rightarrow> Map.empty | Some existing \<Rightarrow> existing)
      in Some (attrs(key \<mapsto> v)))"

record log_record =
  rec_level :: int
  rec_message :: string
  rec_frame :: "(string \<times> string \<times> int) option"
  rec_attrs :: "(string \<times> lval) list"

text \<open>\<open>RequestAddAttrs\<close>: the context of the request is replaced by the one with the attribute.\<close>

definition RequestAddAttrs :: "('r \<Rightarrow> log_ctx) \<Rightarrow> (log_ctx \<Rightarrow> 'r \<Rightarrow> 'r) \<Rightarrow> string \<Rightarrow> lval \<Rightarrow> 'r \<Rightarrow> 'r" where
  "RequestAddAttrs Context WithContext key v r = WithContext (AddAttrs (Context r) key v) r"

text \<open>\<open>order\<close> is the order in which Go walks the map of the context.\<close>

definition recordAddAttrs :: "(string \<times> lval) list \<Rightarrow> log_record \<Rightarrow> log_record" where
  "recordAddAttrs order r = r\<lparr>rec_attrs := rec_attrs r @ order\<rparr>"

definition signed :: "int \<Rightarrow> string" where
  "signed n = (if n < 0 then CHR ''-'' # dec (nat (- n)) else CHR ''+'' # dec (nat n))"

definition level_string :: "int \<Rightarrow> string" where
  "level_string l =
     (let name = (\<lambda>base off. if off = 0 then base else base @ signed off) in
      if l < 0 then name ''DEBUG'' (l + 4)
      else if l < 4 then name ''INFO'' l
      else if l < 8 then name ''WARN'' (l - 4)
      else name ''ERROR'' (l - 8))"

definition make_entry :: "int \<Rightarrow> (string \<times> lval) list \<Rightarrow> log_record \<Rightarrow> entry" where
  "make_entry addSourceLevel order r =
     (let e0 = [''level'' \<mapsto> LStr (level_string (rec_level r)), ''message'' \<mapsto> LStr (rec_message r)];
          e1 = (if rec_level r \<ge> addSourceLevel then
                  case rec_frame r of
                    None \<Rightarrow> e0
                  | Some (f, file, line) \<Rightarrow> e0(''source'' \<mapsto> LSource f file line)
                else e0)
      in fold (\<lambda>(k, v) e. e(k \<mapsto> v)) (rec_attrs (recordAddAttrs order r)) e1)"

section \<open>The handler\<close>

record log_opts =
  Endpoint :: string
  Organization :: string
  Stream :: string
  Username :: string
  Password :: string
  Timeout :: int
  FlushInterval :: int
  has_handler :: bool

datatype loop_pc = Looping | LastSend "entry list" | Exited

record log_handler =
  opts :: log_opts
  addSourceLevel :: int
  buffer :: "entry list"
  pending :: nat
  in_flight :: "entry list list"
  delivered :: "entry list list"
  blank :: "entry list list"          \<comment> \<open>sent as an empty body\<close>
  lost :: "entry list list"
  cancelled :: bool
  loop :: loop_pc
  closed :: bool
  taken :: "entry list list"
  accepted :: "entry list"
  last_seen :: nat

definition NewOpenObserveHandler :: "log_opts \<Rightarrow> int \<Rightarrow> log_handler outcome" where
  "NewOpenObserveHandler o1 lvl =
     (if Endpoint o1 = '''' then Panic ''OpenObserveOptions.Endpoint is required''
      else if Organization o1 = '''' then Panic ''OpenObserveOptions.Organization is required''
      else if Stream o1 = '''' then Panic ''OpenObserveOptions.Stream is required''
      else if Username o1 = '''' then Panic ''OpenObserveOptions.Username is required''
      else if Password o1 = '''' then Panic ''OpenObserveOptions.Password is required''
      else if \<not> has_handler o1 then Panic ''OpenObserveOptions.Handler is required''
      else if FlushInterval o1 < 0 then Panic ''non-positive interval for NewTicker''
      else Return \<lparr>
        opts = o1\<lparr>Timeout := (if Timeout o1 = 0 then 5 else Timeout o1),
                  FlushInterval := (if FlushInterval o1 = 0 then 2 else FlushInterval o1)\<rparr>,
        addSourceLevel = lvl, buffer = [], pending = 0, in_flight = [], delivered = [], blank = [], lost = [],
        cancelled = False, loop = Looping, closed = False, taken = [], accepted = [], last_seen = 0\<rparr>)"

text \<open>\<open>Enabled\<close> asks the wrapped handler; attributes and groups for a logger are not implemented.\<close>

definition log_Enabled :: "(int \<Rightarrow> bool) \<Rightarrow> int \<Rightarrow> bool" where
  "log_Enabled enabled level = enabled level"

definition WithAttrs :: "(string \<times> lval) list \<Rightarrow> log_handler \<Rightarrow> log_handler outcome" where
  "WithAttrs attrs h = Panic ''not implemented''"

definition WithGroup :: "string \<Rightarrow> log_handler \<Rightarrow> log_handler outcome" where
  "WithGroup name h = Panic ''not implemented''"

definition Handle :: "(int \<Rightarrow> bool) \<Rightarrow> (string \<times> lval) list \<Rightarrow> log_record \<Rightarrow> log_handler \<Rightarrow> log_handler" where
  "Handle enabled order r h =
     (if \<not> log_Enabled enabled (rec_level r) then h
      else (let logEntry = make_entry (addSourceLevel h) order r
            in h\<lparr>buffer := buffer h @ [logEntry], accepted := accepted h @ [logEntry]\<rparr>))"

text \<open>The critical section of \<open>Flush\<close>: nothing, or the whole buffer.\<close>

definition take_buffer :: "log_handler \<Rightarrow> (entry list \<times> log_handler) option" where
  "take_buffer h =
     (if length (buffer h) = 0 then None
      else Some (buffer h, h\<lparr>buffer := [], taken := taken h @ [buffer h]\<rparr>))"

datatype http = ReqError | DoError | Status nat

definition normalize :: "entry \<Rightarrow> entry" where
  "normalize e = (\<lambda>k. case e k of Some (LErr m) \<Rightarrow> Some (LStr m) | v \<Rightarrow> v)"

text \<open>
  \<open>sendBatch\<close>: what it posts, and whether it reports success. The error of \<open>json.Marshal\<close> is dropped, and
  nothing is posted as the body then.
\<close>

definition sendBatch :: "(entry list \<Rightarrow> string option) \<Rightarrow> http \<Rightarrow> entry list \<Rightarrow> string option \<times> bool" where
  "sendBatch marshal answer logEntries =
     (if length logEntries = 0 then (None, True)
      else (let body = (case marshal (List.map normalize logEntries) of None \<Rightarrow> '''' | Some m \<Rightarrow> m) in
            case answer of
              ReqError \<Rightarrow> (None, False)
            | DoError \<Rightarrow> (Some body, False)
            | Status n \<Rightarrow> (Some body, n < 400)))"

text \<open>The end of a request of \<open>Flush\<close>: a failed batch is reported on standard output and dropped.\<close>

definition finish_batch ::
  "(entry list \<Rightarrow> string option) \<Rightarrow> http \<Rightarrow> entry list \<Rightarrow> log_handler \<Rightarrow> log_handler" where
  "finish_batch marshal answer logs h =
     (if \<not> snd (sendBatch marshal answer logs) then h\<lparr>lost := lost h @ [logs]\<rparr>
      else case marshal (List.map normalize logs) of
        None \<Rightarrow> h\<lparr>blank := blank h @ [logs]\<rparr>
      | Some m \<Rightarrow> h\<lparr>delivered := delivered h @ [logs]\<rparr>)"

section \<open>Steps\<close>

inductive log_step :: "(int \<Rightarrow> bool) \<Rightarrow> (entry list \<Rightarrow> string option) \<Rightarrow> log_handler \<Rightarrow> log_handler \<Rightarrow> bool"
  for enabled :: "int \<Rightarrow> bool" and marshal :: "entry list \<Rightarrow> string option" where
  log_handle: "log_step enabled marshal h (Handle enabled order r h)"
| log_tick: "loop h = Looping \<Longrightarrow> log_step enabled marshal h (h\<lparr>pending := Suc (pending h)\<rparr>)"
| log_flush: "pending h = Suc n \<Longrightarrow> take_buffer h = Some (logs, h') \<Longrightarrow>
    log_step enabled marshal h (h'\<lparr>pending := n, in_flight := logs # in_flight h\<rparr>)"
| log_flush_nothing: "pending h = Suc n \<Longrightarrow> take_buffer h = None \<Longrightarrow>
    log_step enabled marshal h (h\<lparr>pending := n\<rparr>)"
| log_sent: "logs \<in> set (in_flight h) \<Longrightarrow>
    log_step enabled marshal h (finish_batch marshal answer logs (h\<lparr>in_flight := remove1 logs (in_flight h)\<rparr>))"
| log_cancel: "log_step enabled marshal h (h\<lparr>cancelled := True\<rparr>)"
| log_last: "loop h = Looping \<Longrightarrow> cancelled h \<Longrightarrow> take_buffer h = Some (logs, h') \<Longrightarrow>
    log_step enabled marshal h (h'\<lparr>loop := LastSend logs, last_seen := length (accepted h)\<rparr>)"
| log_last_nothing: "loop h = Looping \<Longrightarrow> cancelled h \<Longrightarrow> take_buffer h = None \<Longrightarrow>
    log_step enabled marshal h (h\<lparr>loop := Exited, last_seen := length (accepted h)\<rparr>)"
| log_last_sent: "loop h = LastSend logs \<Longrightarrow>
    log_step enabled marshal h (finish_batch marshal answer logs (h\<lparr>loop := Exited\<rparr>))"
| log_closed: "cancelled h \<Longrightarrow> loop h = Exited \<Longrightarrow> log_step enabled marshal h (h\<lparr>closed := True\<rparr>)"

definition log_init :: "log_handler \<Rightarrow> bool" where
  "log_init h \<longleftrightarrow> (\<exists>o1 lvl. NewOpenObserveHandler o1 lvl = Return h)"

section \<open>Where the entries are\<close>

fun last_batch :: "loop_pc \<Rightarrow> entry list multiset" where
  "last_batch (LastSend logs) = {#logs#}"
| "last_batch _ = {#}"

definition log_inv :: "(entry list \<Rightarrow> string option) \<Rightarrow> log_handler \<Rightarrow> bool" where
  "log_inv marshal h \<longleftrightarrow>
     concat (taken h) @ buffer h = accepted h \<and>
     mset (taken h) = mset (in_flight h) + mset (delivered h) + mset (blank h) + mset (lost h) + last_batch (loop h) \<and>
     (\<forall>logs \<in> set (delivered h). marshal (List.map normalize logs) \<noteq> None) \<and>
     (\<forall>logs \<in> set (blank h). marshal (List.map normalize logs) = None) \<and>
     [] \<notin> set (taken h) \<and>
     (loop h \<noteq> Looping \<longrightarrow> cancelled h \<and> last_seen h \<le> length (concat (taken h))) \<and>
     (closed h \<longrightarrow> loop h = Exited)"

lemma log_inv_init: "log_init h \<Longrightarrow> log_inv marshal h"
  by (auto simp: log_init_def log_inv_def NewOpenObserveHandler_def split: if_splits)

lemma take_bufferD:
  "take_buffer h = Some (logs, h') \<Longrightarrow>
    logs = buffer h \<and> logs \<noteq> [] \<and> h' = h\<lparr>buffer := [], taken := taken h @ [logs]\<rparr>"
  by (auto simp: take_buffer_def split: if_splits)

lemma finish_batch_cases:
  "finish_batch marshal answer logs h = h\<lparr>delivered := delivered h @ [logs]\<rparr> \<and> marshal (List.map normalize logs) \<noteq> None \<or>
   finish_batch marshal answer logs h = h\<lparr>blank := blank h @ [logs]\<rparr> \<and> marshal (List.map normalize logs) = None \<or>
   finish_batch marshal answer logs h = h\<lparr>lost := lost h @ [logs]\<rparr>"
  by (auto simp: finish_batch_def split: option.split)

lemma log_inv_length: "log_inv marshal h \<Longrightarrow> length (concat (taken h)) + length (buffer h) = length (accepted h)"
  unfolding log_inv_def by (metis length_append)

lemma log_inv_step:
  assumes "log_inv marshal h" "log_step enabled marshal h h'"
  shows "log_inv marshal h'"
  using assms(2)
proof cases
  case (log_handle order r)
  then show ?thesis using assms(1)
    by (auto simp: log_inv_def Handle_def Let_def simp flip: append_assoc)
next
  case (log_flush n logs h1)
  then show ?thesis using assms(1) take_bufferD [OF log_flush(3)] log_inv_length [OF assms(1)]
    by (auto simp: log_inv_def)
next
  case (log_sent logs answer)
  have "mset (in_flight h) = add_mset logs (mset (remove1 logs (in_flight h)))" using log_sent(2) by simp
  then show ?thesis
    using assms(1) finish_batch_cases [of marshal answer logs "h\<lparr>in_flight := remove1 logs (in_flight h)\<rparr>"] log_sent(1)
    by (auto simp: log_inv_def simp del: mset_remove1)
next
  case (log_last logs h1)
  then show ?thesis using assms(1) take_bufferD [OF log_last(4)] log_inv_length [OF assms(1)]
    by (auto simp: log_inv_def)
next
  case log_last_nothing
  then show ?thesis using assms(1)
    by (auto simp: log_inv_def take_buffer_def split: if_splits)
next
  case (log_last_sent logs answer)
  then show ?thesis
    using assms(1) finish_batch_cases [of marshal answer logs "h\<lparr>loop := Exited\<rparr>"]
    by (auto simp: log_inv_def)
qed (use assms(1) in \<open>auto simp: log_inv_def\<close>)

interpretation logs: transition_invariant log_init "log_step enabled marshal" "log_inv marshal"
  by unfold_locales (auto intro: log_inv_init log_inv_step)

text \<open>
  C20: No log entry is lost or sent twice on its way through the handler. In every interleaving of
  logging, ticks, flushes, requests and \<open>Close\<close>, the batches taken so far followed by the buffer
  are exactly the entries that were logged, in order and each once; and every batch taken is, once,
  with a goroutine that sends it, delivered as JSON, dropped after its request failed, or, exactly if
  JSON cannot write it and the server did not mind, posted as nothing. When \<open>Close\<close> has returned,
  everything logged up to the loop's last look at the buffer has been taken.
\<close>

theorem logs_conserved:
  assumes "reach log_init (log_step enabled marshal) h"
  shows "concat (taken h) @ buffer h = accepted h \<and>
    mset (taken h) = mset (in_flight h) + mset (delivered h) + mset (blank h) + mset (lost h) + last_batch (loop h) \<and>
    (\<forall>logs \<in> set (delivered h). marshal (List.map normalize logs) \<noteq> None) \<and>
    (\<forall>logs \<in> set (blank h). marshal (List.map normalize logs) = None) \<and>
    (closed h \<longrightarrow> loop h = Exited \<and>
      List.take (last_seen h) (accepted h) = List.take (last_seen h) (concat (taken h)))"
proof -
  have inv: "log_inv marshal h" by (rule logs.inv_reach [OF assms])
  then have "closed h \<Longrightarrow> last_seen h \<le> length (concat (taken h))" by (auto simp: log_inv_def)
  moreover have "accepted h = concat (taken h) @ buffer h" using inv by (simp add: log_inv_def)
  ultimately show ?thesis using inv by (auto simp: log_inv_def)
qed

text \<open>
  One attribute that JSON cannot write, such as a channel, takes its whole batch with it: nothing is
  posted, and the call reports success.
\<close>

lemma unwritable_batch_is_reported_sent:
  "logs \<noteq> [] \<Longrightarrow> marshal (List.map normalize logs) = None \<Longrightarrow> n < 400 \<Longrightarrow>
    sendBatch marshal (Status n) logs = (Some '''', True)"
  by (simp add: sendBatch_def)

definition demo_opts :: log_opts where
  "demo_opts = \<lparr>Endpoint = ''http://o'', Organization = ''org'', Stream = ''s'', Username = ''u'',
     Password = ''p'', Timeout = 0, FlushInterval = 0, has_handler = True\<rparr>"

definition demo_record :: log_record where
  "demo_record = \<lparr>rec_level = 0, rec_message = ''hi'', rec_frame = None, rec_attrs = []\<rparr>"

text \<open>One entry is logged, a tick's goroutine takes it, and \<open>Close\<close> runs before its request has ended.\<close>

lemma demo_closed:
  "\<exists>h. reach log_init (log_step (\<lambda>_. True) (\<lambda>_. Some ''json'')) h \<and> closed h \<and> delivered h = [] \<and> blank h = [] \<and> lost h = [] \<and>
     in_flight h = [[make_entry 4 [] demo_record]] \<and> accepted h = [make_entry 4 [] demo_record]"
proof -
  obtain h0 where h0: "NewOpenObserveHandler demo_opts 4 = Return h0"
    by (simp add: NewOpenObserveHandler_def demo_opts_def)
  let ?e = "make_entry 4 [] demo_record"
  let ?h1 = "h0\<lparr>buffer := [?e], accepted := [?e]\<rparr>"
  let ?h3 = "?h1\<lparr>buffer := [], taken := [[?e]], pending := 0, in_flight := [[?e]]\<rparr>"
  have f: "buffer h0 = []" "pending h0 = 0" "in_flight h0 = []" "delivered h0 = []" "blank h0 = []" "lost h0 = []"
    "loop h0 = Looping" "taken h0 = []" "accepted h0 = []" "addSourceLevel h0 = 4" "closed h0 = False"
    using h0 by (auto simp: NewOpenObserveHandler_def demo_opts_def)
  let ?S = "log_step (\<lambda>_. True) (\<lambda>_. Some ''json'')"
  have "reach log_init ?S h0" using h0 by (intro reach_init) (auto simp: log_init_def)
  moreover have "?S h0 ?h1"
    using log_handle [of "\<lambda>_. True" "\<lambda>_. Some ''json''" h0 "[]" demo_record] f by (simp add: Handle_def log_Enabled_def Let_def)
  moreover have "?S ?h1 (?h1\<lparr>pending := Suc 0\<rparr>)" using log_tick [of ?h1] f by simp
  moreover have "?S (?h1\<lparr>pending := Suc 0\<rparr>) ?h3"
    using log_flush [of "?h1\<lparr>pending := Suc 0\<rparr>" 0] f by (simp add: take_buffer_def)
  moreover have "?S ?h3 (?h3\<lparr>cancelled := True\<rparr>)" by (rule log_cancel)
  moreover have "?S (?h3\<lparr>cancelled := True\<rparr>) (?h3\<lparr>cancelled := True, loop := Exited, last_seen := 1\<rparr>)"
    using log_last_nothing [of "?h3\<lparr>cancelled := True\<rparr>"] f by (simp add: take_buffer_def)
  moreover have "?S (?h3\<lparr>cancelled := True, loop := Exited, last_seen := 1\<rparr>)
      (?h3\<lparr>cancelled := True, loop := Exited, last_seen := 1, closed := True\<rparr>)"
    using log_closed [of "?h3\<lparr>cancelled := True, loop := Exited, last_seen := 1\<rparr>"] by simp
  ultimately have "reach log_init ?S (?h3\<lparr>cancelled := True, loop := Exited, last_seen := 1, closed := True\<rparr>)"
    by (meson reach_step)
  then show ?thesis
    by (rule_tac x = "?h3\<lparr>cancelled := True, loop := Exited, last_seen := 1, closed := True\<rparr>" in exI)
      (simp add: f)
qed

text \<open>
  So \<open>Close\<close> does not wait for the goroutines of the ticks: it returns while a batch is still on its
  way, and a process that exits then loses it.
\<close>

theorem logs_conserved_witness:
  "\<exists>h :: log_handler. closed h \<and> concat (taken h) @ buffer h = [make_entry 4 [] demo_record] \<and>
     mset (taken h) = {#[make_entry 4 [] demo_record]#}"
proof -
  obtain h where h: "reach log_init (log_step (\<lambda>_. True) (\<lambda>_. Some ''json'')) h" "closed h" "delivered h = []" "blank h = []" "lost h = []"
      "in_flight h = [[make_entry 4 [] demo_record]]" "accepted h = [make_entry 4 [] demo_record]"
    using demo_closed by blast
  then have "closed h \<and> concat (taken h) @ buffer h = [make_entry 4 [] demo_record] \<and>
     mset (taken h) = {#[make_entry 4 [] demo_record]#}"
    using logs_conserved [OF h(1)] by simp
  then show ?thesis by blast
qed

end
