(* ===== verification/App_Start.thy ===== *)
theory App_Start
  imports Log_Buffer
begin

text \<open>
  Start-up: the configuration files (\<open>config/decode.go\<close>) and the order in which \<open>app.Run\<close> brings the parts
  up (\<open>app/run.go\<close>, \<open>app/log.go\<close>, \<open>app/rpc.go\<close>, \<open>app/gin.go\<close>). The value of \<open>Run\<close> is the list of what it
  starts, up to a panic; it then waits for the servers, which is left out. Parameters: \<open>files\<close> is the file
  system, \<open>dir\<close> is \<open>filepath.Dir\<close>, \<open>unmarshal\<close> is \<open>yaml.Unmarshal\<close> into a structure that already has
  values, \<open>app_of\<close> reads the structure \<open>Config\<close>.
\<close>

section \<open>Configuration files\<close>

definition config_file :: "string \<Rightarrow> string" where
  "config_file env = (if env \<noteq> '''' then ''config-'' @ env @ ''.yml'' else ''config.yml'')"

fun unmarshal_all :: "(string \<Rightarrow> 'c \<Rightarrow> 'c option) \<Rightarrow> string \<Rightarrow> 'c list \<Rightarrow> 'c list outcome" where
  "unmarshal_all unmarshal data [] = Return []"
| "unmarshal_all unmarshal data (item # conf) =
     (case unmarshal data item of
        None \<Rightarrow> Panic ''yaml''
      | Some item' \<Rightarrow> bind_outcome (unmarshal_all unmarshal data conf) (\<lambda>conf'. Return (item' # conf')))"

definition read_into ::
  "(string \<rightharpoonup> string) \<Rightarrow> (string \<Rightarrow> 'c \<Rightarrow> 'c option) \<Rightarrow> string \<Rightarrow> 'c list \<Rightarrow> 'c list outcome" where
  "read_into files unmarshal path conf =
     (case files path of None \<Rightarrow> Panic ''no such file'' | Some data \<Rightarrow> unmarshal_all unmarshal data conf)"

definition InitByDir ::
  "(string \<rightharpoonup> string) \<Rightarrow> (string \<Rightarrow> string) \<Rightarrow> (string \<Rightarrow> 'c \<Rightarrow> 'c option) \<Rightarrow> string \<Rightarrow> 'c list \<Rightarrow> string
     \<Rightarrow> 'c list outcome" where
  "InitByDir files dir unmarshal env conf workDir =
     bind_outcome (read_into files unmarshal (dir workDir @ ''/'' @ config_file env) conf)
       (read_into files unmarshal (workDir @ ''/'' @ config_file env))"

text \<open>\<open>Init\<close>: without a working directory the process exits.\<close>

definition config_Init ::
  "(string \<rightharpoonup> string) \<Rightarrow> (string \<Rightarrow> string) \<Rightarrow> (string \<Rightarrow> 'c \<Rightarrow> 'c option) \<Rightarrow> string \<Rightarrow> string option \<Rightarrow> 'c list
     \<Rightarrow> 'c list outcome" where
  "config_Init files dir unmarshal env getwd conf =
     (case getwd of
        None \<Rightarrow> Panic ''exit 1''
      | Some workDir \<Rightarrow> InitByDir files dir unmarshal env conf workDir)"

section \<open>Modules\<close>

text \<open>What \<open>Config\<close> of a module returns: nil, a pointer, a nil pointer, or something else.\<close>

datatype 'c config_item = No_Config | Config_Ptr 'c | Config_Nil_Ptr | Config_Value

fun collect_conf :: "'c config_item list \<Rightarrow> 'c list \<Rightarrow> 'c list outcome" where
  "collect_conf [] conf = Return conf"
| "collect_conf (No_Config # items) conf = collect_conf items conf"
| "collect_conf (Config_Ptr c # items) conf = collect_conf items (conf @ [c])"
| "collect_conf (_ # items) conf = Panic ''config item must be a pointer''"

definition InitConf ::
  "(string \<rightharpoonup> string) \<Rightarrow> (string \<Rightarrow> string) \<Rightarrow> (string \<Rightarrow> 'c \<Rightarrow> 'c option) \<Rightarrow> string \<Rightarrow> string option \<Rightarrow> 'c
     \<Rightarrow> 'c config_item list \<Rightarrow> 'c list outcome" where
  "InitConf files dir unmarshal env getwd empty_conf items =
     bind_outcome (collect_conf items [empty_conf]) (config_Init files dir unmarshal env getwd)"

text \<open>The fields of \<open>Config\<close> that decide what is started.\<close>

record app_config =
  Name :: string
  Port :: nat
  RpcPort :: nat
  CenterAddr :: string
  Mongo_Uri :: string
  Mongo_Database :: string
  PGSQL_Uri :: string
  Redis_Addr :: string
  Redis_Password :: string
  Redis_Db :: int
  Observe_Endpoint :: string
  Observe_Organization :: string
  Observe_Stream :: string
  Observe_Username :: string
  Observe_Password :: string

record 'c module =
  Config_Item :: "'c config_item"
  Init_Name :: string       \<comment> \<open>what \<open>Init\<close> returns: the name of the service, or nothing\<close>
  Router_Path :: string

datatype start_effect =
    Init_Log log_handler
  | Init_Mongo string string
  | Init_PG string
  | Init_Redis string string string int   \<comment> \<open>consumer name, address, password, database\<close>
  | Serve_Web string "string list"
  | Serve_Rpc string
  | Register_Center string string "string list"

text \<open>The names of the modules that offer a service.\<close>

fun service_list :: "'c module list \<Rightarrow> string list \<Rightarrow> string list" where
  "service_list [] ss = ss"
| "service_list (m # ms) ss =
     (if Init_Name m = '''' then service_list ms ss else service_list ms (ss @ [Init_Name m]))"

definition rpcStart :: "app_config \<Rightarrow> 'c module list \<Rightarrow> start_effect list" where
  "rpcStart conf ms =
     (let addr = '':'' @ dec (RpcPort conf)
      in [Serve_Rpc addr, Register_Center (CenterAddr conf) addr (service_list ms [])])"

definition webStart :: "app_config \<Rightarrow> 'c module list \<Rightarrow> start_effect list" where
  "webStart conf ms = [Serve_Web ('':'' @ dec (Port conf)) (List.map Router_Path ms)]"

text \<open>\<open>ok\<close> says which initialisation succeeds; one that fails is the panic of \<open>Run\<close>.\<close>

definition init_if :: "(start_effect \<Rightarrow> bool) \<Rightarrow> bool \<Rightarrow> start_effect \<Rightarrow> start_effect list outcome \<Rightarrow> start_effect list outcome" where
  "init_if ok wanted e rest =
     (if \<not> wanted then rest
      else if \<not> ok e then Panic ''init''
      else bind_outcome rest (\<lambda>es. Return (e # es)))"

text \<open>\<open>initLog\<close>: the handler is made from the configuration, whose empty fields are its panics; 4 is \<open>LevelWarn\<close>.\<close>

definition initLog :: "app_config \<Rightarrow> log_handler outcome" where
  "initLog conf =
     NewOpenObserveHandler
       \<lparr>Endpoint = Observe_Endpoint conf, Organization = Observe_Organization conf,
        Stream = Observe_Stream conf, Username = Observe_Username conf,
        Password = Observe_Password conf, Timeout = 5, FlushInterval = 2, has_handler = True\<rparr> 4"

definition Run ::
  "(string \<rightharpoonup> string) \<Rightarrow> (string \<Rightarrow> string) \<Rightarrow> (string \<Rightarrow> 'c \<Rightarrow> 'c option) \<Rightarrow> string \<Rightarrow> string option \<Rightarrow> 'c
     \<Rightarrow> ('c \<Rightarrow> app_config) \<Rightarrow> (start_effect \<Rightarrow> bool) \<Rightarrow> string \<Rightarrow> 'c module list \<Rightarrow> start_effect list outcome" where
  "Run files dir unmarshal env getwd empty_conf app_of ok hostname ms =
     bind_outcome (InitConf files dir unmarshal env getwd empty_conf (List.map Config_Item ms)) (\<lambda>confs.
       (let conf = app_of (hd confs);
            hostname' = Name conf @ '':'' @ hostname
        in bind_outcome (initLog conf) (\<lambda>h. init_if (\<lambda>_. True) True (Init_Log h)
          (init_if ok (Mongo_Uri conf \<noteq> '''') (Init_Mongo (Mongo_Uri conf) (Mongo_Database conf))
          (init_if ok (PGSQL_Uri conf \<noteq> '''') (Init_PG (PGSQL_Uri conf))
          (init_if ok True (Init_Redis hostname' (Redis_Addr conf) (Redis_Password conf) (Redis_Db conf))
          (Return (webStart conf ms @ rpcStart conf ms))))))))"

section \<open>Properties\<close>

lemma unmarshal_all_Return:
  "unmarshal_all unmarshal data conf = Return conf' \<longleftrightarrow>
     list_all2 (\<lambda>c c'. unmarshal data c = Some c') conf conf'"
  by (induction conf arbitrary: conf')
    (auto simp: list_all2_Cons1 bind_outcome_Return_iff split: option.splits)

lemma read_into_Return:
  "read_into files unmarshal path conf = Return conf' \<longleftrightarrow>
     (\<exists>data. files path = Some data \<and> list_all2 (\<lambda>c c'. unmarshal data c = Some c') conf conf')"
  by (auto simp: read_into_def unmarshal_all_Return split: option.splits)

text \<open>
  Configuration. \<open>InitByDir\<close> returns exactly if both files can be read and every structure takes both;
  each structure is then filled from the file of the parent directory first and from the project's file
  afterwards, so what the project says wins.
\<close>

theorem project_config_wins:
  "InitByDir files dir unmarshal env conf workDir = Return conf' \<longleftrightarrow>
     (\<exists>glob app. files (dir workDir @ ''/'' @ config_file env) = Some glob \<and>
        files (workDir @ ''/'' @ config_file env) = Some app \<and>
        list_all2 (\<lambda>c c'. Option.bind (unmarshal glob c) (unmarshal app) = Some c') conf conf')"
proof -
  have compose: "(\<exists>mid. list_all2 (\<lambda>c m. unmarshal glob c = Some m) conf mid \<and>
        list_all2 (\<lambda>m c'. unmarshal app m = Some c') mid conf') \<longleftrightarrow>
      list_all2 (\<lambda>c c'. Option.bind (unmarshal glob c) (unmarshal app) = Some c') conf conf'" for glob app
  proof -
    have "(\<lambda>c c'. Option.bind (unmarshal glob c) (unmarshal app) = Some c') =
        (\<lambda>c m. unmarshal glob c = Some m) OO (\<lambda>m c'. unmarshal app m = Some c')"
      by (auto simp: fun_eq_iff relcompp_apply bind_eq_Some_conv)
    then show ?thesis by (simp add: list.rel_compp relcompp_apply)
  qed
  show ?thesis
    by (simp add: InitByDir_def bind_outcome_Return_iff read_into_Return compose [symmetric]) blast
qed

text \<open>Every service a module offers is registered, and the web server is up before that.\<close>

lemma service_list_eq: "service_list ms ss = ss @ filter (\<lambda>s. s \<noteq> '''') (List.map Init_Name ms)"
  by (induction ms arbitrary: ss) auto

lemma Run_registers:
  "Run files dir unmarshal env getwd c0 app_of ok hostname ms = Return es \<Longrightarrow>
    \<exists>confs conf before. InitConf files dir unmarshal env getwd c0 (List.map Config_Item ms) = Return confs \<and>
      conf = app_of (hd confs) \<and>
      es = before @ webStart conf ms @
        [Serve_Rpc ('':'' @ dec (RpcPort conf)),
         Register_Center (CenterAddr conf) ('':'' @ dec (RpcPort conf)) (filter (\<lambda>s. s \<noteq> '''') (List.map Init_Name ms))]"
  by (auto simp: Run_def init_if_def rpcStart_def service_list_eq Let_def bind_outcome_Return_iff split: if_splits)

text \<open>\<open>collect_conf\<close>: every module's configuration is nil or a pointer, and the pointers follow the given ones.\<close>

fun config_ptr :: "'c config_item \<Rightarrow> 'c list" where
  "config_ptr (Config_Ptr c) = [c]"
| "config_ptr _ = []"

lemma collect_conf_Return:
  "collect_conf items conf = Return conf' \<longleftrightarrow>
     (\<forall>i \<in> set items. i = No_Config \<or> (\<exists>c. i = Config_Ptr c)) \<and> conf' = conf @ concat (List.map config_ptr items)"
  by (induction items conf rule: collect_conf.induct) auto

text \<open>
  Start-up. \<open>Run\<close> gets through exactly if the configuration can be loaded, names everything the log
  handler needs, and the parts that are configured can be brought up; Redis is always one of them. They
  are brought up in a fixed order: the log, MongoDB, PostgreSQL, Redis, the web server, the RPC server,
  and the registration at the center comes last.
\<close>

theorem run_order:
  "Run files dir unmarshal env getwd c0 app_of ok hostname ms = Return es \<longleftrightarrow>
    (\<exists>confs conf h init. InitConf files dir unmarshal env getwd c0 (List.map Config_Item ms) = Return confs \<and>
      conf = app_of (hd confs) \<and> initLog conf = Return h \<and>
      '''' \<notin> {Observe_Endpoint conf, Observe_Organization conf, Observe_Stream conf, Observe_Username conf,
        Observe_Password conf} \<and>
      init = (if Mongo_Uri conf = '''' then [] else [Init_Mongo (Mongo_Uri conf) (Mongo_Database conf)]) @
        (if PGSQL_Uri conf = '''' then [] else [Init_PG (PGSQL_Uri conf)]) @
        [Init_Redis (Name conf @ '':'' @ hostname) (Redis_Addr conf) (Redis_Password conf) (Redis_Db conf)] \<and>
      list_all ok init \<and>
      es = Init_Log h # init @ [Serve_Web ('':'' @ dec (Port conf)) (List.map Router_Path ms),
        Serve_Rpc ('':'' @ dec (RpcPort conf)),
        Register_Center (CenterAddr conf) ('':'' @ dec (RpcPort conf)) (filter (\<lambda>s. s \<noteq> '''') (List.map Init_Name ms))])"
proof -
  have log: "\<exists>h. initLog conf = Return h \<Longrightarrow> '''' \<notin> {Observe_Endpoint conf, Observe_Organization conf,
      Observe_Stream conf, Observe_Username conf, Observe_Password conf}" for conf
    by (auto simp: initLog_def NewOpenObserveHandler_def split: if_splits)
  have parts: "init_if ok (u \<noteq> '''') a (init_if ok (v \<noteq> '''') b (init_if ok True c (Return rest))) = Return x \<longleftrightarrow>
      (\<exists>init. init = (if u = '''' then [] else [a]) @ (if v = '''' then [] else [b]) @ [c] \<and> list_all ok init \<and> x = init @ rest)"
    for u v :: string and a b c rest x
    by (auto simp: init_if_def)
  have first: "init_if (\<lambda>_. True) True a rest = Return x \<longleftrightarrow> (\<exists>y. rest = Return y \<and> x = a # y)" for a rest x
    by (auto simp: init_if_def bind_outcome_Return_iff)
  show ?thesis (is "_ \<longleftrightarrow> ?R")
  proof
    assume "Run files dir unmarshal env getwd c0 app_of ok hostname ms = Return es"
    then show ?R
      unfolding Run_def Let_def bind_outcome_Return_iff first parts rpcStart_def webStart_def service_list_eq
      by (elim exE conjE) (use log in \<open>simp add: exI\<close>)
  next
    assume ?R
    then show "Run files dir unmarshal env getwd c0 app_of ok hostname ms = Return es"
      unfolding Run_def Let_def bind_outcome_Return_iff first parts rpcStart_def webStart_def service_list_eq
      by (elim exE conjE, hypsubst) (simp split: if_splits)
  qed
qed

end
