(* ===== verification/Discover_Client.thy ===== *)
theory Discover_Client
  imports Registry_Props
begin

text \<open>
  The client side of service discovery, \<open>discover/clientV2.go\<close>, together with the center it talks
  to. A process keeps one \<open>resolve\<close> object per connection it built (\<open>resolves\<close>, by number), the last
  one of each endpoint in \<open>resolverMap\<close>, and the port it registered with. \<open>addresses\<close> is what the
  resolver last handed to gRPC with \<open>UpdateState\<close>, \<open>centerClient\<close> says whether the process has a client
  of the center yet; asking without one dereferences nil. The state of the center is the record \<open>service\<close> of
  \<open>Registry\<close>, and \<open>Discover\<close> and \<open>Register\<close> are its handlers; \<open>p\<close> is how the center sees the caller.
\<close>

section \<open>Operations\<close>

record resolve =
  endpoint :: string
  addresses :: "string list option"

record discover_client =
  resolverMap :: "string \<rightharpoonup> nat"
  resolves :: "nat \<Rightarrow> resolve"
  next_resolve :: nat
  localPort :: string
  centerClient :: bool

definition updateStates ::
  "(nat \<Rightarrow> nat) \<Rightarrow> peer \<Rightarrow> nat \<Rightarrow> discover_client \<times> service \<Rightarrow> (discover_client \<times> service) outcome" where
  "updateStates spare p i w =
     (case w of (c, s) \<Rightarrow>
        if \<not> centerClient c then Panic ''nil pointer dereference''
        else
          (case discover spare p (localPort c) (endpoint (resolves c i)) s of
             (s', DiscOk server addr) \<Rightarrow>
               Return (c\<lparr>resolves := (resolves c)(i := (resolves c i)\<lparr>addresses := Some addr\<rparr>)\<rparr>, s')
           | (s', _) \<Rightarrow> Return (c, s')))"

definition ResolveNow ::
  "(nat \<Rightarrow> nat) \<Rightarrow> peer \<Rightarrow> nat \<Rightarrow> discover_client \<times> service \<Rightarrow> (discover_client \<times> service) outcome" where
  "ResolveNow spare p i w = updateStates spare p i w"

definition Build ::
  "(nat \<Rightarrow> nat) \<Rightarrow> peer \<Rightarrow> string \<Rightarrow> discover_client \<times> service \<Rightarrow> (nat \<times> discover_client \<times> service) outcome" where
  "Build spare p target w =
     (case w of (c, s) \<Rightarrow>
        (let r2 = next_resolve c;
             c1 = c\<lparr>resolves := (resolves c)(r2 := \<lparr>endpoint = target, addresses = None\<rparr>),
                    next_resolve := Suc r2, resolverMap := (resolverMap c)(target \<mapsto> r2)\<rparr>
         in bind_outcome (updateStates spare p r2 (c1, s)) (\<lambda>w'. Return (r2, w'))))"

definition SubscribeServerRegister ::
  "(nat \<Rightarrow> nat) \<Rightarrow> peer \<Rightarrow> notify_req \<Rightarrow> discover_client \<times> service \<Rightarrow> (discover_client \<times> service) outcome" where
  "SubscribeServerRegister spare p req w =
     (case resolverMap (fst w) (nr_server req) of
        None \<Rightarrow> Return w
      | Some r \<Rightarrow> updateStates spare p r w)"

text \<open>
  \<open>conn_ok\<close> says whether the client of the center can be made, \<open>dial_ok\<close> whether the center can make
  one of the caller.
\<close>

definition RegisterCenter ::
  "(nat \<Rightarrow> nat) \<Rightarrow> peer \<Rightarrow> bool \<Rightarrow> bool \<Rightarrow> string \<Rightarrow> string list \<Rightarrow> discover_client \<times> service
     \<Rightarrow> (discover_client \<times> service \<times> call list) outcome" where
  "RegisterCenter spare p conn_ok dial_ok port servers w =
     (case w of (c, s) \<Rightarrow>
        if \<not> conn_ok then Panic ''failed to create grpc client''
        else
          (case register spare p dial_ok port servers s of
             (s', RegOk, calls) \<Rightarrow> Return (c\<lparr>centerClient := True, localPort := port\<rparr>, s', calls)
           | (s', _, _) \<Rightarrow> Panic ''register error''))"

text \<open>
  \<open>Grpc\<close>: the target names the scheme of this resolver and the service; \<open>new_client\<close> is
  \<open>grpc.NewClient\<close>, whose error ends the process.
\<close>

definition Scheme :: string where
  "Scheme = ''g-micor''"

definition Grpc :: "(string \<Rightarrow> string \<Rightarrow> string + 'conn) \<Rightarrow> string \<Rightarrow> 'conn outcome" where
  "Grpc new_client server =
     (case new_client (Scheme @ '':///'' @ server)
             (''{\"loadBalancingConfig\": [{\"round_robin\":{}}]}'') of
        Inl e \<Rightarrow> Panic e
      | Inr conn \<Rightarrow> Return conn)"

section \<open>What an update does\<close>

lemma updateStates_effect:
  assumes inv: "svc_inv s" and a: "caller_addr (localPort c) p = Some a" and con: "centerClient c"
    and n: "endpoint (resolves c i) = n"
  obtains c' s' where "updateStates spare p i (c, s) = Return (c', s')" "svc_inv s'"
    "providers (abs_svc s') = providers (abs_svc s)"
    "addresses (resolves c' i) = (if providers (abs_svc s) n = [] then addresses (resolves c i)
      else Some (providers (abs_svc s) n))"
    "endpoint (resolves c' i) = n" "resolverMap c' = resolverMap c"
    "providers (abs_svc s) n \<noteq> [] \<Longrightarrow> a \<in> set (watchers (abs_svc s') n)"
proof -
  obtain t r where d: "discover spare p (localPort c) n s = (t, r)" by force
  from discover_run [OF inv a, where spare = spare and n = n] have t: "svc_inv t"
    and r: "r = (if providers (abs_svc s) n = [] then ErrServerNotFind else DiscOk n (providers (abs_svc s) n))"
    and abs: "abs_svc t = (if providers (abs_svc s) n = [] \<or> a \<in> set (watchers (abs_svc s) n) then abs_svc s
      else abs_svc s\<lparr>watchers := (watchers (abs_svc s))(n := watchers (abs_svc s) n @ [a])\<rparr>)"
    by (simp_all add: d)
  show thesis
  proof (cases "providers (abs_svc s) n = []")
    case True
    with con d r have "updateStates spare p i (c, s) = Return (c, t)" by (simp add: updateStates_def n)
    with True t abs n show ?thesis by (intro that [of c t]) simp_all
  next
    case False
    let ?c = "c\<lparr>resolves := (resolves c)(i := (resolves c i)\<lparr>addresses := Some (providers (abs_svc s) n)\<rparr>)\<rparr>"
    from False con d r have "updateStates spare p i (c, s) = Return (?c, t)" by (simp add: updateStates_def n)
    with False t abs n show ?thesis by (intro that [of ?c t]) simp_all
  qed
qed

lemma notified_update:
  assumes "svc_inv t" "caller_addr (localPort c) p = Some a" "centerClient c"
    "resolverMap c (nr_server req) = Some i" "endpoint (resolves c i) = nr_server req"
  shows "\<exists>c' t'. SubscribeServerRegister spare p req (c, t) = Return (c', t') \<and>
    addresses (resolves c' i) = (if providers (abs_svc t) (nr_server req) = [] then addresses (resolves c i)
      else Some (providers (abs_svc t) (nr_server req)))"
  by (rule updateStates_effect [OF assms(1-3,5), of spare]) (simp add: SubscribeServerRegister_def assms(4))

section \<open>Clients follow the center\<close>

lemma svc_steps_inv: "svc_inv s \<Longrightarrow> svc_step\<^sup>*\<^sup>* s t \<Longrightarrow> svc_inv t"
  by (rule reg.inv_steps)

text \<open>
  C14: A client that has resolved a service learns of every new address of it. When a process
  registers the service at the center, all subscribers being connected, the handler sends the client
  a notification that names the service; and whenever the client processes that notification, however
  many registrations, subscriptions and evictions the center has served in between, its resolver
  hands gRPC exactly the center's list at that moment (if that is not empty), in registration
  order. If nothing happened in between, the new address is in it.
\<close>

theorem clients_follow_registrations:
  assumes "svc_inv s" and "caller_addr port q = Some b" and "n \<in> set ns"
    and con: "\<forall>m \<in> set ns. \<forall>w \<in> set (watchers (abs_svc s) m). addrStore s w \<noteq> None"
    and client: "caller_addr (localPort c) p = Some a" "a \<in> set (watchers (abs_svc s) n)" "centerClient c"
      "resolverMap c n = Some i" "endpoint (resolves c i) = n"
  shows "\<exists>s' calls req. register spare q True port ns s = (s', RegOk, calls) \<and>
    (ClientClient a, a, req) \<in> set calls \<and> nr_server req = n \<and>
    b \<in> set (providers (abs_svc s') n) \<and>
    (\<forall>t. svc_step\<^sup>*\<^sup>* s' t \<longrightarrow> providers (abs_svc t) n \<noteq> [] \<longrightarrow>
      (\<exists>c' t'. SubscribeServerRegister spare' p req (c, t) = Return (c', t') \<and>
        addresses (resolves c' i) = Some (providers (abs_svc t) n)))"
proof -
  let ?req = "\<lparr>nr_type = ''register'', nr_server = n, nr_addr = b\<rparr>"
  from register_run [OF assms(1,2) con, where spare = spare] obtain s'
    where reg: "register spare q True port ns s = (s', RegOk,
      concat (map (\<lambda>n. map (\<lambda>w. (ClientClient w, w, \<lparr>nr_type = ''register'', nr_server = n, nr_addr = b\<rparr>))
        (watchers (abs_svc s) n)) ns))" (is "_ = (s', RegOk, ?calls)")
    and inv: "svc_inv s'"
    and prov: "\<forall>n. providers (abs_svc s') n = (if n \<in> set ns \<and> b \<notin> set (providers (abs_svc s) n)
       then providers (abs_svc s) n @ [b] else providers (abs_svc s) n)" by blast
  have "(ClientClient a, a, ?req) \<in> set ?calls" using assms(3) client(2) by auto
  moreover have "b \<in> set (providers (abs_svc s') n)" using prov assms(3) by auto
  moreover have "\<exists>c' t'. SubscribeServerRegister spare' p ?req (c, t) = Return (c', t') \<and>
      addresses (resolves c' i) = Some (providers (abs_svc t) n)"
    if "svc_step\<^sup>*\<^sup>* s' t" "providers (abs_svc t) n \<noteq> []" for t
    using notified_update [OF svc_steps_inv [OF inv that(1)] client(1,3), of ?req i spare'] client(4,5) that(2)
    by simp
  ultimately show ?thesis
    by (intro exI [of _ s'] exI [of _ ?calls] exI [of _ ?req]) (use reg in simp)
qed

definition demo_client :: discover_client where
  "demo_client = \<lparr>resolverMap = Map.empty, resolves = (\<lambda>_. \<lparr>endpoint = '''', addresses = None\<rparr>),
     next_resolve = 0, localPort = ''a'', centerClient = True\<rparr>"

text \<open>Two processes offer \<open>user\<close>; the one at \<open>a\<close> also resolves it.\<close>

definition demo_built :: "(nat \<times> discover_client \<times> service) outcome" where
  "demo_built = Build (\<lambda>_. 0) OtherPeer ''user'' (demo_client, pair_example)"

lemma demo_built_facts:
  obtains c s where "demo_built = Return (0, c, s)" "svc_inv s" "localPort c = ''a''" "centerClient c"
    "watchers (abs_svc s) ''user'' = [''a'']" "addrStore s = addrStore pair_example"
    "resolverMap c ''user'' = Some 0" "endpoint (resolves c 0) = ''user''"
    "sAddrToSNames s = sAddrToSNames pair_example" "providers (abs_svc s) = providers (abs_svc pair_example)"
    "addresses (resolves c 0) = Some [''a'', ''b'']"
proof -
  let ?c1 = "demo_client\<lparr>resolves := (resolves demo_client)(0 := \<lparr>endpoint = ''user'', addresses = None\<rparr>),
                    next_resolve := Suc 0, resolverMap := (resolverMap demo_client)(''user'' \<mapsto> 0)\<rparr>"
  have "discover (\<lambda>_. 0) OtherPeer ''a'' ''user'' pair_example =
      (discover_subscribe (\<lambda>_. 0) ''user'' ''a'' pair_example, DiscOk ''user'' [''a'', ''b''])"
    using discover_run [OF pair_example_facts(1), where port = "''a''" and p = OtherPeer and a = "''a''"
        and spare = "\<lambda>_. 0" and n = "''user''"]
    by (auto simp: pair_example_facts discover_def Let_def split: if_splits)
  then have u: "updateStates (\<lambda>_. 0) OtherPeer 0 (?c1, pair_example) = Return
      (?c1\<lparr>resolves := (resolves ?c1)(0 := (resolves ?c1 0)\<lparr>addresses := Some [''a'', ''b'']\<rparr>)\<rparr>,
       discover_subscribe (\<lambda>_. 0) ''user'' ''a'' pair_example)"
    by (simp add: updateStates_def demo_client_def)
  have abs: "abs_svc (discover_subscribe (\<lambda>_. 0) ''user'' ''a'' pair_example) =
      spec_subscribe ''user'' ''a'' (abs_svc pair_example)"
    by (simp add: subscribe_refines svc_invD(1) [OF pair_example_facts(1)])
  have w: "watchers (abs_svc pair_example) ''user'' = []"
    by (simp add: pair_example_def svc_refines svc_inv_sections spec_register_def)
  show ?thesis
    by (rule that [of "?c1\<lparr>resolves := (resolves ?c1)(0 := (resolves ?c1 0)\<lparr>addresses := Some [''a'', ''b'']\<rparr>)\<rparr>"
          "discover_subscribe (\<lambda>_. 0) ''user'' ''a'' pair_example"])
      (use u svc_inv_sections(2) [OF pair_example_facts(1), of "\<lambda>_. 0" "''user''" "''a''"] abs w in
        \<open>auto simp: demo_built_def Build_def demo_client_def Let_def spec_subscribe_def spec_add_def
          simp flip: abs_svc_select\<close>)
qed

theorem clients_follow_registrations_witness:
  "\<exists>c s s' calls req c' t'. demo_built = Return (0, c, s) \<and>
     register (\<lambda>_. 0) OtherPeer True ''c'' [''user''] s = (s', RegOk, calls) \<and>
     (ClientClient ''a'', ''a'', req) \<in> set calls \<and>
     SubscribeServerRegister (\<lambda>_. 0) OtherPeer req (c, s') = Return (c', t') \<and>
     ''c'' \<in> set (providers (abs_svc s') ''user'') \<and>
     addresses (resolves c' 0) = Some (providers (abs_svc s') ''user'')"
proof -
  obtain c s where f: "demo_built = Return (0, c, s)" "svc_inv s" "localPort c = ''a''" "centerClient c"
    "watchers (abs_svc s) ''user'' = [''a'']" "addrStore s = addrStore pair_example"
    "resolverMap c ''user'' = Some 0" "endpoint (resolves c 0) = ''user''"
    using demo_built_facts by metis
  have con: "\<forall>m \<in> set [''user'']. \<forall>w \<in> set (watchers (abs_svc s) m). addrStore s w \<noteq> None"
    by (simp add: f pair_example_facts)
  obtain s' calls req where
    r: "register (\<lambda>_. 0) OtherPeer True ''c'' [''user''] s = (s', RegOk, calls)"
      "(ClientClient ''a'', ''a'', req) \<in> set calls" "''c'' \<in> set (providers (abs_svc s') ''user'')"
    and later: "\<forall>t. svc_step\<^sup>*\<^sup>* s' t \<longrightarrow> providers (abs_svc t) ''user'' \<noteq> [] \<longrightarrow>
      (\<exists>c' t'. SubscribeServerRegister (\<lambda>_. 0) OtherPeer req (c, t) = Return (c', t') \<and>
        addresses (resolves c' 0) = Some (providers (abs_svc t) ''user''))"
    using clients_follow_registrations [OF f(2) _ _ con, of "''c''" OtherPeer "''c''" "''user''" c OtherPeer
        "''a''" 0 "\<lambda>_. 0" "\<lambda>_. 0"] f by (auto simp del: split_paired_Ex)
  moreover have "providers (abs_svc s') ''user'' \<noteq> []" using r(3) by auto
  ultimately show ?thesis using f(1) by blast
qed

text \<open>
  When the last address of a service dies, its clients keep it. The center removes it and answers
  further questions with \<open>ErrServerNotFind\<close>; the resolver takes that for a failure and does not
  call \<open>UpdateState\<close>, neither on the notification of the removal nor when gRPC asks it to
  resolve again, so the connection keeps the dead address as its only one.
\<close>

theorem last_dead_address_is_kept:
  assumes "svc_inv s" and "providers (abs_svc s) n = [d]"
    and "sAddrToSNames s d = Some ns" "n \<in> set ns" and "handle_unhealthy d s = (s', calls)"
    and client: "caller_addr (localPort c) p = Some a" "centerClient c" "resolverMap c n = Some i"
      "endpoint (resolves c i) = n" "addresses (resolves c i) = Some [d]"
  shows "providers (abs_svc s') n = [] \<and>
    (\<forall>req. nr_server req = n \<longrightarrow>
      (\<exists>c' t. SubscribeServerRegister spare p req (c, s') = Return (c', t) \<and>
        addresses (resolves c' i) = Some [d])) \<and>
    (\<exists>c' t. ResolveNow spare p i (c, s') = Return (c', t) \<and> addresses (resolves c' i) = Some [d])"
proof -
  from handle_unhealthy_effect [OF assms(1,5)]
  have inv: "svc_inv s'" and prov: "providers (abs_svc s') = providers (spec_evict d (abs_svc s))" by simp_all
  have gone: "providers (abs_svc s') n = []"
    using assms(2-4) by (simp add: prov spec_evict_providers [OF svc_invD(2) [OF assms(1)]])
  have "\<exists>c' t. updateStates spare p i (c, s') = Return (c', t) \<and> addresses (resolves c' i) = Some [d]"
    by (rule updateStates_effect [OF inv client(1,2,4), of spare]) (simp add: gone client(5))
  then show ?thesis using gone client(3) by (simp add: SubscribeServerRegister_def ResolveNow_def)
qed

definition lone_example :: service where
  "lone_example = register_commit (\<lambda>_. 0) ''d'' [''user''] new_service"

definition lone_client :: discover_client where
  "lone_client = \<lparr>resolverMap = [''user'' \<mapsto> 0],
     resolves = (\<lambda>_. \<lparr>endpoint = ''user'', addresses = Some [''d'']\<rparr>), next_resolve = 1, localPort = ''a'', centerClient = True\<rparr>"

theorem last_dead_address_is_kept_witness:
  "providers (abs_svc lone_example) ''user'' = [''d''] \<and>
   providers (abs_svc (fst (handle_unhealthy ''d'' lone_example))) ''user'' = [] \<and>
   (\<exists>c' t. ResolveNow (\<lambda>_. 0) OtherPeer 0 (lone_client, fst (handle_unhealthy ''d'' lone_example)) = Return (c', t) \<and>
     addresses (resolves c' 0) = Some [''d''])"
proof -
  obtain s' calls where u: "handle_unhealthy ''d'' lone_example = (s', calls)" by force
  have inv: "svc_inv lone_example" and prov: "providers (abs_svc lone_example) ''user'' = [''d'']"
    and names: "sAddrToSNames lone_example ''d'' = Some [''user'']"
    by (simp_all add: lone_example_def svc_inv_sections svc_refines spec_register_def spec_add_def
        flip: abs_svc_select)
  show ?thesis
    using last_dead_address_is_kept [OF inv prov names _ u, of lone_client OtherPeer "''a''" 0 "\<lambda>_. 0"] prov u
    by (simp add: lone_client_def)
qed

end
