(* ===== verification/Composition.thy ===== *)
theory Composition
  imports App_Start Discover_Client
begin

text \<open>
  The parts together: a process that \<open>app.Run\<close> starts, the center it registers with and the clients
  that look for its services. \<open>Run\<close> says with which port and names the process registers,
  \<open>RegisterCenter\<close> and the center's \<open>Register\<close> record them, \<open>Discover\<close> and the resolver of a client
  hand them on to gRPC.
\<close>

section \<open>A provider that is not evicted\<close>

text \<open>The steps of the center that do not evict the address \<open>b\<close>.\<close>

inductive keeping :: "string \<Rightarrow> service \<Rightarrow> service \<Rightarrow> bool" for b where
  "keeping b s (register_commit spare a ns s)"
| "keeping b s (discover_subscribe spare n a s)"
| "keeping b s (remove_subscriber n a s)"
| "a \<noteq> b \<Longrightarrow> keeping b s (unhealthy_commit a s)"

lemma keeping_step: "keeping b s t \<Longrightarrow> svc_step s t"
  by (auto elim!: keeping.cases intro: svc_step.intros)

lemma keeping_provider:
  assumes "keeping b s t" "svc_inv s" "b \<in> set (providers (abs_svc s) n)"
  shows "b \<in> set (providers (abs_svc t) n)"
  using assms
proof cases
  case (4 a)
  with assms(2,3) show ?thesis
    by (simp add: unhealthy_commit_refines svc_invD(1) spec_evict_providers [OF svc_invD(2) [OF assms(2)]])
qed (auto simp: svc_refines svc_invD(1) spec_register_def fold_spec_add spec_subscribe_def spec_unsubscribe_def)

lemma keeping_steps:
  assumes "(keeping b)\<^sup>*\<^sup>* s t" "svc_inv s" "b \<in> set (providers (abs_svc s) n)"
  shows "svc_inv t \<and> b \<in> set (providers (abs_svc t) n)"
  using assms(1)
proof (induction rule: rtranclp_induct)
  case (step t u)
  then show ?case using svc_inv_step [OF _ keeping_step] keeping_provider by blast
qed (use assms in simp)

section \<open>Building a connection\<close>

lemma Build_resolves:
  assumes "svc_inv t" "caller_addr (localPort c) p = Some a" "centerClient c"
  shows "\<exists>r c' t'. Build spare p n (c, t) = Return (r, c', t') \<and> svc_inv t' \<and>
    resolverMap c' n = Some r \<and> endpoint (resolves c' r) = n \<and>
    addresses (resolves c' r) =
      (if providers (abs_svc t) n = [] then None else Some (providers (abs_svc t) n))"
proof -
  let ?r = "next_resolve c"
  let ?c = "c\<lparr>resolves := (resolves c)(?r := \<lparr>endpoint = n, addresses = None\<rparr>),
    next_resolve := Suc ?r, resolverMap := (resolverMap c)(n \<mapsto> ?r)\<rparr>"
  have *: "caller_addr (localPort ?c) p = Some a" "centerClient ?c" "endpoint (resolves ?c ?r) = n"
    using assms by simp_all
  obtain c' t' where u: "updateStates spare p ?r (?c, t) = Return (c', t')" "svc_inv t'"
    "addresses (resolves c' ?r) = (if providers (abs_svc t) n = [] then addresses (resolves ?c ?r)
      else Some (providers (abs_svc t) n))"
    "endpoint (resolves c' ?r) = n" "resolverMap c' = resolverMap ?c"
    by (rule updateStates_effect [OF assms(1) *, of spare])
  then show ?thesis
    by (intro exI [of _ ?r] exI [of _ c'] exI [of _ t']) (simp add: Build_def Let_def)
qed

section \<open>Properties\<close>

text \<open>
  C13: a started service is found. When \<open>Run\<close> gets through, the last thing it starts is the registration of its
  RPC port with the names of all services its modules offer, after the server of that port. That
  registration returns, all subscribers of these services being connected, and the process is then
  a client of the center under that port. From then on, as long as the center does not evict its
  address, whatever else it serves, every client of the center that builds a connection to one of
  the services hands gRPC a list with that address.
\<close>

theorem started_service_is_found:
  assumes "InitConf files dir unmarshal env getwd c0 (map Config_Item ms) = Return confs" "conf = app_of (hd confs)"
    and "Run files dir unmarshal env getwd c0 app_of ok hostname ms = Return es"
    and "svc_inv s" "caller_addr ('':'' @ dec (RpcPort conf)) q = Some b"
    and con: "\<forall>m \<in> set ms. \<forall>w \<in> set (watchers (abs_svc s) (Init_Name m)). addrStore s w \<noteq> None"
  shows "\<exists>port names before c' s' calls.
    es = before @ [Serve_Rpc port, Register_Center (CenterAddr conf) port names] \<and>
    RegisterCenter spare q True True port names (c, s) = Return (c', s', calls) \<and>
    localPort c' = port \<and> centerClient c' \<and>
    (\<forall>m \<in> set ms. Init_Name m \<noteq> '''' \<longrightarrow>
      (\<forall>t d p a. (keeping b)\<^sup>*\<^sup>* s' t \<longrightarrow> caller_addr (localPort d) p = Some a \<longrightarrow> centerClient d \<longrightarrow>
        (\<exists>r d' t' addrs. Build spare' p (Init_Name m) (d, t) = Return (r, d', t') \<and>
          addresses (resolves d' r) = Some addrs \<and> b \<in> set addrs)))"
proof -
  let ?port = "'':'' @ dec (RpcPort conf)"
  let ?names = "filter (\<lambda>s. s \<noteq> '''') (map Init_Name ms)"
  from Run_registers [OF assms(3)] assms(1,2) obtain before where es:
    "es = before @ [Serve_Rpc ?port, Register_Center (CenterAddr conf) ?port ?names]"
    by (metis append.assoc outcome.inject(1))
  have con': "\<forall>n \<in> set ?names. \<forall>w \<in> set (watchers (abs_svc s) n). addrStore s w \<noteq> None"
    using con by auto
  from register_run [OF assms(4,5) con', where spare = spare] obtain s' calls where
    reg: "register spare q True ?port ?names s = (s', RegOk, calls)" and inv: "svc_inv s'"
    and prov: "\<forall>n. providers (abs_svc s') n = (if n \<in> set ?names \<and> b \<notin> set (providers (abs_svc s) n)
       then providers (abs_svc s) n @ [b] else providers (abs_svc s) n)" by blast
  have found: "\<exists>r d' t' addrs. Build spare' p (Init_Name m) (d, t) = Return (r, d', t') \<and>
      addresses (resolves d' r) = Some addrs \<and> b \<in> set addrs"
    if "m \<in> set ms" "Init_Name m \<noteq> ''''" "(keeping b)\<^sup>*\<^sup>* s' t" "caller_addr (localPort d) p = Some a"
      "centerClient d" for m t d p a
  proof -
    have "b \<in> set (providers (abs_svc s') (Init_Name m))" using prov that(1,2) by auto
    with keeping_steps [OF that(3) inv] have "svc_inv t" "b \<in> set (providers (abs_svc t) (Init_Name m))" by blast+
    with Build_resolves [OF this(1) that(4,5), of spare' "Init_Name m"] show ?thesis
      by (cases "providers (abs_svc t) (Init_Name m) = []") auto
  qed
  let ?c = "c\<lparr>centerClient := True, localPort := ?port\<rparr>"
  have "RegisterCenter spare q True True ?port ?names (c, s) = Return (?c, s', calls)"
    using reg by (simp add: RegisterCenter_def)
  with es found show ?thesis
    by (intro exI [of _ ?port] exI [of _ ?names] exI [of _ before] exI [of _ ?c] exI [of _ s'] exI [of _ calls])
      simp
qed

definition demo_conf :: app_config where
  "demo_conf = \<lparr>Name = ''shop'', Port = 80, RpcPort = 9, CenterAddr = ''center:1'', Mongo_Uri = '''', Mongo_Database = '''',
     PGSQL_Uri = '''', Redis_Addr = ''redis'', Redis_Password = '''', Redis_Db = 0, Observe_Endpoint = ''log:1'',
     Observe_Organization = ''o'', Observe_Stream = ''s'', Observe_Username = ''u'', Observe_Password = ''p''\<rparr>"

definition fresh_client :: discover_client where
  "fresh_client = \<lparr>resolverMap = Map.empty, resolves = (\<lambda>_. \<lparr>endpoint = '''', addresses = None\<rparr>),
     next_resolve = 0, localPort = '''', centerClient = False\<rparr>"

theorem started_service_is_found_witness:
  "\<exists>c' s' calls r d' t' addrs.
    RegisterCenter (\<lambda>_. 0) (TcpPeer ''10.0.0.7'') True True ('':'' @ dec 9) [''user''] (fresh_client, new_service) =
      Return (c', s', calls) \<and>
    Build (\<lambda>_. 0) (TcpPeer ''10.0.0.7'') ''user'' (c', s') = Return (r, d', t') \<and>
    addresses (resolves d' r) = Some addrs \<and> ''[10.0.0.7]'' @ '':'' @ dec 9 \<in> set addrs"
proof -
  let ?ms = "[\<lparr>Config_Item = No_Config, Init_Name = ''user'', Router_Path = ''/user''\<rparr>,
    \<lparr>Config_Item = No_Config, Init_Name = '''', Router_Path = ''/home''\<rparr>]"
  let ?port = "'':'' @ dec 9" and ?b = "''['' @ ''10.0.0.7'' @ '']'' @ '':'' @ dec 9" and ?q = "TcpPeer ''10.0.0.7''"
  have init: "InitConf (\<lambda>_. Some '''') id (\<lambda>_. Some) '''' (Some ''app'') demo_conf (map Config_Item ?ms) = Return [demo_conf]"
    by (simp add: InitConf_def config_Init_def InitByDir_def read_into_def)
  obtain es where es: "Run (\<lambda>_. Some '''') id (\<lambda>_. Some) '''' (Some ''app'') demo_conf id (\<lambda>_. True) ''host'' ?ms = Return es"
    using init by (simp add: Run_def init_if_def Let_def initLog_def NewOpenObserveHandler_def demo_conf_def)
  from Run_registers [OF es] init obtain pre where
    names: "es = pre @ [Serve_Rpc ?port, Register_Center ''center:1'' ?port [''user'']]"
    by (auto simp: demo_conf_def simp del: append_assoc simp flip: append_assoc)
  have conf: "demo_conf = id (hd [demo_conf])" by simp
  from started_service_is_found [OF init conf es svc_inv_new, of ?q ?b "\<lambda>_. 0" fresh_client "\<lambda>_. 0"]
  obtain port ns before c' s' calls where
    run: "es = before @ [Serve_Rpc port, Register_Center (CenterAddr demo_conf) port ns]"
      "RegisterCenter (\<lambda>_. 0) ?q True True port ns (fresh_client, new_service) = Return (c', s', calls)"
      "localPort c' = port" "centerClient c'"
    and found: "\<And>t d p a. (keeping ?b)\<^sup>*\<^sup>* s' t \<Longrightarrow> caller_addr (localPort d) p = Some a \<Longrightarrow> centerClient d \<Longrightarrow>
        \<exists>r d' t' addrs. Build (\<lambda>_. 0) p ''user'' (d, t) = Return (r, d', t') \<and>
          addresses (resolves d' r) = Some addrs \<and> ?b \<in> set addrs"
    by (auto simp: demo_conf_def)
  from run(1) names have "port = ?port" "ns = [''user'']" by simp_all
  with run found [OF rtranclp.rtrancl_refl _ run(4), of ?q ?b] show ?thesis by fastforce
qed

end
