(* ===== verification/Security_Token.thy ===== *)
theory Security_Token
  imports Go_Prelude
begin

text \<open>
  Signed tokens, \<open>security\<close>: \<open>NewToken\<close> and \<open>VerifyToken\<close>, with what they use of the standard library,
  \<open>base64.RawURLEncoding\<close> and \<open>strings.Split\<close>, written out. Bytes and strings are lists of
  characters.

  Parameters: \<open>mac\<close> is HMAC-SHA256 of a key and a message, \<open>marshal\<close> and \<open>unmarshal\<close> are \<open>proto\<close> on the type
  of the message.
\<close>

section \<open>base64.RawURLEncoding\<close>

definition url_alphabet :: string where
  "url_alphabet = ''ABCDEFGHIJKLMNOPQRSTUVWXYZabcdefghijklmnopqrstuvwxyz0123456789-_''"

definition b64_char :: "nat \<Rightarrow> char" where
  "b64_char n = url_alphabet ! n"

fun index_of :: "'a \<Rightarrow> 'a list \<Rightarrow> nat option" where
  "index_of x [] = None"
| "index_of x (y # ys) = (if x = y then Some 0 else map_option Suc (index_of x ys))"

definition b64_val :: "char \<Rightarrow> nat option" where
  "b64_val c = index_of c url_alphabet"

abbreviation byte :: "char \<Rightarrow> nat" where
  "byte c \<equiv> of_char c"

fun encoding :: "string \<Rightarrow> string" where
  "encoding (a # b # c # data) =
     b64_char (byte a div 4) # b64_char (byte a mod 4 * 16 + byte b div 16) #
     b64_char (byte b mod 16 * 4 + byte c div 64) # b64_char (byte c mod 64) # encoding data"
| "encoding [a, b] =
     [b64_char (byte a div 4), b64_char (byte a mod 4 * 16 + byte b div 16), b64_char (byte b mod 16 * 4)]"
| "encoding [a] = [b64_char (byte a div 4), b64_char (byte a mod 4 * 16)]"
| "encoding [] = []"

text \<open>
  The decoder skips line breaks, refuses other foreign characters and a lone last character, and
  does not look at the unused low bits of the last one.
\<close>

fun b64_vals :: "string \<Rightarrow> nat list option" where
  "b64_vals [] = Some []"
| "b64_vals (c # cs) =
     (if byte c = 10 \<or> byte c = 13 then b64_vals cs
      else case b64_val c of
             None \<Rightarrow> None
           | Some v \<Rightarrow> map_option ((#) v) (b64_vals cs))"

fun b64_bytes :: "nat list \<Rightarrow> string option" where
  "b64_bytes (p # q # r # s # vs) =
     map_option (\<lambda>data. char_of (p * 4 + q div 16) # char_of (q mod 16 * 16 + r div 4) #
       char_of (r mod 4 * 64 + s) # data) (b64_bytes vs)"
| "b64_bytes [p, q, r] = Some [char_of (p * 4 + q div 16), char_of (q mod 16 * 16 + r div 4)]"
| "b64_bytes [p, q] = Some [char_of (p * 4 + q div 16)]"
| "b64_bytes [p] = None"
| "b64_bytes [] = Some []"

definition decoding :: "string \<Rightarrow> string option" where
  "decoding data = (case b64_vals data of None \<Rightarrow> None | Some vs \<Rightarrow> b64_bytes vs)"

section \<open>Tokens\<close>

text \<open>\<open>strings.Split\<close> with a separator of one character.\<close>

fun split_at_char :: "char \<Rightarrow> string \<Rightarrow> string list" where
  "split_at_char sep [] = [[]]"
| "split_at_char sep (c # cs) =
     (if c = sep then [] # split_at_char sep cs
      else (case split_at_char sep cs of [] \<Rightarrow> [[c]] | p # ps \<Rightarrow> (c # p) # ps))"

definition NewToken ::
  "(string \<Rightarrow> string \<Rightarrow> string) \<Rightarrow> ('m \<Rightarrow> string option) \<Rightarrow> 'm \<Rightarrow> string \<Rightarrow> string option" where
  "NewToken mac marshal body key =
     (case marshal body of
        None \<Rightarrow> None
      | Some data \<Rightarrow>
          (let sign = encoding (mac key data);
               bodyString = encoding data
           in Some (bodyString @ ''.'' @ sign)))"

definition VerifyToken ::
  "(string \<Rightarrow> string \<Rightarrow> string) \<Rightarrow> (string \<Rightarrow> 'm option) \<Rightarrow> string \<Rightarrow> string \<Rightarrow> string + 'm" where
  "VerifyToken mac unmarshal token key =
     (case split_at_char CHR ''.'' token of
        [bodyString, signString] \<Rightarrow>
          (case decoding bodyString of
             None \<Rightarrow> Inl ''invalid token body encoding''
           | Some bodyData \<Rightarrow>
               (let expectedSign = encoding (mac key bodyData)
                in if expectedSign \<noteq> signString then Inl ''invalid token signature''
                   else case unmarshal bodyData of
                          None \<Rightarrow> Inl ''failed to unmarshal token data''
                        | Some target \<Rightarrow> Inr target))
      | _ \<Rightarrow> Inl ''invalid token format'')"

section \<open>Encoding and decoding\<close>

lemma length_url_alphabet [simp]: "length url_alphabet = 64"
  by (simp add: url_alphabet_def)

lemma index_of_nth: "distinct xs \<Longrightarrow> i < length xs \<Longrightarrow> index_of (xs ! i) xs = Some i"
proof (induction xs arbitrary: i)
  case (Cons x xs)
  then show ?case by (cases i) (auto simp: nth_Cons dest: nth_mem)
qed simp

lemma distinct_url_alphabet: "distinct url_alphabet"
  by (simp add: url_alphabet_def)

lemma b64_val_char [simp]: "n < 64 \<Longrightarrow> b64_val (b64_char n) = Some n"
  by (simp add: b64_val_def b64_char_def index_of_nth distinct_url_alphabet)

lemma url_alphabet_safe: "c \<in> set url_alphabet \<Longrightarrow> byte c \<noteq> 10 \<and> byte c \<noteq> 13 \<and> c \<noteq> CHR ''.''"
  by (auto simp: url_alphabet_def)

lemma b64_char_in [simp]: "n < 64 \<Longrightarrow> b64_char n \<in> set url_alphabet"
  by (simp add: b64_char_def)

lemma b64_vals_char [simp]: "n < 64 \<Longrightarrow> b64_vals (b64_char n # cs) = map_option ((#) n) (b64_vals cs)"
  using url_alphabet_safe [OF b64_char_in] by simp

lemma byte_less [simp]: "byte c < 256"
  by (cases c) (simp add: of_char_def horner_sum_bound)

lemma sextet_join: "(b :: nat) < 256 \<Longrightarrow> a mod 4 * 16 + b div 16 < 64"
proof -
  assume "b < 256"
  then have "b div 16 < 16" by simp
  moreover have "a mod 4 \<le> 3" by simp
  ultimately show ?thesis by linarith
qed

lemma sextet_join': "(c :: nat) < 256 \<Longrightarrow> b mod 16 * 4 + c div 64 < 64"
proof -
  assume "c < 256"
  then have "c div 64 < 4" by simp
  moreover have "b mod 16 \<le> 15" by simp
  ultimately show ?thesis by linarith
qed

lemma sextet_first: "(a :: nat) < 256 \<Longrightarrow> a div 4 < 64"
  by simp

lemma sextets:
  "byte a div 4 < 64" "byte a mod 4 * 16 + byte b div 16 < 64" "byte b mod 16 * 4 + byte c div 64 < 64"
  "byte c mod 64 < 64" "byte b mod 16 * 4 < 64" "byte a mod 4 * 16 < 64"
  using sextet_first [OF byte_less, of a] sextet_join [OF byte_less, of "byte a" b] sextet_join' [OF byte_less, of "byte b" c]
    sextet_join [of 0 "byte a"] sextet_join' [of 0 "byte b"] by simp_all

lemmas sextet_chars = sextets [THEN b64_char_in]

lemma encoding_alphabet: "set (encoding data) \<subseteq> set url_alphabet"
  by (induction data rule: encoding.induct)
    (simp_all only: encoding.simps list.set insert_subset empty_subsetI sextet_chars simp_thms)

lemma encoding_no_dot: "CHR ''.'' \<notin> set (encoding data)"
  using encoding_alphabet url_alphabet_safe by blast

lemma octet_first: "(b :: nat) < 256 \<Longrightarrow> a div 4 * 4 + (a mod 4 * 16 + b div 16) div 16 = a"
  by (simp add: div_less)

lemma octet_second:
  "(c :: nat) < 256 \<Longrightarrow> b < 256 \<Longrightarrow>
    (a mod 4 * 16 + b div 16) mod 16 * 16 + (b mod 16 * 4 + c div 64) div 4 = b"
proof -
  assume c: "c < 256" and b: "b < 256"
  have "(a mod 4 * 16 + b div 16) mod 16 = b div 16" using b by simp
  moreover have "(b mod 16 * 4 + c div 64) div 4 = b mod 16" using c by simp
  ultimately show ?thesis by simp
qed

lemma octet_third: "(c :: nat) < 256 \<Longrightarrow> (b mod 16 * 4 + c div 64) mod 4 * 64 + c mod 64 = c"
proof -
  assume c: "c < 256"
  have "(b mod 16 * 4 + c div 64) mod 4 = c div 64" using c by simp
  then show ?thesis by simp
qed

lemma octets:
  "byte a div 4 * 4 + (byte a mod 4 * 16 + byte b div 16) div 16 = byte a"
  "(byte a mod 4 * 16 + byte b div 16) mod 16 * 16 + (byte b mod 16 * 4 + byte c div 64) div 4 = byte b"
  "(byte b mod 16 * 4 + byte c div 64) mod 4 * 64 + byte c mod 64 = byte c"
  "(byte a mod 4 * 16 + byte b div 16) mod 16 * 16 + byte b mod 16 * 4 div 4 = byte b"
  "byte a div 4 * 4 + byte a mod 4 * 16 div 16 = byte a"
  using octet_first [of "byte b" "byte a"] octet_second [of "byte c" "byte b" "byte a"]
    octet_third [of "byte c" "byte b"] octet_second [of 0 "byte b" "byte a"] octet_first [of 0 "byte a"]
  by (simp_all only: byte_less div_0 add_0_right simp_thms zero_less_numeral)

lemma decoding_encoding [simp]: "decoding (encoding data) = Some data"
proof -
  have "\<exists>vs. b64_vals (encoding data) = Some vs \<and> b64_bytes vs = Some data"
  proof (induction data rule: encoding.induct)
    case (1 a b c data)
    then obtain vs where "b64_vals (encoding data) = Some vs" "b64_bytes vs = Some data" by blast
    then show ?case
      by (simp only: encoding.simps b64_vals_char [OF sextets(1)] b64_vals_char [OF sextets(2)]
          b64_vals_char [OF sextets(3)] b64_vals_char [OF sextets(4)] option.map option.inject ex_simps
          simp_thms b64_bytes.simps octets char_of_char)
  qed (simp_all only: encoding.simps b64_vals_char [OF sextets(1)] b64_vals_char [OF sextets(2)]
      b64_vals_char [OF sextets(5)] b64_vals_char [OF sextets(6)] b64_vals.simps(1) option.map option.inject
      ex_simps simp_thms b64_bytes.simps octets char_of_char)
  then show ?thesis by (auto simp: decoding_def)
qed

section \<open>Issuing and verifying\<close>

lemma split_none: "sep \<notin> set xs \<Longrightarrow> split_at_char sep xs = [xs]"
  by (induction xs) auto

lemma split_append: "sep \<notin> set xs \<Longrightarrow> split_at_char sep (xs @ sep # ys) = xs # split_at_char sep ys"
  by (induction xs) auto

lemma split_not_Nil: "split_at_char sep xs \<noteq> []"
  by (cases xs) (auto split: list.splits)

lemma split_single: "split_at_char sep cs = [q] \<Longrightarrow> cs = q \<and> sep \<notin> set q"
proof (induction cs arbitrary: q)
  case (Cons d ds)
  then show ?case using split_not_Nil [of sep ds]
    by (cases "split_at_char sep ds") (auto split: if_splits)
qed simp

lemma split_pair: "split_at_char sep xs = [p, q] \<Longrightarrow> xs = p @ sep # q \<and> sep \<notin> set p \<and> sep \<notin> set q"
proof (induction xs arbitrary: p)
  case (Cons c cs)
  show ?case
  proof (cases "c = sep")
    case True
    then show ?thesis using Cons.prems split_single [of sep cs q] by simp
  next
    case False
    then show ?thesis using Cons split_not_Nil [of sep cs]
      by (cases "split_at_char sep cs") (auto split: if_splits)
  qed
qed simp

text \<open>
  C25: Tokens. A token that \<open>NewToken\<close> issued is verified with the same key and yields the message it was
  issued for, if \<open>proto\<close> carries the message faithfully. And \<open>VerifyToken\<close> accepts nothing else: whatever
  string it accepts is a body and a signature with one dot between them, the body decodes to bytes
  whose HMAC under the key is exactly what the signature encodes, and the message is the one these
  bytes stand for. Who cannot compute the HMAC cannot make it accept other bytes.
\<close>

theorem tokens_verify:
  "(\<forall>data. marshal body = Some data \<longrightarrow> unmarshal data = Some body \<longrightarrow>
      (\<exists>token. NewToken mac marshal body key = Some token \<and> VerifyToken mac unmarshal token key = Inr body)) \<and>
   (VerifyToken mac unmarshal token key = Inr m \<longleftrightarrow>
      (\<exists>p data. token = p @ ''.'' @ encoding (mac key data) \<and> CHR ''.'' \<notin> set p \<and>
        decoding p = Some data \<and> unmarshal data = Some m))"
proof (intro conjI iffI allI impI)
  fix data assume "marshal body = Some data" "unmarshal data = Some body"
  then show "\<exists>token. NewToken mac marshal body key = Some token \<and> VerifyToken mac unmarshal token key = Inr body"
    by (simp add: NewToken_def VerifyToken_def split_append split_none encoding_no_dot Let_def)
next
  assume v: "VerifyToken mac unmarshal token key = Inr m"
  then obtain p q where pq: "split_at_char CHR ''.'' token = [p, q]"
    by (auto simp: VerifyToken_def split: list.splits)
  obtain data where "decoding p = Some data" "encoding (mac key data) = q" "unmarshal data = Some m"
    using v pq by (auto simp: VerifyToken_def Let_def split: option.splits if_splits)
  then show "\<exists>p data. token = p @ ''.'' @ encoding (mac key data) \<and> CHR ''.'' \<notin> set p \<and>
        decoding p = Some data \<and> unmarshal data = Some m"
    using split_pair [OF pq] by auto
next
  assume "\<exists>p data. token = p @ ''.'' @ encoding (mac key data) \<and> CHR ''.'' \<notin> set p \<and>
        decoding p = Some data \<and> unmarshal data = Some m"
  then show "VerifyToken mac unmarshal token key = Inr m"
    by (auto simp: VerifyToken_def split_append split_none encoding_no_dot Let_def)
qed

theorem tokens_verify_witness:
  "NewToken (\<lambda>k d. k @ d) Some ''hi'' ''k'' = Some ''aGk.a2hp'' \<and>
   VerifyToken (\<lambda>k d. k @ d) Some ''aGk.a2hp'' ''k'' = Inr ''hi''"
proof -
  have t: "NewToken (\<lambda>k d. k @ d) Some ''hi'' ''k'' = Some ''aGk.a2hp''"
    by (simp add: NewToken_def b64_char_def url_alphabet_def)
  then show ?thesis
    using tokens_verify [of Some "''hi''" Some "\<lambda>k d. k @ d" "''k''" "''aGk.a2hp''" "''hi''"] by simp
qed

text \<open>
  The text of a token is not unique: the decoder ignores line breaks and the unused bits of the last
  character, so a token can be altered and is still accepted, with the same message.
\<close>

lemma token_is_malleable:
  "VerifyToken (\<lambda>k d. k @ d) Some ''aGl.a2hp'' ''k'' = Inr ''hi''"
  by (simp add: VerifyToken_def decoding_def b64_val_def url_alphabet_def b64_char_def char_of_def bit_0)

end
