(* ===== verification/Gen.thy ===== *)
theory Gen
  imports Go_Prelude
begin

text \<open>
  The code generator \<open>gen.go\<close>: it reads the service of a proto file line by line with two regular
  expressions, adds the methods that the hand-written \<open>RPCServer\<close> lacks, and writes two files from
  templates. The regular expressions are written out as the matchers they are (their classes do not
  overlap, so greedy matching never backtracks); templates are the text they produce.

  The file system is a map from paths to contents that can always be written; lines are in ASCII as far
  as spaces at their ends go. Parameters: \<open>fmt\<close> is \<open>go/format\<close>, \<open>parse\<close> is \<open>go/parser\<close>, as
  far as the code looks at its result (the receiver and the name of every function), and \<open>protoc\<close> is
  the effect of the compiler on the files.
\<close>

section \<open>Lines of a proto file\<close>

definition is_space :: "char \<Rightarrow> bool" where
  "is_space c \<longleftrightarrow> (of_char c :: nat) \<in> {9, 10, 12, 13, 32}"

definition is_word :: "char \<Rightarrow> bool" where
  "is_word c \<longleftrightarrow> c \<in> set ''0123456789ABCDEFGHIJKLMNOPQRSTUVWXYZ_abcdefghijklmnopqrstuvwxyz''"

definition trimSpace :: "string \<Rightarrow> string" where
  "trimSpace s =
     (let sp = (\<lambda>c. is_space c \<or> (of_char c :: nat) = 11)
      in rev (dropWhile sp (rev (dropWhile sp s))))"

text \<open>The pieces of the expressions: \<open>\s*\<close>, \<open>\s+\<close>, \<open>(\w+)\<close> and literal text, each on what is left.\<close>

definition ws :: "string \<Rightarrow> string" where
  "ws s = dropWhile is_space s"

definition ws1 :: "string \<Rightarrow> string option" where
  "ws1 s = (case s of [] \<Rightarrow> None | c # cs \<Rightarrow> if is_space c then Some (ws cs) else None)"

definition word :: "string \<Rightarrow> (string \<times> string) option" where
  "word s = (case takeWhile is_word s of [] \<Rightarrow> None | w \<Rightarrow> Some (w, dropWhile is_word s))"

fun lit :: "string \<Rightarrow> string \<Rightarrow> string option" where
  "lit [] s = Some s"
| "lit (c # cs) [] = None"
| "lit (c # cs) (d # ds) = (if c = d then lit cs ds else None)"

text \<open>\<open>\s*(\s*(\w+)\s*)\<close> with literal parentheses.\<close>

definition parens :: "string \<Rightarrow> (string \<times> string) option" where
  "parens s = Option.bind (lit ''('' (ws s)) (\<lambda>s1. Option.bind (word (ws s1)) (\<lambda>(w, s2).
     map_option (\<lambda>s3. (w, s3)) (lit '')'' (ws s2))))"

definition match_service :: "string \<Rightarrow> string option" where
  "match_service line = Option.bind (lit ''service'' (ws line)) (\<lambda>s1. Option.bind (ws1 s1) (\<lambda>s2.
     Option.bind (word s2) (\<lambda>(name, s3). map_option (\<lambda>_. name) (lit ''{'' (ws s3)))))"

definition match_rpc :: "string \<Rightarrow> (string \<times> string \<times> string) option" where
  "match_rpc line = Option.bind (lit ''rpc'' (ws line)) (\<lambda>s1. Option.bind (ws1 s1) (\<lambda>s2.
     Option.bind (word s2) (\<lambda>(name, s3). Option.bind (parens s3) (\<lambda>(param, s4).
     Option.bind (lit ''returns'' (ws s4)) (\<lambda>s5.
     map_option (\<lambda>(ret, s6). (name, param, ret)) (parens s5))))))"

section \<open>scanProtoService\<close>

record MethodInfo =
  Name :: string
  ParamType :: string
  ReturnType :: string

record ProtoServiceInfo =
  ServiceName :: string
  Methods :: "MethodInfo list"

definition method_info :: "string \<Rightarrow> string \<times> string \<times> string \<Rightarrow> MethodInfo" where
  "method_info pkg m =
     (case m of (name, param, ret) \<Rightarrow>
        \<lparr>Name = name, ParamType = ''*'' @ pkg @ ''C'' @ ''.'' @ param,
         ReturnType = ''*'' @ pkg @ ''C'' @ ''.'' @ ret\<rparr>)"

text \<open>The loop over the lines: the name of the service, its methods, and whether it ended by \<open>break\<close>.\<close>

fun scan_loop ::
  "string \<Rightarrow> string list \<Rightarrow> string \<Rightarrow> MethodInfo list \<Rightarrow> bool \<Rightarrow> string \<times> MethodInfo list \<times> bool" where
  "scan_loop pkg [] serviceName methods inService = (serviceName, methods, False)"
| "scan_loop pkg (text # rest) serviceName methods inService =
     (let line = trimSpace text in
      if lit ''//'' line \<noteq> None \<or> lit ''/*'' line \<noteq> None then
        scan_loop pkg rest serviceName methods inService
      else case match_service line of
        Some name \<Rightarrow> scan_loop pkg rest name methods True
      | None \<Rightarrow>
          if inService \<and> line = ''}'' then (serviceName, methods, True)
          else if inService then
            (case match_rpc line of
               Some m \<Rightarrow> scan_loop pkg rest serviceName (methods @ [method_info pkg m]) inService
             | None \<Rightarrow> scan_loop pkg rest serviceName methods inService)
          else scan_loop pkg rest serviceName methods inService)"

text \<open>\<open>bufio.Scanner\<close> stops at a line that does not fit its buffer of 64 kB, with an error.\<close>

definition fits :: "string \<Rightarrow> bool" where
  "fits l \<longleftrightarrow> length l < 65536"

definition scanProtoService :: "string \<Rightarrow> string list \<Rightarrow> string + ProtoServiceInfo option" where
  "scanProtoService pkg lines =
     (case scan_loop pkg (takeWhile fits lines) '''' [] False of (serviceName, methods, broke) \<Rightarrow>
        if \<not> broke \<and> \<not> list_all fits lines then Inl ''token too long''
        else if serviceName = '''' then Inr None
        else Inr (Some \<lparr>ServiceName = serviceName, Methods = methods\<rparr>))"

section \<open>Templates\<close>

definition nl :: string where "nl = [CHR 0x0A]"
definition tab :: string where "tab = [CHR 0x09]"
definition quoted :: "string \<Rightarrow> string" where "quoted s = [CHR 0x22] @ s @ [CHR 0x22]"

definition unlines :: "string list \<Rightarrow> string" where
  "unlines ls = concat (List.map (\<lambda>l. l @ nl) ls)"

text \<open>The stub of a method, as both templates write it.\<close>

definition method_stub :: "MethodInfo \<Rightarrow> string" where
  "method_stub m = unlines
     [ '''',
       ''func (s *RPCServer) '' @ Name m @ ''(ctx context.Context, req '' @ ParamType m @ '') ('' @
         ReturnType m @ '', error) {'',
       tab @ ''panic('' @ quoted ''implement me'' @ '')'',
       ''}'' ]"

definition base_service :: "string \<Rightarrow> ProtoServiceInfo \<Rightarrow> string" where
  "base_service pkg p = unlines
     [ ''package endpoint'', '''', ''import ('', tab @ quoted ''context'',
       tab @ quoted (''github.com/Gong-Yang/GGYYNet/contract/'' @ pkg @ ''C''), '')'', '''',
       ''type RPCServer struct {'',
       tab @ pkg @ ''C.Unimplemented'' @ ServiceName p @ ''Server'', ''}'' ]
     @ concat (List.map method_stub (Methods p)) @ nl"

definition methods_code :: "MethodInfo list \<Rightarrow> string" where
  "methods_code ms = concat (List.map method_stub ms)"

text \<open>\<open>removePackagePrefix\<close>: the text behind the only dot, if there is one dot.\<close>

fun split_dots :: "string \<Rightarrow> string list" where
  "split_dots [] = [[]]"
| "split_dots (c # cs) =
     (if c = CHR ''.'' then [] # split_dots cs
      else (case split_dots cs of [] \<Rightarrow> [[c]] | p # ps \<Rightarrow> (c # p) # ps))"

definition removePackagePrefix :: "string \<Rightarrow> string" where
  "removePackagePrefix typeName =
     (case split_dots typeName of
        [p, q] \<Rightarrow> if lit ''*'' p \<noteq> None then ''*'' @ q else q
      | _ \<Rightarrow> typeName)"

definition contract_method :: "string \<Rightarrow> MethodInfo \<Rightarrow> string" where
  "contract_method pkg m = unlines
     [ '''',
       ''func (s *'' @ pkg @ ''RemoteClient) '' @ Name m @ ''(ctx context.Context, in '' @
         removePackagePrefix (ParamType m) @ '', opts ...grpc.CallOption) ('' @
         removePackagePrefix (ReturnType m) @ '', error) {'',
       tab @ ''if s.client == nil {'', tab @ tab @ ''err := s.init()'',
       tab @ tab @ ''if err != nil {'', tab @ tab @ tab @ ''return nil, err'', tab @ tab @ ''}'', tab @ ''}'',
       tab @ ''return s.client.'' @ Name m @ ''(ctx, in, opts...)'', ''}'' ]"

definition contract_file :: "string \<Rightarrow> ProtoServiceInfo \<Rightarrow> string" where
  "contract_file pkg p = unlines
     [ ''package '' @ pkg @ ''C'', '''', ''import ('', tab @ quoted ''context'',
       tab @ quoted ''github.com/Gong-Yang/g-micor/discover'', tab @ quoted ''google.golang.org/grpc'',
       tab @ quoted ''log/slog'', '')'', '''',
       ''var ModuleName = '' @ quoted pkg, '''',
       ''var Client '' @ ServiceName p @ ''Client = &'' @ pkg @ ''RemoteClient{}'', '''',
       ''type '' @ pkg @ ''RemoteClient struct {'', tab @ ''client '' @ ServiceName p @ ''Client'', ''}'', '''',
       ''func (s *'' @ pkg @ ''RemoteClient) init() error {'',
       tab @ ''c, err := discover.Grpc('' @ quoted pkg @ '')'', tab @ ''if err != nil {'',
       tab @ tab @ ''return err'', tab @ ''}'',
       tab @ ''client := New'' @ ServiceName p @ ''Client(c)'', tab @ ''s.client = client'',
       tab @ ''slog.Info('' @ quoted (pkg @ '' remote client init'') @ '')'', tab @ ''return nil'', ''}'' ]
     @ concat (List.map (contract_method pkg) (Methods p)) @ nl"

definition adapter_method :: "MethodInfo \<Rightarrow> string" where
  "adapter_method m = unlines
     [ '''',
       ''func (s *localAdapter) '' @ Name m @ ''(ctx context.Context, in '' @ ParamType m @
         '', opts ...grpc.CallOption) ('' @ ReturnType m @ '', error) {'',
       tab @ ''return s.server.'' @ Name m @ ''(ctx, in)'', ''}'' ]"

text \<open>The two comments of the template, in UTF-8.\<close>

definition comment_local :: string where
  "comment_local = ''    // '' @ [CHR 0xE6, CHR 0x9C, CHR 0xAC, CHR 0xE5, CHR 0x9C, CHR 0xB0,
     CHR 0xE7, CHR 0x9B, CHR 0xB4, CHR 0xE6, CHR 0x8E, CHR 0xA5, CHR 0xE8, CHR 0xB0, CHR 0x83]"

definition comment_register :: string where
  "comment_register = ''  // '' @ [CHR 0xE5, CHR 0xB0, CHR 0x86, CHR 0xE6, CHR 0x9C, CHR 0x8D,
     CHR 0xE5, CHR 0x8A, CHR 0xA1, CHR 0xE6, CHR 0xB3, CHR 0xA8, CHR 0xE5, CHR 0x86, CHR 0x8C]"

definition package_file :: "string \<Rightarrow> ProtoServiceInfo \<Rightarrow> string" where
  "package_file pkg p = unlines
     [ ''package endpoint'', '''', ''import ('', tab @ quoted ''context'',
       tab @ quoted (''github.com/Gong-Yang/GGYYNet/contract/'' @ pkg @ ''C''),
       tab @ quoted ''google.golang.org/grpc'', '')'', '''',
       ''func InitRPC(register grpc.ServiceRegistrar) {'', tab @ ''s := &RPCServer{}'',
       tab @ pkg @ ''C.Client = &localAdapter{server: s}'' @ comment_local,
       tab @ pkg @ ''C.Register'' @ ServiceName p @ ''Server(register, s)'' @ comment_register,
       tab @ ''return'', ''}'', '''',
       ''type localAdapter struct {'', tab @ ''server *RPCServer'', ''}'' ]
     @ concat (List.map adapter_method (Methods p)) @ nl"

section \<open>Files\<close>

type_synonym files = "string \<rightharpoonup> string"

definition service_path :: "string \<Rightarrow> string" where
  "service_path pkg = ''module/'' @ pkg @ ''/endpoint/rpcServer.go''"

definition contract_path :: "string \<Rightarrow> string" where
  "contract_path pkg = ''contract/'' @ pkg @ ''C/contract_gen.go''"

definition package_path :: "string \<Rightarrow> string" where
  "package_path pkg = ''module/'' @ pkg @ ''/endpoint/localAdapter_gen.go''"

definition proto_path :: "string \<Rightarrow> string" where
  "proto_path pkg = ''contract/'' @ pkg @ ''C/'' @ pkg @ ''.proto''"

text \<open>Every file is formatted before it is written; a file that cannot be formatted is not written.\<close>

definition write_formatted :: "(string \<Rightarrow> string option) \<Rightarrow> string \<Rightarrow> string \<Rightarrow> files \<Rightarrow> string + files" where
  "write_formatted fmt path text fs =
     (case fmt text of None \<Rightarrow> Inl ''format'' | Some formatted \<Rightarrow> Inr (fs(path \<mapsto> formatted)))"

datatype recv_expr = StarExpr recv_expr | Ident string | OtherExpr

definition getReceiverType :: "recv_expr \<Rightarrow> string" where
  "getReceiverType t =
     (case t of
        StarExpr (Ident n) \<Rightarrow> ''*'' @ n
      | Ident n \<Rightarrow> n
      | _ \<Rightarrow> '''')"

text \<open>A function of a file: its receiver, if it has one, and its name.\<close>

type_synonym func_decl = "recv_expr option \<times> string"

definition existing_methods :: "func_decl list \<Rightarrow> string set" where
  "existing_methods ds = set (List.map snd (filter (\<lambda>(recv, name).
     case recv of None \<Rightarrow> False | Some t \<Rightarrow> getReceiverType t = ''*RPCServer'') ds))"

definition ensureServiceMethods ::
  "(string \<Rightarrow> string option) \<Rightarrow> (string \<Rightarrow> func_decl list option) \<Rightarrow> string \<Rightarrow> ProtoServiceInfo \<Rightarrow> files
     \<Rightarrow> string + files" where
  "ensureServiceMethods fmt parse pkg p fs =
     (case fs (service_path pkg) of
        None \<Rightarrow> write_formatted fmt (service_path pkg) (base_service pkg p) fs
      | Some content \<Rightarrow>
          (case parse content of
             None \<Rightarrow> Inl ''parse''
           | Some node \<Rightarrow>
               (let missing = filter (\<lambda>m. \<not> Name m \<in> existing_methods node) (Methods p) in
                if length missing > 0
                then write_formatted fmt (service_path pkg) (content @ methods_code missing) fs
                else Inr fs)))"

definition generateContractFile ::
  "(string \<Rightarrow> string option) \<Rightarrow> string \<Rightarrow> ProtoServiceInfo \<Rightarrow> files \<Rightarrow> string + files" where
  "generateContractFile fmt pkg p fs = write_formatted fmt (contract_path pkg) (contract_file pkg p) fs"

definition generatePackageFile ::
  "(string \<Rightarrow> string option) \<Rightarrow> string \<Rightarrow> ProtoServiceInfo \<Rightarrow> files \<Rightarrow> string + files" where
  "generatePackageFile fmt pkg p fs = write_formatted fmt (package_path pkg) (package_file pkg p) fs"

fun split_lines :: "string \<Rightarrow> string list" where
  "split_lines [] = []"
| "split_lines (c # cs) =
     (if c = CHR 0x0A then [] # split_lines cs
      else (case split_lines cs of [] \<Rightarrow> [[c]] | l # ls \<Rightarrow> (c # l) # ls))"

text \<open>The compiler leaves files behind, and an error or none.\<close>

definition generateProtoCode :: "(files \<Rightarrow> string option \<times> files) \<Rightarrow> string \<Rightarrow> files \<Rightarrow> string option \<times> files" where
  "generateProtoCode protoc pkg fs =
     (if fs (proto_path pkg) = None then (Some ''proto file not found'', fs) else protoc fs)"

text \<open>\<open>main\<close>: the first error ends the program with the files as they are then.\<close>

fun gen_steps :: "(files \<Rightarrow> string + files) list \<Rightarrow> files \<Rightarrow> string option \<times> files" where
  "gen_steps [] fs = (None, fs)"
| "gen_steps (f # rest) fs =
     (case f fs of Inl e \<Rightarrow> (Some e, fs) | Inr fs' \<Rightarrow> gen_steps rest fs')"

definition gen_main ::
  "(files \<Rightarrow> string option \<times> files) \<Rightarrow> (string \<Rightarrow> string option) \<Rightarrow> (string \<Rightarrow> func_decl list option)
     \<Rightarrow> string \<Rightarrow> files \<Rightarrow> string option \<times> files" where
  "gen_main protoc fmt parse pkg fs =
     (case generateProtoCode protoc pkg fs of
        (Some e, fs1) \<Rightarrow> (Some e, fs1)
      | (None, fs1) \<Rightarrow>
          (case fs1 (proto_path pkg) of
             None \<Rightarrow> (Some ''open'', fs1)
           | Some text \<Rightarrow>
               (case scanProtoService pkg (split_lines text) of
                  Inl e \<Rightarrow> (Some e, fs1)
                | Inr None \<Rightarrow> (None, fs1)
                | Inr (Some p) \<Rightarrow>
                    gen_steps [ensureServiceMethods fmt parse pkg p, generateContractFile fmt pkg p,
                      generatePackageFile fmt pkg p] fs1)))"

end
