(* ===== verification/Gen_Props.thy ===== *)
theory Gen_Props
  imports Gen
begin

text \<open>
  What the generator reads from a proto file, and what it does to the files when it is run again.
\<close>

section \<open>Reading a service\<close>

lemma word_append:
  "w \<noteq> [] \<Longrightarrow> list_all is_word w \<Longrightarrow> \<not> is_word c \<Longrightarrow> word (w @ c # s) = Some (w, c # s)"
proof -
  assume w: "w \<noteq> []" "list_all is_word w" "\<not> is_word c"
  then have "takeWhile is_word (w @ c # s) = w" "dropWhile is_word (w @ c # s) = c # s"
    by (simp_all add: list_all_iff takeWhile_append2 dropWhile_append2)
  then show ?thesis using w(1) by (cases w) (simp_all add: word_def)
qed

lemma word_not_space: "is_word c \<Longrightarrow> \<not> is_space c"
  by (auto simp: is_word_def is_space_def)

lemma ws_word: "w \<noteq> [] \<Longrightarrow> list_all is_word w \<Longrightarrow> ws (w @ s) = w @ s"
  by (cases w) (auto simp: ws_def word_not_space)

lemma ws_Cons [simp]: "\<not> is_space c \<Longrightarrow> ws (c # s) = c # s"
  by (simp add: ws_def)

lemma ws_space [simp]: "is_space c \<Longrightarrow> ws (c # s) = ws s"
  by (simp add: ws_def)

lemma separators [simp]:
  "\<not> is_word CHR ''('' \<and> \<not> is_word CHR '')'' \<and> \<not> is_word CHR '' ''"
  "\<not> is_space CHR ''('' \<and> \<not> is_space CHR '')'' \<and> is_space CHR '' '' \<and> is_space CHR 0x09"
  "\<not> is_space CHR ''r'' \<and> \<not> is_space CHR ''s'' \<and> \<not> is_space CHR '';'' \<and> \<not> is_space CHR ''{''"
  "\<not> is_space CHR ''}''"
  by (simp_all add: is_word_def is_space_def)

definition name_ok :: "string \<Rightarrow> bool" where
  "name_ok w \<longleftrightarrow> w \<noteq> [] \<and> list_all is_word w"

lemma parens_name:
  "name_ok w \<Longrightarrow> parens (CHR ''('' # w @ CHR '')'' # s) = Some (w, s)"
  by (simp add: parens_def name_ok_def ws_word word_append)

lemma parens_space [simp]: "parens (CHR '' '' # s) = parens s"
  by (simp add: parens_def)

text \<open>The line of a method as one writes it, without options.\<close>

definition rpc_line :: "string \<times> string \<times> string \<Rightarrow> string" where
  "rpc_line m = (case m of (name, param, ret) \<Rightarrow>
     ''rpc '' @ name @ ''('' @ param @ '') returns ('' @ ret @ '');'')"

definition service_line :: "string \<Rightarrow> string" where
  "service_line name = ''service '' @ name @ '' {''"

definition method_ok :: "string \<times> string \<times> string \<Rightarrow> bool" where
  "method_ok m \<longleftrightarrow> (case m of (name, param, ret) \<Rightarrow> name_ok name \<and> name_ok param \<and> name_ok ret)"

lemma match_rpc_line: "method_ok m \<Longrightarrow> match_rpc (rpc_line m) = Some m"
  by (cases m) (simp add: match_rpc_def rpc_line_def method_ok_def ws1_def parens_name,
      simp add: name_ok_def ws_word word_append parens_name)

lemma match_service_line: "name_ok name \<Longrightarrow> match_service (service_line name) = Some name"
  by (simp add: match_service_def service_line_def name_ok_def ws1_def ws_word word_append)

lemma not_service_rpc: "match_service (rpc_line m) = None"
  by (cases m) (simp add: match_service_def rpc_line_def)

lemma trimSpace_id:
  "s \<noteq> [] \<Longrightarrow> \<not> is_space (hd s) \<Longrightarrow> \<not> is_space (last s) \<Longrightarrow>
   (of_char (hd s) :: nat) \<noteq> 11 \<Longrightarrow> (of_char (last s) :: nat) \<noteq> 11 \<Longrightarrow> trimSpace (replicate n CHR 0x09 @ s) = s"
proof -
  assume s: "s \<noteq> []" "\<not> is_space (hd s)" "\<not> is_space (last s)"
    "(of_char (hd s) :: nat) \<noteq> 11" "(of_char (last s) :: nat) \<noteq> 11"
  let ?sp = "\<lambda>c. is_space c \<or> (of_char c :: nat) = 11"
  have drop: "dropWhile ?sp (replicate n CHR 0x09 @ s) = s"
    using s by (induction n) (cases s, auto)
  have "dropWhile ?sp (rev s) = rev s"
    using s by (cases s rule: rev_cases) auto
  then show ?thesis by (simp add: trimSpace_def Let_def drop)
qed

lemma last_append_Cons: "last (xs @ [c]) = c"
  by simp

lemma trim_lines [simp]:
  "trimSpace (replicate n CHR 0x09 @ rpc_line m) = rpc_line m"
  "trimSpace (service_line name) = service_line name"
  "trimSpace ''}'' = ''}''"
proof -
  obtain a b c where m: "m = (a, b, c)" by (cases m)
  have r: "rpc_line m = CHR ''r'' # (''pc '' @ a @ ''('' @ b @ '') returns ('' @ c @ '')'') @ [CHR '';'']"
    by (simp add: m rpc_line_def)
  show "trimSpace (replicate n CHR 0x09 @ rpc_line m) = rpc_line m"
    by (rule trimSpace_id) (simp_all add: r)
  have "service_line name = CHR ''s'' # (''ervice '' @ name @ '' '') @ [CHR ''{'']"
    by (simp add: service_line_def)
  then show "trimSpace (service_line name) = service_line name"
    using trimSpace_id [of "service_line name" 0] by simp
  show "trimSpace ''}'' = ''}''" using trimSpace_id [of "''}''" 0] by simp
qed

lemma scan_rpcs:
  assumes "\<forall>m \<in> set ms. method_ok m"
  shows "scan_loop pkg (List.map (\<lambda>m. replicate n CHR 0x09 @ rpc_line m) ms @ ''}'' # post) name acc True =
    (name, acc @ List.map (method_info pkg) ms, True)"
  using assms
proof (induction ms arbitrary: acc)
  case Nil
  have "match_service ''}'' = None" by (simp add: match_service_def)
  then show ?case by (simp add: Let_def)
next
  case (Cons m ms)
  have "lit ''//'' (rpc_line m) = None" "lit ''/*'' (rpc_line m) = None"
    by (cases m; simp add: rpc_line_def)+
  moreover have "rpc_line m \<noteq> ''}''" by (cases m) (simp add: rpc_line_def)
  ultimately show ?case using Cons by (simp add: Let_def not_service_rpc match_rpc_line)
qed

text \<open>Lines before the service: comments, or anything the expression for services does not match.\<close>

definition before_service :: "string \<Rightarrow> bool" where
  "before_service text \<longleftrightarrow> (let line = trimSpace text in
     lit ''//'' line \<noteq> None \<or> lit ''/*'' line \<noteq> None \<or> match_service line = None)"

lemma scan_before:
  "list_all before_service pre \<Longrightarrow> scan_loop pkg (pre @ rest) name acc False = scan_loop pkg rest name acc False"
  by (induction pre) (auto simp: before_service_def Let_def)

text \<open>
  C34: The generator reads back what one writes: from a proto file with anything but a service first,
  then a service of any name with one method per line, indented by tabs, and a closing brace on its own
  line, whatever follows, \<open>scanProtoService\<close> returns the service and all its methods in order, with
  their types qualified by the package of the contract. No line of that part may be of 64 kB or more.
\<close>

theorem scan_reads_service:
  assumes "list_all before_service pre" "name_ok name" "\<forall>m \<in> set ms. method_ok m"
    and "file = pre @ service_line name # List.map (\<lambda>m. replicate n CHR 0x09 @ rpc_line m) ms @ [''}'']"
    and "list_all fits file"
  shows "scanProtoService pkg (file @ post) =
    Inr (Some \<lparr>ServiceName = name, Methods = List.map (method_info pkg) ms\<rparr>)"
proof -
  have lines: "takeWhile fits (file @ post) = file @ takeWhile fits post"
    using assms(5) by (simp add: list_all_iff)
  have "lit ''//'' (service_line name) = None" "lit ''/*'' (service_line name) = None"
    by (simp_all add: service_line_def)
  then show ?thesis
    unfolding scanProtoService_def lines
    using assms(1,2,4) scan_rpcs [OF assms(3), of pkg n "takeWhile fits post" name "[]"]
    by (simp add: scan_before match_service_line Let_def name_ok_def)
qed

theorem scan_reads_service_witness:
  "scanProtoService ''agent'' [''syntax = proto3;'', ''// service Old {'', ''service Agent {'',
      CHR 0x09 # ''rpc Ask(Question) returns (Answer);'', ''}''] =
    Inr (Some \<lparr>ServiceName = ''Agent'', Methods = [\<lparr>Name = ''Ask'', ParamType = ''*agentC.Question'',
      ReturnType = ''*agentC.Answer''\<rparr>]\<rparr>)"
proof -
  have pre: "list_all before_service [''syntax = proto3;'', ''// service Old {'']"
    by (simp add: before_service_def trimSpace_def is_space_def match_service_def ws_def Let_def)
  have ok: "name_ok ''Agent''" "\<forall>m \<in> set [(''Ask'', ''Question'', ''Answer'')]. method_ok m"
    by (simp_all add: name_ok_def method_ok_def is_word_def)
  show ?thesis
    using scan_reads_service [OF pre ok refl, of "Suc 0" "''agent''" "[]"]
    by (simp add: service_line_def rpc_line_def method_info_def fits_def)
qed

text \<open>
  A method with options closes with a brace on its own line, which the scanner takes for the end of the
  service: the methods after it are not generated.
\<close>

lemma options_end_the_service:
  "scanProtoService ''agent'' [''service Agent {'', ''rpc Ask(Q) returns (A) {'', ''option x = 1;'', ''}'',
      ''rpc Tell(Q) returns (A);'', ''}''] =
    Inr (Some \<lparr>ServiceName = ''Agent'', Methods = [method_info ''agent'' (''Ask'', ''Q'', ''A'')]\<rparr>)"
  by (simp add: scanProtoService_def fits_def trimSpace_def is_space_def match_service_def match_rpc_def parens_def
      ws_def ws1_def word_def is_word_def Let_def)

section \<open>Running the generator again\<close>

text \<open>
  What is documented of the tools: formatting a file keeps its declarations; text appended to a file
  that parses, if it is a list of functions, adds those functions; the template is a file of Go. All
  that of the methods of one service, whose names are names of functions in Go as well.
\<close>

definition stub_decls :: "MethodInfo list \<Rightarrow> func_decl list" where
  "stub_decls ms = List.map (\<lambda>m. (Some (StarExpr (Ident ''RPCServer'')), Name m)) ms"

definition go_tools_ok ::
  "(string \<Rightarrow> string option) \<Rightarrow> (string \<Rightarrow> func_decl list option) \<Rightarrow> string \<Rightarrow> ProtoServiceInfo \<Rightarrow> bool" where
  "go_tools_ok fmt parse pkg p \<longleftrightarrow>
     (\<forall>text out. fmt text = Some out \<longrightarrow> parse out = parse text) \<and>
     (\<forall>text ds ms. parse text = Some ds \<longrightarrow> set ms \<subseteq> set (Methods p) \<longrightarrow>
        parse (text @ methods_code ms) = Some (ds @ stub_decls ms)) \<and>
     parse (base_service pkg p) = Some (stub_decls (Methods p))"

lemma existing_methods_append [simp]:
  "existing_methods (ds @ es) = existing_methods ds \<union> existing_methods es"
  by (simp add: existing_methods_def)

lemma existing_stub_decls [simp]: "existing_methods (stub_decls ms) = Name ` set ms"
  by (induction ms) (auto simp: existing_methods_def stub_decls_def getReceiverType_def)

definition implements :: "(string \<Rightarrow> func_decl list option) \<Rightarrow> string \<Rightarrow> string set \<Rightarrow> bool" where
  "implements parse content names \<longleftrightarrow>
     (\<exists>node. parse content = Some node \<and> names \<subseteq> existing_methods node)"

lemma ensure_cases:
  assumes "go_tools_ok fmt parse pkg p" "ensureServiceMethods fmt parse pkg p fs = Inr fs'"
  obtains content where "fs' = fs(service_path pkg \<mapsto> content)"
    "implements parse content (Name ` set (Methods p))"
    "\<forall>old node. fs (service_path pkg) = Some old \<longrightarrow> parse old = Some node \<longrightarrow>
       implements parse content (existing_methods node)"
proof (cases "fs (service_path pkg)")
  case None
  with assms(2) obtain out where out: "fmt (base_service pkg p) = Some out"
      "fs' = fs(service_path pkg \<mapsto> out)"
    by (auto simp: ensureServiceMethods_def write_formatted_def split: option.splits)
  with assms(1) have "parse out = Some (stub_decls (Methods p))" by (auto simp: go_tools_ok_def)
  with that [OF out(2)] None show ?thesis by (simp add: implements_def)
next
  case (Some old)
  with assms(2) obtain node where node: "parse old = Some node"
    by (auto simp: ensureServiceMethods_def split: option.splits)
  define missing where "missing = filter (\<lambda>m. \<not> Name m \<in> existing_methods node) (Methods p)"
  have missing: "set missing \<subseteq> set (Methods p)"
    "Name ` set (Methods p) \<subseteq> existing_methods node \<union> Name ` set missing"
    by (auto simp: missing_def)
  show ?thesis
  proof (cases "missing = []")
    case True
    with assms(2) Some node have "fs' = fs"
      by (simp add: ensureServiceMethods_def missing_def)
    with Some have "fs' = fs(service_path pkg \<mapsto> old)" by auto
    then show ?thesis using True missing(2) Some node by (intro that) (auto simp: implements_def)
  next
    case False
    with assms(2) Some node obtain out where out: "fmt (old @ methods_code missing) = Some out"
        "fs' = fs(service_path pkg \<mapsto> out)"
      by (auto simp: ensureServiceMethods_def missing_def [symmetric] write_formatted_def
          split: option.splits)
    with assms(1) node missing(1) have "parse out = Some (node @ stub_decls missing)"
      by (auto simp: go_tools_ok_def)
    with missing(2) show ?thesis
      using Some node by (intro that [OF out(2)]) (auto simp: implements_def)
  qed
qed

lemma ensure_unchanged:
  assumes "fs (service_path pkg) = Some content" "implements parse content (Name ` set (Methods p))"
  shows "ensureServiceMethods fmt parse pkg p fs = Inr fs"
proof -
  obtain node where "parse content = Some node" "Name ` set (Methods p) \<subseteq> existing_methods node"
    using assms(2) by (auto simp: implements_def)
  moreover from this have "filter (\<lambda>m. \<not> Name m \<in> existing_methods node) (Methods p) = []"
    by (auto simp: filter_empty_conv)
  ultimately show ?thesis using assms(1) by (simp add: ensureServiceMethods_def)
qed

text \<open>
  C24: What \<open>ensureServiceMethods\<close> does to the files, given that the tools of Go do what they promise: if it
  returns without an error then \<open>rpcServer.go\<close> declares every method of the service on \<open>*RPCServer\<close>,
  next to every method it declared before; no other file has changed; and running it again changes
  nothing.
\<close>

theorem generator_adds_missing:
  assumes "go_tools_ok fmt parse pkg p" "ensureServiceMethods fmt parse pkg p fs = Inr fs'"
  shows "\<exists>content. fs' = fs(service_path pkg \<mapsto> content) \<and>
      implements parse content (Name ` set (Methods p)) \<and>
      (\<forall>old node. fs (service_path pkg) = Some old \<longrightarrow> parse old = Some node \<longrightarrow>
         implements parse content (existing_methods node)) \<and>
      ensureServiceMethods fmt parse pkg p fs' = Inr fs'"
proof -
  obtain content where "fs' = fs(service_path pkg \<mapsto> content)"
    "implements parse content (Name ` set (Methods p))"
    "\<forall>old node. fs (service_path pkg) = Some old \<longrightarrow> parse old = Some node \<longrightarrow>
       implements parse content (existing_methods node)"
    using ensure_cases [OF assms] .
  then show ?thesis using ensure_unchanged [of fs' pkg content parse p fmt] by auto
qed

text \<open>An instance: a parser that reads, line by line, the methods of \<open>RPCServer\<close>.\<close>

definition line_decl :: "string \<Rightarrow> func_decl list" where
  "line_decl l = (case lit ''func (s *RPCServer) '' l of
     None \<Rightarrow> []
   | Some r \<Rightarrow> [(Some (StarExpr (Ident ''RPCServer'')), takeWhile is_word r)])"

definition line_parse :: "string \<Rightarrow> func_decl list" where
  "line_parse s = concat (List.map line_decl (split_lines s))"

lemma line_parse_newline: "line_parse (s @ CHR 0x0A # r) = line_parse s @ line_parse r"
proof -
  have "\<exists>k. set k \<subseteq> {[]} \<and> (k \<noteq> [] \<longrightarrow> s = [] \<or> last s = CHR 0x0A) \<and>
      split_lines (s @ CHR 0x0A # r) = split_lines s @ k @ split_lines r"
  proof (induction s)
    case (Cons c s)
    then obtain k where k: "set k \<subseteq> {[]}" "k \<noteq> [] \<longrightarrow> s = [] \<or> last s = CHR 0x0A"
      "split_lines (s @ CHR 0x0A # r) = split_lines s @ k @ split_lines r" by blast
    show ?case
    proof (cases s)
      case Nil
      then show ?thesis using k by (intro exI [of _ "if c = CHR 0x0A then k else []"]) auto
    next
      case (Cons d t)
      then have "split_lines s \<noteq> []" by (cases "split_lines t") auto
      then show ?thesis using k Cons by (intro exI [of _ k]) (auto split: list.splits)
    qed
  qed (intro exI [of _ "[[]]"], simp)
  then obtain k where k: "set k \<subseteq> {[]}" "split_lines (s @ CHR 0x0A # r) = split_lines s @ k @ split_lines r"
    by blast
  have "concat (List.map line_decl k) = []"
    using k(1) by (induction k) (auto simp: line_decl_def)
  with k(2) show ?thesis by (simp add: line_parse_def)
qed

definition ask_service :: ProtoServiceInfo where
  "ask_service = \<lparr>ServiceName = ''Agent'', Methods =
     [\<lparr>Name = ''Ask'', ParamType = ''*aC.Q'', ReturnType = ''*aC.A''\<rparr>]\<rparr>"

lemma line_parse_stub: "m \<in> set (Methods ask_service) \<Longrightarrow> line_parse (method_stub m) = stub_decls [m]"
  by (simp add: ask_service_def method_stub_def unlines_def nl_def tab_def quoted_def line_parse_def
      line_decl_def stub_decls_def is_word_def)

lemma line_parse_stubs:
  "set ms \<subseteq> set (Methods ask_service) \<Longrightarrow> line_parse (s @ methods_code ms) = line_parse s @ stub_decls ms"
proof (induction ms arbitrary: s)
  case (Cons m ms)
  have "\<exists>r. method_stub m = CHR 0x0A # r" by (simp add: method_stub_def unlines_def nl_def)
  then obtain r where r: "method_stub m = CHR 0x0A # r" ..
  have "line_parse (method_stub m) = line_parse r"
    using line_parse_newline [of "[]" r] by (simp add: r line_parse_def)
  then have "line_parse (s @ method_stub m) = line_parse s @ stub_decls [m]"
    using Cons.prems line_parse_stub [of m] by (simp add: r line_parse_newline)
  then show ?case
    using Cons.IH [of "s @ method_stub m"] Cons.prems by (simp add: methods_code_def stub_decls_def)
qed (simp add: methods_code_def stub_decls_def)

lemma line_tools_ok: "go_tools_ok Some (Some \<circ> line_parse) ''a'' ask_service"
proof -
  have "line_parse (base_service ''a'' ask_service) = stub_decls (Methods ask_service)"
    by (simp add: ask_service_def base_service_def method_stub_def unlines_def nl_def tab_def quoted_def
        line_parse_def line_decl_def stub_decls_def is_word_def)
  then show ?thesis by (simp add: go_tools_ok_def line_parse_stubs)
qed

theorem generator_adds_missing_witness:
  "\<exists>content. ensureServiceMethods Some (Some \<circ> line_parse) ''a'' ask_service
      [service_path ''a'' \<mapsto> ''func (s *RPCServer) Tell() {}''] = Inr [service_path ''a'' \<mapsto> content] \<and>
    implements (Some \<circ> line_parse) content {''Ask''} \<and> implements (Some \<circ> line_parse) content {''Tell''}"
proof -
  let ?old = "''func (s *RPCServer) Tell() {}''"
  let ?fs = "[service_path ''a'' \<mapsto> ?old]"
  have node: "line_parse ?old = [(Some (StarExpr (Ident ''RPCServer'')), ''Tell'')]"
    by (simp add: line_parse_def line_decl_def is_word_def)
  then have names: "existing_methods (line_parse ?old) = {''Tell''}"
    by (simp add: existing_methods_def getReceiverType_def)
  have run: "ensureServiceMethods Some (Some \<circ> line_parse) ''a'' ask_service ?fs =
      Inr (?fs(service_path ''a'' \<mapsto> ?old @ methods_code (Methods ask_service)))"
    by (simp add: ensureServiceMethods_def names write_formatted_def ask_service_def)
  show ?thesis
    using generator_adds_missing [OF line_tools_ok run] names run
    by (auto simp: ask_service_def implements_def)
qed

section \<open>The whole program\<close>

lemma write_formatted_frame:
  "write_formatted fmt path text fs = Inr fs' \<Longrightarrow> q \<noteq> path \<Longrightarrow> fs' q = fs q"
  by (auto simp: write_formatted_def split: option.splits)

lemma ensure_frame:
  "ensureServiceMethods fmt parse pkg p fs = Inr fs' \<Longrightarrow> q \<noteq> service_path pkg \<Longrightarrow> fs' q = fs q"
  by (auto simp: ensureServiceMethods_def Let_def write_formatted_frame split: option.splits if_splits)

lemma gen_steps_frame:
  assumes "\<forall>f \<in> set steps. \<forall>fs fs'. f fs = Inr fs' \<longrightarrow> fs' q = fs q"
  shows "snd (gen_steps steps fs) q = fs q"
  using assms
proof (induction steps fs rule: gen_steps.induct)
  case (2 f rest fs)
  show ?case
  proof (cases "f fs")
    case (Inr fs')
    with 2 have "snd (gen_steps rest fs') q = fs' q" "fs' q = fs q" by auto
    with Inr show ?thesis by simp
  qed simp
qed simp

text \<open>
  Besides what \<open>protoc\<close> does, a run of the program changes three files at most, whatever it returns; and
  if it returns without an error and there is a service, the two generated files have the text of
  their templates, formatted, and \<open>rpcServer.go\<close> is as \<open>ensureServiceMethods\<close> leaves it.
\<close>

theorem gen_main_writes_its_files:
  "q \<notin> {service_path pkg, contract_path pkg, package_path pkg} \<Longrightarrow>
    snd (gen_main protoc fmt parse pkg fs) q = snd (generateProtoCode protoc pkg fs) q"
  "gen_main protoc fmt parse pkg fs = (None, fs') \<Longrightarrow> generateProtoCode protoc pkg fs = (None, fs1) \<Longrightarrow>
    fs1 (proto_path pkg) = Some text \<Longrightarrow> scanProtoService pkg (split_lines text) = Inr (Some p) \<Longrightarrow>
    \<exists>fs2 contract package. ensureServiceMethods fmt parse pkg p fs1 = Inr fs2 \<and>
      fmt (contract_file pkg p) = Some contract \<and> fmt (package_file pkg p) = Some package \<and>
      fs' = fs2(contract_path pkg \<mapsto> contract, package_path pkg \<mapsto> package)"
proof -
  have frame: "\<forall>f \<in> set [ensureServiceMethods fmt parse pkg p, generateContractFile fmt pkg p,
      generatePackageFile fmt pkg p]. \<forall>fs fs'. f fs = Inr fs' \<longrightarrow> fs' q = fs q"
    if "q \<notin> {service_path pkg, contract_path pkg, package_path pkg}" for q p
    using that by (auto simp: generateContractFile_def generatePackageFile_def write_formatted_frame ensure_frame)
  show "q \<notin> {service_path pkg, contract_path pkg, package_path pkg} \<Longrightarrow>
    snd (gen_main protoc fmt parse pkg fs) q = snd (generateProtoCode protoc pkg fs) q"
    by (simp add: gen_main_def gen_steps_frame [OF frame] del: gen_steps.simps split: prod.split option.split sum.split)
  show "gen_main protoc fmt parse pkg fs = (None, fs') \<Longrightarrow> generateProtoCode protoc pkg fs = (None, fs1) \<Longrightarrow>
    fs1 (proto_path pkg) = Some text \<Longrightarrow> scanProtoService pkg (split_lines text) = Inr (Some p) \<Longrightarrow>
    \<exists>fs2 contract package. ensureServiceMethods fmt parse pkg p fs1 = Inr fs2 \<and>
      fmt (contract_file pkg p) = Some contract \<and> fmt (package_file pkg p) = Some package \<and>
      fs' = fs2(contract_path pkg \<mapsto> contract, package_path pkg \<mapsto> package)"
    by (auto simp: gen_main_def generateContractFile_def generatePackageFile_def write_formatted_def
        split: sum.splits option.splits)
qed

end
