(* ===== verification/Worker_Pool.thy ===== *)
theory Worker_Pool
  imports Go_Prelude "HOL-Library.Multiset"
begin

text \<open>
  \<open>syncx/go.go\<close>, the goroutine helpers and the worker pool, and \<open>syncx/map.go\<close>.

  The channel of the pool is unbuffered, so a send and the receive of a worker are one step; a send on
  a closed channel panics in the goroutine that sends. The other steps are the statements of
  \<open>worker\<close>, \<open>Submit\<close> and \<open>Close\<close>. A task is opaque: it returns, panics, or never does either.
\<close>

section \<open>GOSafe and GoSafeWg\<close>

text \<open>What the goroutine does to the rest of the process, besides the effects of \<open>f\<close> itself.\<close>

datatype go_effect = Log_Panic string | Wg_Done

definition GOSafe :: "unit outcome \<Rightarrow> go_effect list" where
  "GOSafe f = (case f of Return _ \<Rightarrow> [] | Panic r \<Rightarrow> [Log_Panic r])"

definition GoSafeWg :: "unit outcome \<Rightarrow> go_effect list" where
  "GoSafeWg f = (case f of Return _ \<Rightarrow> [] | Panic r \<Rightarrow> [Log_Panic r]) @ [Wg_Done]"

lemma GoSafeWg_always_done: "count_list (GoSafeWg f) Wg_Done = 1" "count_list (GOSafe f) Wg_Done = 0"
  by (simp_all add: GoSafeWg_def GOSafe_def split: outcome.split)

section \<open>The typed map\<close>

type_synonym 'a any_map = "string \<rightharpoonup> 'a"

definition map_Store :: "'a any_map \<Rightarrow> string \<Rightarrow> 'a \<Rightarrow> 'a any_map" where
  "map_Store m key value = m(key \<mapsto> value)"

text \<open>Only \<open>Store\<close> of the same type writes to the map, so the assertion \<open>v.(T)\<close> holds.\<close>

definition map_Load :: "'a \<Rightarrow> 'a any_map \<Rightarrow> string \<Rightarrow> 'a \<times> bool" where
  "map_Load zero m key = (case m key of None \<Rightarrow> (zero, False) | Some v \<Rightarrow> (v, True))"

lemma map_Load_Store:
  "map_Load zero (map_Store m key value) key' = (if key' = key then (value, True) else map_Load zero m key')"
  by (simp add: map_Load_def map_Store_def)

section \<open>The worker pool\<close>

datatype 'task worker =
    Idle
  | Running 'task
  | Finished 'task   \<comment> \<open>\<open>task()\<close> has returned, \<open>wg.Done()\<close> is next\<close>
  | Gone             \<comment> \<open>the goroutine has ended\<close>

text \<open>
  \<open>wg\<close> is the counter of the \<open>WaitGroup\<close>, \<open>sending\<close> the tasks whose \<open>Submit\<close> is at the channel. The
  last four fields record what has happened: the tasks that were submitted, that were done, that
  panicked, and whose \<open>Submit\<close> panicked on the closed channel.
\<close>

record 'task pool =
  wg :: nat
  tasks_closed :: bool
  workers :: "'task worker list"
  sending :: "'task list"
  submitted :: "'task list"
  completed :: "'task list"
  panicked :: "'task list"
  refused :: "'task list"

definition NewWorkerPool :: "nat \<Rightarrow> 'task pool" where
  "NewWorkerPool n =
     \<lparr>wg = 0, tasks_closed = False, workers = replicate n Idle, sending = [],
      submitted = [], completed = [], panicked = [], refused = []\<rparr>"

text \<open>\<open>Submit\<close> up to the channel; \<open>receive\<close> is its send together with the receive of worker \<open>i\<close>.\<close>

definition Submit :: "'task \<Rightarrow> 'task pool \<Rightarrow> 'task pool" where
  "Submit task p = p\<lparr>wg := wg p + 1, sending := sending p @ [task], submitted := submitted p @ [task]\<rparr>"

definition receive :: "nat \<Rightarrow> 'task \<Rightarrow> 'task pool \<Rightarrow> 'task pool" where
  "receive i task p = p\<lparr>workers := (workers p)[i := Running task], sending := remove1 task (sending p)\<rparr>"

definition send_panics :: "'task \<Rightarrow> 'task pool \<Rightarrow> 'task pool" where
  "send_panics task p = p\<lparr>sending := remove1 task (sending p), refused := refused p @ [task]\<rparr>"

definition task_returns :: "nat \<Rightarrow> 'task \<Rightarrow> 'task pool \<Rightarrow> 'task pool" where
  "task_returns i task p = p\<lparr>workers := (workers p)[i := Finished task]\<rparr>"

definition wg_done :: "nat \<Rightarrow> 'task \<Rightarrow> 'task pool \<Rightarrow> 'task pool" where
  "wg_done i task p = p\<lparr>wg := wg p - 1, workers := (workers p)[i := Idle], completed := completed p @ [task]\<rparr>"

text \<open>A panic leaves the loop of the worker; \<open>GOSafe\<close> logs it and the goroutine is gone.\<close>

definition task_panics :: "nat \<Rightarrow> 'task \<Rightarrow> 'task pool \<Rightarrow> 'task pool" where
  "task_panics i task p = p\<lparr>workers := (workers p)[i := Gone], panicked := panicked p @ [task]\<rparr>"

definition pool_Close :: "'task pool \<Rightarrow> 'task pool outcome" where
  "pool_Close p =
     (if tasks_closed p then Panic ''close of closed channel'' else Return (p\<lparr>tasks_closed := True\<rparr>))"

definition range_ends :: "nat \<Rightarrow> 'task pool \<Rightarrow> 'task pool" where
  "range_ends i p = p\<lparr>workers := (workers p)[i := Gone]\<rparr>"

text \<open>\<open>Wait\<close> returns exactly in the states where the counter is zero.\<close>

definition wait_returns :: "'task pool \<Rightarrow> bool" where
  "wait_returns p \<longleftrightarrow> wg p = 0"

text \<open>
  \<open>work\<close> are the steps the pool takes by itself while every task returns; the other steps are those of
  its clients, of panics, and of a closed channel.
\<close>

inductive work :: "'task pool \<Rightarrow> 'task pool \<Rightarrow> bool" where
  w_receive: "i < length (workers p) \<Longrightarrow> workers p ! i = Idle \<Longrightarrow> task \<in> set (sending p) \<Longrightarrow>
    \<not> tasks_closed p \<Longrightarrow> work p (receive i task p)"
| w_return: "i < length (workers p) \<Longrightarrow> workers p ! i = Running task \<Longrightarrow> work p (task_returns i task p)"
| w_done: "i < length (workers p) \<Longrightarrow> workers p ! i = Finished task \<Longrightarrow> work p (wg_done i task p)"

inductive pool_step :: "'task pool \<Rightarrow> 'task pool \<Rightarrow> bool" where
  p_work: "work p q \<Longrightarrow> pool_step p q"
| p_submit: "pool_step p (Submit task p)"
| p_panic: "i < length (workers p) \<Longrightarrow> workers p ! i = Running task \<Longrightarrow> pool_step p (task_panics i task p)"
| p_refuse: "tasks_closed p \<Longrightarrow> task \<in> set (sending p) \<Longrightarrow> pool_step p (send_panics task p)"
| p_close: "pool_Close p = Return q \<Longrightarrow> pool_step p q"
| p_end: "i < length (workers p) \<Longrightarrow> workers p ! i = Idle \<Longrightarrow> tasks_closed p \<Longrightarrow> pool_step p (range_ends i p)"


lemmas pool_defs = Submit_def receive_def send_panics_def task_returns_def wg_done_def task_panics_def
  pool_Close_def range_ends_def

section \<open>Accounting\<close>

fun in_hand :: "'task worker \<Rightarrow> 'task multiset" where
  "in_hand Idle = {#}"
| "in_hand (Running t) = {#t#}"
| "in_hand (Finished t) = {#t#}"
| "in_hand Gone = {#}"

definition busy :: "'task pool \<Rightarrow> 'task multiset" where
  "busy p = sum_list (List.map in_hand (workers p))"

lemma sum_list_update_mset:
  fixes f :: "'a \<Rightarrow> 'b multiset"
  shows "i < length xs \<Longrightarrow> sum_list (List.map f (xs[i := x])) + f (xs ! i) = sum_list (List.map f xs) + f x"
  by (induction xs arbitrary: i) (auto split: nat.splits simp: ac_simps)

lemma busy_update:
  "i < length (workers p) \<Longrightarrow>
    sum_list (List.map in_hand ((workers p)[i := w])) + in_hand (workers p ! i) = busy p + in_hand w"
  by (simp add: busy_def sum_list_update_mset)

definition pool_inv :: "'task pool \<Rightarrow> bool" where
  "pool_inv p \<longleftrightarrow>
     mset (submitted p) = mset (sending p) + busy p + mset (completed p) + mset (panicked p) + mset (refused p) \<and>
     wg p + length (completed p) = length (submitted p) \<and>
     (refused p \<noteq> [] \<longrightarrow> tasks_closed p)"

lemma pool_inv_init: "pool_inv (NewWorkerPool n)"
proof -
  have "sum_list (replicate n {#}) = ({#} :: 'a multiset)" by (induction n) simp_all
  then show ?thesis by (simp add: pool_inv_def NewWorkerPool_def busy_def)
qed

lemma in_hand_le_busy: "i < length (workers p) \<Longrightarrow> in_hand (workers p ! i) \<subseteq># busy p"
  using busy_update [of i p Gone] by (metis add.right_neutral in_hand.simps(4) mset_subset_eq_add_right)

text \<open>Every step exchanges what worker \<open>i\<close> has in hand.\<close>

lemma busy_exchange:
  assumes "i < length (workers p)" "workers q = (workers p)[i := w]"
  shows "busy q + in_hand (workers p ! i) = busy p + in_hand w"
  using busy_update [OF assms(1), of w] assms(2) by (simp add: busy_def)

lemma work_inv: "work p q \<Longrightarrow> pool_inv p \<Longrightarrow> pool_inv q"
proof (induction rule: work.induct)
  case (w_receive i p task)
  have "busy (receive i task p) = add_mset task (busy p)"
    using busy_exchange [of i p "receive i task p" "Running task"] w_receive by (simp add: receive_def)
  moreover have "mset (sending p) = add_mset task (mset (remove1 task (sending p)))"
    using w_receive by simp
  ultimately show ?case using w_receive by (auto simp: pool_inv_def receive_def)
next
  case (w_return i p task)
  then show ?case
    using busy_exchange [of i p "task_returns i task p" "Finished task"]
    by (simp add: pool_inv_def task_returns_def)
next
  case (w_done i p task)
  have b: "add_mset task (busy (wg_done i task p)) = busy p"
    using busy_exchange [of i p "wg_done i task p" Idle] w_done by (simp add: wg_done_def)
  then have "mset (submitted p) = add_mset task (mset (sending p) + busy (wg_done i task p) +
      mset (completed p) + mset (panicked p) + mset (refused p))"
    using w_done by (simp add: pool_inv_def)
  moreover from arg_cong [OF this, of size] have "length (completed p) < length (submitted p)"
    by simp
  ultimately show ?case using w_done by (simp add: pool_inv_def wg_done_def)
qed

lemma pool_step_inv: "pool_step p q \<Longrightarrow> pool_inv p \<Longrightarrow> pool_inv q"
proof (induction rule: pool_step.induct)
  case (p_panic i p task)
  have "add_mset task (busy (task_panics i task p)) = busy p"
    using busy_exchange [of i p "task_panics i task p" Gone] p_panic by (simp add: task_panics_def)
  then show ?case using p_panic by (auto simp: pool_inv_def task_panics_def)
next
  case (p_end i p)
  then show ?case
    using busy_exchange [of i p "range_ends i p" Gone] by (simp add: pool_inv_def range_ends_def)
next
  case (p_refuse p task)
  have "mset (sending p) = add_mset task (mset (remove1 task (sending p)))"
    using p_refuse by simp
  then show ?case using p_refuse by (auto simp: pool_inv_def send_panics_def busy_def)
qed (auto simp: work_inv, auto simp: pool_inv_def Submit_def pool_Close_def busy_def split: if_splits)

definition pool_init :: "'task pool \<Rightarrow> bool" where
  "pool_init p \<longleftrightarrow> (\<exists>n. p = NewWorkerPool n)"

interpretation pool: transition_invariant pool_init pool_step pool_inv
  by unfold_locales (auto simp: pool_init_def pool_inv_init intro: pool_step_inv)

lemma length_accounting:
  "pool_inv p \<Longrightarrow> wg p = length (sending p) + size (busy p) + length (panicked p) + length (refused p)"
proof -
  assume p: "pool_inv p"
  then have "length (submitted p) =
      size (mset (sending p) + busy p + mset (completed p) + mset (panicked p) + mset (refused p))"
    by (metis pool_inv_def size_mset)
  with p show ?thesis by (simp add: pool_inv_def)
qed

section \<open>Properties\<close>

text \<open>
  C22: \<open>Wait\<close> returns exactly when every task that was submitted has been executed to its end. In every
  interleaving of submitters, workers, panics and \<open>Close\<close>, the counter is zero if and only if the
  tasks done are the tasks submitted, each as often as it was submitted; and no task is ever executed
  more often than it was submitted.
\<close>

theorem wait_means_done:
  assumes "reach pool_init pool_step p"
  shows "(wait_returns p \<longleftrightarrow> mset (completed p) = mset (submitted p)) \<and>
    mset (completed p) + busy p + mset (panicked p) \<subseteq># mset (submitted p)"
proof -
  have inv: "pool_inv p" using pool.inv_reach [OF assms] .
  have eq: "mset (submitted p) =
      mset (sending p) + busy p + mset (completed p) + mset (panicked p) + mset (refused p)"
    using inv by (simp add: pool_inv_def)
  have "mset (completed p) + busy p + mset (panicked p) + (mset (sending p) + mset (refused p)) =
      mset (submitted p)"
    using eq by (simp add: ac_simps)
  then have sub: "mset (completed p) + busy p + mset (panicked p) \<subseteq># mset (submitted p)"
    by (metis mset_subset_eq_add_left)
  have "wait_returns p \<longleftrightarrow> mset (completed p) = mset (submitted p)"
  proof
    assume "wait_returns p"
    then show "mset (completed p) = mset (submitted p)"
      using length_accounting [OF inv] eq by (simp add: wait_returns_def)
  next
    assume "mset (completed p) = mset (submitted p)"
    then show "wait_returns p"
      using inv by (metis add_cancel_right_left pool_inv_def size_mset wait_returns_def)
  qed
  with sub show ?thesis by blast
qed

text \<open>How much the pool has left to do: three steps per waiting task, two per running one, one per finished one.\<close>

fun worker_load :: "'task worker \<Rightarrow> nat" where
  "worker_load Idle = 0"
| "worker_load (Running t) = 2"
| "worker_load (Finished t) = 1"
| "worker_load Gone = 0"

definition load :: "'task pool \<Rightarrow> nat" where
  "load p = 3 * length (sending p) + sum_list (List.map worker_load (workers p))"

lemma sum_list_update_nat:
  fixes f :: "'a \<Rightarrow> nat"
  shows "i < length xs \<Longrightarrow> sum_list (List.map f (xs[i := x])) + f (xs ! i) = sum_list (List.map f xs) + f x"
  by (induction xs arbitrary: i) (auto split: nat.splits)

lemma work_load: "work p q \<Longrightarrow> load q < load p"
proof (induction rule: work.induct)
  case (w_receive i p task)
  then have "length (sending p) = Suc (length (remove1 task (sending p)))"
    by (metis One_nat_def Suc_pred length_pos_if_in_set length_remove1)
  then show ?case
    using w_receive sum_list_update_nat [of i "workers p" worker_load "Running task"]
    by (simp add: load_def receive_def)
next
  case (w_return i p task)
  then show ?case
    using sum_list_update_nat [of i "workers p" worker_load "Finished task"]
    by (simp add: load_def task_returns_def)
next
  case (w_done i p task)
  then show ?case
    using sum_list_update_nat [of i "workers p" worker_load Idle] by (simp add: load_def wg_done_def)
qed

text \<open>While nothing has panicked and the channel is open, no worker has ended.\<close>

definition alive :: "'task pool \<Rightarrow> bool" where
  "alive p \<longleftrightarrow> panicked p = [] \<and> \<not> tasks_closed p"

lemma work_keeps:
  "work p q \<Longrightarrow> panicked q = panicked p \<and> tasks_closed q = tasks_closed p \<and> submitted q = submitted p \<and>
    refused q = refused p \<and> length (workers q) = length (workers p) \<and>
    (Gone \<in> set (workers q) \<longrightarrow> Gone \<in> set (workers p))"
  by (induction rule: work.induct)
    (auto simp: pool_defs dest!: set_update_subset_insert [THEN subsetD])

lemma no_worker_gone:
  "reach pool_init pool_step p \<Longrightarrow> alive p \<Longrightarrow> Gone \<notin> set (workers p)"
proof (induction rule: reach.induct)
  case (reach_init p)
  then show ?case by (auto simp: pool_init_def NewWorkerPool_def)
next
  case (reach_step p q)
  have was_alive: "alive q \<Longrightarrow> alive p"
    using reach_step.hyps(2)
    by (induction rule: pool_step.induct) (auto simp: alive_def pool_defs dest: work_keeps split: if_splits)
  have "Gone \<notin> set (workers p) \<Longrightarrow> Gone \<notin> set (workers q)"
    using reach_step.hyps(2) reach_step.prems
    by (induction rule: pool_step.induct) (auto simp: alive_def pool_defs dest: work_keeps split: if_splits)
  then show ?case using reach_step.IH was_alive reach_step.prems by blast
qed

lemma work_relpow_load: "(work ^^ n) p q \<Longrightarrow> n + load q \<le> load p"
proof (induction n arbitrary: q)
  case (Suc n)
  then obtain r where "(work ^^ n) p r" "work r q" by auto
  with Suc.IH [of r] work_load [of r q] show ?case by simp
qed simp

lemma work_rtranclp_keeps:
  "work\<^sup>*\<^sup>* p q \<Longrightarrow> panicked q = panicked p \<and> tasks_closed q = tasks_closed p \<and>
    submitted q = submitted p \<and> length (workers q) = length (workers p)"
  by (induction rule: rtranclp_induct) (auto dest: work_keeps)

lemma work_reach:
  assumes "reach pool_init pool_step p" "work\<^sup>*\<^sup>* p q"
  shows "reach pool_init pool_step q"
  using assms(2,1) by (induction rule: rtranclp_induct) (auto intro: reach_step p_work)

text \<open>A pool that is alive and can take no step of its own has nothing left to do.\<close>

lemma stuck_is_done:
  assumes "reach pool_init pool_step q" "alive q" "workers q \<noteq> []" "\<forall>r. \<not> work q r"
  shows "wait_returns q"
proof -
  have idle: "w = Idle" if w: "w \<in> set (workers q)" for w
  proof -
    obtain i where i: "i < length (workers q)" "workers q ! i = w" using w by (auto simp: in_set_conv_nth)
    have "w \<noteq> Gone" using no_worker_gone [OF assms(1,2)] w by auto
    then show ?thesis using i assms(4) by (cases w) (auto dest: w_return w_done)
  qed
  have "sending q = []"
  proof (rule ccontr)
    assume "sending q \<noteq> []"
    moreover have "workers q ! 0 = Idle" using idle assms(3) by (cases "workers q") auto
    ultimately show False
      using assms(2,3,4) w_receive [of 0 q "hd (sending q)"] by (auto simp: alive_def)
  qed
  moreover have "busy q = {#}"
  proof -
    have "\<forall>w \<in> set ws. w = Idle \<Longrightarrow> sum_list (List.map in_hand ws) = {#}" for ws :: "'a worker list"
      by (induction ws) auto
    with idle show ?thesis by (simp add: busy_def)
  qed
  moreover have inv: "pool_inv q" using pool.inv_reach [OF assms(1)] .
  moreover have "refused q = []" using inv assms(2) by (auto simp: pool_inv_def alive_def)
  ultimately show ?thesis
    using length_accounting [OF inv] assms(2) by (simp add: wait_returns_def alive_def)
qed

text \<open>
  C10: The pool drains. Take any state in which no task has panicked and the channel is open, of a pool with
  at least one worker, and let the tasks at hand return while nobody submits more. Whatever the order in
  which the workers proceed, there are at most \<open>load p\<close> further steps, and when none is possible any more
  every task that was submitted is done and \<open>Wait\<close> returns.
\<close>

theorem pool_drains:
  assumes "reach pool_init pool_step p" "alive p" "workers p \<noteq> []" "(work ^^ n) p q"
  shows "n \<le> load p \<and>
    ((\<forall>r. \<not> work q r) \<longrightarrow> wait_returns q \<and> mset (completed q) = mset (submitted p))"
proof -
  have pq: "work\<^sup>*\<^sup>* p q" using assms(4) by (rule relpowp_imp_rtranclp)
  note keeps = work_rtranclp_keeps [OF pq]
  have q: "reach pool_init pool_step q" using work_reach [OF assms(1) pq] .
  have "workers q \<noteq> []" "alive q" using keeps assms(2,3) by (auto simp: alive_def)
  then have drained: "(\<forall>r. \<not> work q r) \<longrightarrow> wait_returns q"
    using stuck_is_done [OF q] by blast
  moreover have inv: "pool_inv q" using pool.inv_reach [OF q] .
  then have "wait_returns q \<longrightarrow> mset (completed q) = mset (submitted p)"
    using length_accounting [OF inv] keeps by (simp add: pool_inv_def wait_returns_def)
  ultimately show ?thesis using work_relpow_load [OF assms(4)] by auto
qed

lemma pool_step_panicked: "pool_step p q \<Longrightarrow> length (panicked p) \<le> length (panicked q)"
  by (induction rule: pool_step.induct) (auto simp: pool_defs dest: work_keeps split: if_splits)

text \<open>
  A task that panics blocks \<open>Wait\<close> for ever: \<open>worker\<close> calls \<open>Done\<close> after the task instead of deferring
  it, so from a state in which a task has panicked no sequence of steps leads to one where \<open>Wait\<close> returns.
\<close>

theorem panic_blocks_wait:
  assumes "reach pool_init pool_step p" "panicked p \<noteq> []" "pool_step\<^sup>*\<^sup>* p q"
  shows "\<not> wait_returns q"
proof -
  have "length (panicked p) \<le> length (panicked q)"
    using assms(3) by (induction rule: rtranclp_induct) (auto dest: pool_step_panicked)
  moreover have "pool_inv q"
    using reach_rtranclp [OF assms(1,3)] by (rule pool.inv_reach)
  ultimately show ?thesis
    using length_accounting [of q] assms(2) by (auto simp: wait_returns_def)
qed

section \<open>Instances\<close>

text \<open>One worker, one task: submitted, received, run to its end, or not.\<close>

definition one_submitted :: "nat pool" where
  "one_submitted = receive 0 7 (Submit 7 (NewWorkerPool 1))"

lemma one_submitted_reach: "reach pool_init pool_step one_submitted"
proof -
  have "reach pool_init pool_step (Submit 7 (NewWorkerPool 1))"
    by (rule reach_step [where s = "NewWorkerPool 1"], rule reach_init)
      (auto simp: pool_init_def intro: p_submit)
  moreover have "work (Submit 7 (NewWorkerPool 1)) one_submitted"
    unfolding one_submitted_def by (rule w_receive) (simp_all add: Submit_def NewWorkerPool_def)
  ultimately show ?thesis by (blast intro: reach_step p_work)
qed

definition one_done :: "nat pool" where
  "one_done = wg_done 0 7 (task_returns 0 7 one_submitted)"

lemma one_done_steps: "(work ^^ 2) one_submitted one_done"
proof -
  have "work one_submitted (task_returns 0 7 one_submitted)"
    by (rule w_return) (simp_all add: one_submitted_def pool_defs NewWorkerPool_def)
  moreover have "work (task_returns 0 7 one_submitted) one_done"
    unfolding one_done_def
    by (rule w_done) (simp_all add: one_submitted_def pool_defs NewWorkerPool_def)
  ultimately show ?thesis by (auto simp: numeral_2_eq_2)
qed

lemma one_done_value:
  "one_done = \<lparr>wg = 0, tasks_closed = False, workers = [Idle], sending = [], submitted = [7],
     completed = [7], panicked = [], refused = []\<rparr>"
  by (simp add: one_done_def one_submitted_def pool_defs NewWorkerPool_def)

theorem wait_means_done_witness:
  "wait_returns one_submitted \<longleftrightarrow> mset (completed one_submitted) = mset (submitted one_submitted)"
  using wait_means_done [OF one_submitted_reach] by blast

theorem pool_drains_witness:
  "2 \<le> load one_submitted \<and> wait_returns one_done \<and> completed one_done = [7]"
proof -
  have stuck: "\<forall>r. \<not> work one_done r"
    by (auto simp: one_done_value elim!: work.cases)
  show ?thesis
    using pool_drains [OF one_submitted_reach _ _ one_done_steps] stuck
    by (auto simp: alive_def one_submitted_def pool_defs NewWorkerPool_def one_done_value)
qed

theorem panic_blocks_wait_witness:
  "\<not> wait_returns (task_panics 0 7 one_submitted)"
proof (rule panic_blocks_wait)
  have "pool_step one_submitted (task_panics 0 7 one_submitted)"
    by (rule p_panic) (simp_all add: one_submitted_def pool_defs NewWorkerPool_def)
  then show "reach pool_init pool_step (task_panics 0 7 one_submitted)"
    using one_submitted_reach by (rule reach_step [rotated])
qed (simp_all add: pool_defs)

end
