(* ===== verification/Message_Queue.thy ===== *)
theory Message_Queue
  imports Go_Prelude "HOL-Library.Multiset"
begin

text \<open>
  The message queue of \<open>redisx/mq.go\<close> and the start-up of \<open>redisx/init.go\<close>: publishing, and the loop of
  \<open>Listen\<close> with everything it sends to the server and calls of the user.

  The loop is a function of what the outside answers, round by round: whether \<open>Stop\<close> was called, what
  \<open>XREADGROUP\<close> returned, and for each message what the handler and \<open>XACK\<close> return. Its value is the
  trace of its effects. Parameters: \<open>unmarshal\<close> is \<open>proto.Unmarshal\<close>, \<open>marshal\<close> is \<open>proto.Marshal\<close>.
\<close>

section \<open>The queue\<close>

record mq =
  Stream :: string
  MaxLen :: int
  ready :: bool              \<comment> \<open>\<open>wg\<close>: \<open>init\<close> has been called\<close>
  stopped :: bool            \<comment> \<open>\<open>stopCh\<close> is closed\<close>
  groups :: "string set"

definition NewMq :: "string \<Rightarrow> int \<Rightarrow> mq" where
  "NewMq stream maxLen =
     \<lparr>Stream = stream, MaxLen = maxLen, ready = False, stopped = False, groups = {}\<rparr>"

text \<open>\<open>wg.Done\<close> beyond zero and a second \<open>close\<close> panic.\<close>

definition mq_init :: "mq \<Rightarrow> mq outcome" where
  "mq_init m = (if ready m then Panic ''negative WaitGroup counter'' else Return (m\<lparr>ready := True\<rparr>))"

definition mq_Stop :: "mq \<Rightarrow> mq outcome" where
  "mq_Stop m = (if stopped m then Panic ''close of closed channel'' else Return (m\<lparr>stopped := True\<rparr>))"

text \<open>The values of an entry, as the client hands them out: a string, or what else it may be.\<close>

datatype field = Str string | Other_Value

record xadd_args =
  xadd_Stream :: string
  xadd_Values :: "string \<rightharpoonup> string"
  xadd_MaxLen :: int

definition Publish :: "('msg \<Rightarrow> string + string) \<Rightarrow> (xadd_args \<Rightarrow> string + string) \<Rightarrow> mq \<Rightarrow> 'msg
    \<Rightarrow> xadd_args list \<times> string option" where
  "Publish marshal XAdd m msg =
     (case marshal msg of
        Inl err \<Rightarrow> ([], Some err)
      | Inr data \<Rightarrow>
          (let args = \<lparr>xadd_Stream = Stream m, xadd_Values = [''data'' \<mapsto> data], xadd_MaxLen = MaxLen m\<rparr>
           in case XAdd args of
                Inl err \<Rightarrow> ([args], Some err)
              | Inr messageId \<Rightarrow> ([args], None)))"

section \<open>Listen\<close>

record entry =
  ID :: string
  Values :: "string \<rightharpoonup> field"

datatype 'msg effect =
    XGroupCreate string string        \<comment> \<open>stream and group; it starts behind the last entry\<close>
  | XReadGroup string string string   \<comment> \<open>group, consumer, stream\<close>
  | Handle_Call string 'msg           \<comment> \<open>the handler, under the id of the message as trace id\<close>
  | XAck string string string         \<comment> \<open>stream, group, id\<close>

text \<open>What the user's handler does with a message, and what the server answers to its \<open>XACK\<close>.\<close>

datatype handled = H_Ok | H_Error string | H_Panic string

text \<open>
  One message. The effects, and whether the goroutine goes on: a panic of the handler leaves the loop
  and is logged by \<open>GOSafe\<close>. The answer to \<open>XACK\<close> is only logged.
\<close>

definition process_message ::
  "(string \<Rightarrow> 'msg option) \<Rightarrow> (string \<Rightarrow> 'msg \<Rightarrow> handled) \<Rightarrow> string \<Rightarrow> string \<Rightarrow> entry
     \<Rightarrow> 'msg effect list \<times> bool" where
  "process_message unmarshal handler stream grp msg =
     (case Values msg ''data'' of
        Some (Str str) \<Rightarrow>
          (case unmarshal str of
             None \<Rightarrow> ([], True)
           | Some entity \<Rightarrow>
               (case handler (ID msg) entity of
                  H_Panic r \<Rightarrow> ([Handle_Call (ID msg) entity], False)
                | H_Error err \<Rightarrow> ([Handle_Call (ID msg) entity], True)
                | H_Ok \<Rightarrow> ([Handle_Call (ID msg) entity, XAck stream grp (ID msg)], True)))
      | _ \<Rightarrow> ([], True))"

fun process_messages ::
  "(string \<Rightarrow> 'msg option) \<Rightarrow> (string \<Rightarrow> 'msg \<Rightarrow> handled) \<Rightarrow> string \<Rightarrow> string \<Rightarrow> entry list
     \<Rightarrow> 'msg effect list \<times> bool" where
  "process_messages unmarshal handler stream grp [] = ([], True)"
| "process_messages unmarshal handler stream grp (msg # msgs) =
     (let (es, alive) = process_message unmarshal handler stream grp msg in
      if alive
      then (let (fs, alive') = process_messages unmarshal handler stream grp msgs in (es @ fs, alive'))
      else (es, False))"

text \<open>An answer to \<open>XREADGROUP\<close>: nothing within 20 seconds, an error, or streams with messages.\<close>

datatype reply = Read_Nil | Read_Error string | Read_Streams "entry list list"

record round =
  stop_seen :: bool
  consumer :: string          \<comment> \<open>\<open>ConsumerName\<close> at that moment\<close>
  read_reply :: reply

text \<open>The rounds of the loop; it also ends where the list does, with the process.\<close>

fun listen_loop ::
  "(string \<Rightarrow> 'msg option) \<Rightarrow> (string \<Rightarrow> 'msg \<Rightarrow> handled) \<Rightarrow> string \<Rightarrow> string \<Rightarrow> round list
     \<Rightarrow> 'msg effect list" where
  "listen_loop unmarshal handler stream grp [] = []"
| "listen_loop unmarshal handler stream grp (r # rs) =
     (if stop_seen r then []
      else XReadGroup grp (consumer r) stream #
        (case read_reply r of
           Read_Nil \<Rightarrow> listen_loop unmarshal handler stream grp rs
         | Read_Error err \<Rightarrow> listen_loop unmarshal handler stream grp rs
         | Read_Streams streams \<Rightarrow>
             (let (es, alive) = process_messages unmarshal handler stream grp (concat streams) in
              es @ (if alive then listen_loop unmarshal handler stream grp rs else []))))"

text \<open>
  \<open>Listen\<close>: the group must be new to this queue. The goroutine it starts waits for \<open>init\<close>, creates the
  group (\<open>created\<close> is the error of the server, if any; only an existing group is accepted) and loops.
\<close>

definition listen_goroutine ::
  "(string \<Rightarrow> 'msg option) \<Rightarrow> (string \<Rightarrow> 'msg \<Rightarrow> handled) \<Rightarrow> string \<Rightarrow> string \<Rightarrow> string option \<Rightarrow> round list
     \<Rightarrow> 'msg effect list" where
  "listen_goroutine unmarshal handler stream grp created rs =
     XGroupCreate stream grp #
     (case created of
        None \<Rightarrow> listen_loop unmarshal handler stream grp rs
      | Some err \<Rightarrow>
          (if err = ''BUSYGROUP Consumer Group name already exists''
           then listen_loop unmarshal handler stream grp rs
           else []))"

definition Listen ::
  "(string \<Rightarrow> 'msg option) \<Rightarrow> (string \<Rightarrow> 'msg \<Rightarrow> handled) \<Rightarrow> string \<Rightarrow> mq
     \<Rightarrow> (mq \<times> (bool \<Rightarrow> string option \<Rightarrow> round list \<Rightarrow> 'msg effect list)) outcome" where
  "Listen unmarshal handler grp m =
     (if grp \<in> groups m then Panic (''consumer group exists:'' @ grp)
      else Return
        (m\<lparr>groups := insert grp (groups m)\<rparr>,
         \<lambda>initialised created rs.
           if initialised then listen_goroutine unmarshal handler (Stream m) grp created rs else []))"

section \<open>Start-up\<close>

text \<open>
  \<open>Init\<close>: the client is set and pinged, then every queue is released, and only then the name of the
  consumer is set. The steps are listed one by one since the goroutines of \<open>Listen\<close> run in between.
\<close>

record 'q start_up =
  ConsumerName :: string
  released :: "'q list"
  flights_ready :: bool

datatype 'q init_step = Release 'q | Set_Consumer string | Init_Single_Flight

fun init_run :: "'q init_step \<Rightarrow> 'q start_up \<Rightarrow> 'q start_up" where
  "init_run (Release q) s = s\<lparr>released := released s @ [q]\<rparr>"
| "init_run (Set_Consumer name) s = s\<lparr>ConsumerName := name\<rparr>"
| "init_run Init_Single_Flight s = s\<lparr>flights_ready := True\<rparr>"

definition redis_Init :: "string \<Rightarrow> string option \<Rightarrow> 'q list \<Rightarrow> 'q init_step list outcome" where
  "redis_Init consumerName ping initList =
     (case ping of
        Some err \<Rightarrow> Panic err
      | None \<Rightarrow> Return (List.map Release initList @ [Set_Consumer consumerName, Init_Single_Flight]))"

end
