(* ===== verification/Message_Queue_Props.thy ===== *)
theory Message_Queue_Props
  imports Message_Queue
begin

text \<open>
  What a consumer group can rely on: which messages the loop of \<open>Listen\<close> hands to the handler, which it
  acknowledges, and which stay pending on the server.
\<close>

section \<open>The fate of an entry\<close>

definition decoded :: "(string \<Rightarrow> 'msg option) \<Rightarrow> entry \<Rightarrow> (string \<times> 'msg) option" where
  "decoded unmarshal e =
     (case Values e ''data'' of
        Some (Str str) \<Rightarrow> map_option (Pair (ID e)) (unmarshal str)
      | _ \<Rightarrow> None)"

definition fate :: "(string \<Rightarrow> 'msg option) \<Rightarrow> (string \<Rightarrow> 'msg \<Rightarrow> handled) \<Rightarrow> entry \<Rightarrow> handled option" where
  "fate unmarshal handler e = map_option (\<lambda>(i, m). handler i m) (decoded unmarshal e)"

definition panics :: "(string \<Rightarrow> 'msg option) \<Rightarrow> (string \<Rightarrow> 'msg \<Rightarrow> handled) \<Rightarrow> entry \<Rightarrow> bool" where
  "panics unmarshal handler e \<longleftrightarrow> (case fate unmarshal handler e of Some (H_Panic r) \<Rightarrow> True | _ \<Rightarrow> False)"

definition succeeds :: "(string \<Rightarrow> 'msg option) \<Rightarrow> (string \<Rightarrow> 'msg \<Rightarrow> handled) \<Rightarrow> entry \<Rightarrow> bool" where
  "succeeds unmarshal handler e \<longleftrightarrow> fate unmarshal handler e = Some H_Ok"

fun calls_of :: "'msg effect list \<Rightarrow> (string \<times> 'msg) list" where
  "calls_of [] = []"
| "calls_of (Handle_Call i m # es) = (i, m) # calls_of es"
| "calls_of (XGroupCreate s g # es) = calls_of es"
| "calls_of (XReadGroup g c s # es) = calls_of es"
| "calls_of (XAck s g i # es) = calls_of es"

fun acks_of :: "'msg effect list \<Rightarrow> (string \<times> string \<times> string) list" where
  "acks_of [] = []"
| "acks_of (Handle_Call i m # es) = acks_of es"
| "acks_of (XGroupCreate s g # es) = acks_of es"
| "acks_of (XReadGroup g c s # es) = acks_of es"
| "acks_of (XAck s g i # es) = (s, g, i) # acks_of es"

lemma calls_of_append [simp]: "calls_of (es @ fs) = calls_of es @ calls_of fs"
  by (induction es rule: calls_of.induct) auto

lemma acks_of_append [simp]: "acks_of (es @ fs) = acks_of es @ acks_of fs"
  by (induction es rule: acks_of.induct) auto

text \<open>Entries up to and with the first one whose handler panics.\<close>

fun until :: "('a \<Rightarrow> bool) \<Rightarrow> 'a list \<Rightarrow> 'a list" where
  "until P [] = []"
| "until P (x # xs) = x # (if P x then [] else until P xs)"

lemma until_none: "(\<forall>x \<in> set xs. \<not> P x) \<Longrightarrow> until P (xs @ ys) = xs @ until P ys"
  by (induction xs) auto

lemma until_some: "(\<exists>x \<in> set xs. P x) \<Longrightarrow> until P (xs @ ys) = until P xs"
  by (induction xs) auto

lemma until_split: "xs = until P xs @ drop (length (until P xs)) xs"
  by (induction xs) auto

lemma process_message_fate:
  "process_message unmarshal handler stream grp e = (es, go_on) \<Longrightarrow>
    go_on = (\<not> panics unmarshal handler e) \<and>
    calls_of es = (case decoded unmarshal e of None \<Rightarrow> [] | Some c \<Rightarrow> [c]) \<and>
    acks_of es = (if succeeds unmarshal handler e then [(stream, grp, ID e)] else [])"
  by (auto simp: process_message_def decoded_def fate_def panics_def succeeds_def
      split: option.splits field.splits handled.splits)

lemma process_messages_fate:
  "process_messages unmarshal handler stream grp msgs = (es, go_on) \<Longrightarrow>
    go_on = (\<forall>e \<in> set msgs. \<not> panics unmarshal handler e) \<and>
    calls_of es = List.map_filter (decoded unmarshal) (until (panics unmarshal handler) msgs) \<and>
    acks_of es = List.map (\<lambda>e. (stream, grp, ID e))
      (filter (succeeds unmarshal handler) (until (panics unmarshal handler) msgs))"
proof (induction msgs arbitrary: es go_on)
  case (Cons e msgs)
  obtain fs more where one: "process_message unmarshal handler stream grp e = (fs, more)" by fastforce
  obtain gs rest where others: "process_messages unmarshal handler stream grp msgs = (gs, rest)" by fastforce
  show ?case
    using Cons.prems process_message_fate [OF one] Cons.IH [OF others] one others
    by (cases more) (auto simp: List.map_filter_simps split: option.splits)
qed (simp add: List.map_filter_simps)

text \<open>The entries the server delivers to the loop before it sees that the queue was stopped.\<close>

fun delivered :: "round list \<Rightarrow> entry list" where
  "delivered [] = []"
| "delivered (r # rs) =
     (if stop_seen r then []
      else (case read_reply r of Read_Streams streams \<Rightarrow> concat streams | _ \<Rightarrow> []) @ delivered rs)"

lemma map_filter_append [simp]: "List.map_filter f (xs @ ys) = List.map_filter f xs @ List.map_filter f ys"
  by (simp add: List.map_filter_def)

lemma listen_loop_fate:
  "calls_of (listen_loop unmarshal handler stream grp rs) =
     List.map_filter (decoded unmarshal) (until (panics unmarshal handler) (delivered rs)) \<and>
   acks_of (listen_loop unmarshal handler stream grp rs) =
     List.map (\<lambda>e. (stream, grp, ID e))
       (filter (succeeds unmarshal handler) (until (panics unmarshal handler) (delivered rs)))"
proof (induction rs)
  case (Cons r rs)
  show ?case
  proof (cases "\<exists>streams. \<not> stop_seen r \<and> read_reply r = Read_Streams streams")
    case True
    then obtain streams where r: "\<not> stop_seen r" "read_reply r = Read_Streams streams" by blast
    have app: "until P (concat streams @ delivered rs) =
        (if \<forall>e \<in> set (concat streams). \<not> P e then concat streams @ until P (delivered rs)
         else until P (concat streams))" for P
      using until_none [of "concat streams" P "delivered rs"] until_some [of "concat streams" P "delivered rs"]
      by auto
    obtain es more where one: "process_messages unmarshal handler stream grp (concat streams) = (es, more)"
      by fastforce
    show ?thesis
    proof (cases more)
      case True
      with process_messages_fate [OF one] have "\<forall>e \<in> set (concat streams). \<not> panics unmarshal handler e"
        by simp
      then show ?thesis
        using r one Cons.IH process_messages_fate [OF one] True app until_none [of "concat streams" _ "[]"]
        by simp
    next
      case False
      with process_messages_fate [OF one] have "\<exists>e \<in> set (concat streams). panics unmarshal handler e"
        by simp
      then have u: "until (panics unmarshal handler) (concat streams @ delivered rs) =
          until (panics unmarshal handler) (concat streams)"
        by (rule until_some)
      have "listen_loop unmarshal handler stream grp (r # rs) = XReadGroup grp (consumer r) stream # es"
        using r one False by simp
      then show ?thesis
        using r u process_messages_fate [OF one] by simp
    qed
  qed (use Cons.IH in \<open>auto split: reply.splits\<close>)
qed (simp add: List.map_filter_simps)

text \<open>Every acknowledgement stands right behind the call of the handler that returned without an error.\<close>

fun ack_after_ok :: "(string \<Rightarrow> 'msg \<Rightarrow> handled) \<Rightarrow> (string \<times> 'msg) option \<Rightarrow> 'msg effect list \<Rightarrow> bool" where
  "ack_after_ok handler prev [] \<longleftrightarrow> True"
| "ack_after_ok handler prev (Handle_Call i m # es) \<longleftrightarrow> ack_after_ok handler (Some (i, m)) es"
| "ack_after_ok handler prev (XAck s g j # es) \<longleftrightarrow>
     (case prev of None \<Rightarrow> False | Some (i, m) \<Rightarrow> i = j \<and> handler i m = H_Ok) \<and> ack_after_ok handler None es"
| "ack_after_ok handler prev (XGroupCreate s g # es) \<longleftrightarrow> ack_after_ok handler None es"
| "ack_after_ok handler prev (XReadGroup g c s # es) \<longleftrightarrow> ack_after_ok handler None es"

lemma ack_after_ok_None: "ack_after_ok handler None es \<Longrightarrow> ack_after_ok handler prev es"
  by (cases es; cases "hd es") auto

lemma ack_after_ok_append:
  "ack_after_ok handler prev es \<Longrightarrow> ack_after_ok handler None fs \<Longrightarrow> ack_after_ok handler prev (es @ fs)"
  by (induction handler prev es rule: ack_after_ok.induct) (auto intro: ack_after_ok_None)

lemma process_message_order:
  "ack_after_ok handler None (fst (process_message unmarshal handler stream grp e))"
  by (auto simp: process_message_def split: option.splits field.splits handled.splits)

lemma process_messages_order:
  "ack_after_ok handler None (fst (process_messages unmarshal handler stream grp msgs))"
proof (induction msgs)
  case (Cons e msgs)
  then show ?case
    using process_message_order [of handler unmarshal stream grp e]
    by (auto simp: ack_after_ok_append split: prod.splits)
qed simp

lemma listen_loop_order: "ack_after_ok handler None (listen_loop unmarshal handler stream grp rs)"
proof (induction rs)
  case (Cons r rs)
  then show ?case
    using process_messages_order [of handler unmarshal stream grp]
    by (auto split: reply.splits prod.splits) (metis ack_after_ok_append append_Nil2 fst_conv)+
qed simp

section \<open>Properties\<close>

text \<open>The group exists or could be created, and \<open>init\<close> has released the queue.\<close>

definition group_ok :: "string option \<Rightarrow> bool" where
  "group_ok created \<longleftrightarrow> created \<in> {None, Some ''BUSYGROUP Consumer Group name already exists''}"

text \<open>
  C11: The delivery contract of \<open>Listen\<close>. Whatever the rounds of the loop bring, the handler is called once for
  each entry whose data decodes, in the order of delivery, up to and with the first entry whose handler
  panics; exactly the entries whose handler returned without an error are acknowledged, each right
  behind that call. If the server numbers its entries, what stays pending of those delivered are
  exactly the failed ones, and everything from a panic on.
\<close>

theorem listen_contract:
  assumes "Listen unmarshal handler grp m = Return (m', run)" "group_ok created"
    and "distinct (List.map ID (delivered rs))"
  shows "let processed = until (panics unmarshal handler) (delivered rs); t = run True created rs in
    calls_of t = List.map_filter (decoded unmarshal) processed \<and>
    acks_of t = List.map (\<lambda>e. (Stream m, grp, ID e)) (filter (succeeds unmarshal handler) processed) \<and>
    ack_after_ok handler None t \<and>
    filter (\<lambda>e. (Stream m, grp, ID e) \<notin> set (acks_of t)) (delivered rs) =
      filter (\<lambda>e. \<not> succeeds unmarshal handler e) processed @ drop (length processed) (delivered rs)"
proof -
  define processed where "processed = until (panics unmarshal handler) (delivered rs)"
  define rest where "rest = drop (length processed) (delivered rs)"
  have split: "delivered rs = processed @ rest"
    unfolding processed_def rest_def by (rule until_split)
  have t: "run True created rs = XGroupCreate (Stream m) grp # listen_loop unmarshal handler (Stream m) grp rs"
    using assms(1,2) by (auto simp: Listen_def listen_goroutine_def group_ok_def split: if_splits)
  have acks: "acks_of (run True created rs) =
      List.map (\<lambda>e. (Stream m, grp, ID e)) (filter (succeeds unmarshal handler) processed)"
    using listen_loop_fate [of unmarshal handler "Stream m" grp rs] by (simp add: t processed_def)
  have "filter (\<lambda>e. ID e \<notin> ID ` {e \<in> set processed. succeeds unmarshal handler e}) processed =
      filter (\<lambda>e. \<not> succeeds unmarshal handler e) processed"
    using assms(3) by (intro filter_cong) (auto simp: split distinct_map inj_on_def)
  moreover have "filter (\<lambda>e. ID e \<notin> ID ` {e \<in> set processed. succeeds unmarshal handler e}) rest = rest"
    using assms(3) by (auto simp: split intro!: filter_True)
  ultimately have pending: "filter (\<lambda>e. ID e \<notin> ID ` {e \<in> set processed. succeeds unmarshal handler e})
      (processed @ rest) = filter (\<lambda>e. \<not> succeeds unmarshal handler e) processed @ rest"
    by simp
  have "(Stream m, grp, ID e) \<notin> set (acks_of (run True created rs)) \<longleftrightarrow>
      ID e \<notin> ID ` {e \<in> set processed. succeeds unmarshal handler e}" for e
    by (auto simp: acks)
  note unacked = this
  have "filter (\<lambda>e. (Stream m, grp, ID e) \<notin> set (acks_of (run True created rs))) (delivered rs) =
      filter (\<lambda>e. \<not> succeeds unmarshal handler e) processed @ rest"
    unfolding unacked using pending by (simp add: split)
  then show ?thesis
    using acks listen_loop_fate [of unmarshal handler "Stream m" grp rs] listen_loop_order
    by (simp add: Let_def processed_def [symmetric] rest_def [symmetric] t)
qed

text \<open>Three entries: one is handled, one has no data, the handler fails on the last.\<close>

definition three_rounds :: "round list" where
  "three_rounds =
     [\<lparr>stop_seen = False, consumer = ''n'', read_reply = Read_Streams [[\<lparr>ID = ''1'', Values = [''data'' \<mapsto> Str ''ok'']\<rparr>]]\<rparr>,
      \<lparr>stop_seen = False, consumer = ''n'', read_reply = Read_Nil\<rparr>,
      \<lparr>stop_seen = False, consumer = ''n'', read_reply = Read_Streams
        [[\<lparr>ID = ''2'', Values = Map.empty\<rparr>, \<lparr>ID = ''3'', Values = [''data'' \<mapsto> Str ''no'']\<rparr>]]\<rparr>,
      \<lparr>stop_seen = True, consumer = ''n'', read_reply = Read_Nil\<rparr>]"

definition only_ok :: "string \<Rightarrow> string \<Rightarrow> handled" where
  "only_ok i m = (if m = ''ok'' then H_Ok else H_Error ''no'')"

theorem listen_contract_witness:
  "\<exists>m' run. Listen Some only_ok ''g'' (NewMq ''s'' 10) = Return (m', run) \<and>
    calls_of (run True None three_rounds) = [(''1'', ''ok''), (''3'', ''no'')] \<and>
    acks_of (run True None three_rounds) = [(''s'', ''g'', ''1'')]"
proof -
  obtain m' run where l: "Listen Some only_ok ''g'' (NewMq ''s'' 10) = Return (m', run)"
    by (simp add: Listen_def NewMq_def)
  have "group_ok None" "distinct (List.map ID (delivered three_rounds))"
    by (simp_all add: group_ok_def three_rounds_def)
  from listen_contract [OF l this] l show ?thesis
    by (simp add: Let_def three_rounds_def panics_def succeeds_def fate_def decoded_def only_ok_def
        List.map_filter_simps NewMq_def)
qed

section \<open>Start-up\<close>

text \<open>
  The goroutines of \<open>Listen\<close> run as soon as their queue is released, and \<open>Init\<close> sets the name of the
  consumer after it has released all of them: between the two a listener can read with the old name,
  which is empty at the start.
\<close>

lemma listener_may_lack_name:
  assumes "redis_Init name None qs = Return steps" "q \<in> set qs"
  shows "\<exists>k. q \<in> set (released (fold init_run (take k steps) s)) \<and>
    ConsumerName (fold init_run (take k steps) s) = ConsumerName s"
proof -
  have "fold init_run (List.map Release qs) s = s\<lparr>released := released s @ qs\<rparr>" for qs and s :: "'a start_up"
    by (induction qs arbitrary: s) auto
  then show ?thesis
    using assms by (intro exI [of _ "length qs"]) (auto simp: redis_Init_def)
qed

text \<open>A second \<open>Init\<close>, or a second \<open>Listen\<close> on the same group, panics.\<close>

lemma init_twice: "mq_init m = Return m' \<Longrightarrow> \<exists>r. mq_init m' = Panic r"
  by (auto simp: mq_init_def split: if_splits)

lemma group_once: "Listen unmarshal handler grp m = Return (m', run) \<Longrightarrow> \<exists>r. Listen unmarshal handler' grp m' = Panic r"
  by (auto simp: Listen_def split: if_splits)

end
