(* ===== verification/Util.thy ===== *)
theory Util
  imports Go_Prelude "HOL-Library.Word"
begin

text \<open>
  The small helpers: slices (\<open>util/arrays\<close>), the delayed converter (\<open>util/conv\<close>), short identifiers
  (\<open>util/random/uuid.go\<close>), error codes (\<open>errorx/err.go\<close>) and conversion through JSON (\<open>jsonx\<close>).

  A slice that may be \<open>nil\<close> is an option of a list. Elements are compared with HOL equality: the
  theory is about element types whose \<open>==\<close> is reflexive, which excludes floats that are not numbers.
\<close>

section \<open>Slices\<close>

fun map_loop :: "('a \<Rightarrow> 'b) \<Rightarrow> 'a list \<Rightarrow> 'b list \<Rightarrow> 'b list" where
  "map_loop converter [] result = result"
| "map_loop converter (item # items) result = map_loop converter items (result @ [converter item])"

definition Map :: "'a list option \<Rightarrow> ('a \<Rightarrow> 'b) \<Rightarrow> 'b list option" where
  "Map source converter = (case source of None \<Rightarrow> None | Some xs \<Rightarrow> Some (map_loop converter xs []))"

text \<open>The result and the error.\<close>

fun map_error_loop :: "('a \<Rightarrow> 'e + 'b) \<Rightarrow> 'a list \<Rightarrow> 'b list \<Rightarrow> 'b list option \<times> 'e option" where
  "map_error_loop converter [] result = (Some result, None)"
| "map_error_loop converter (item # items) result =
     (case converter item of
        Inl err \<Rightarrow> (None, Some err)
      | Inr converted \<Rightarrow> map_error_loop converter items (result @ [converted]))"

definition MapWithError :: "'a list option \<Rightarrow> ('a \<Rightarrow> 'e + 'b) \<Rightarrow> 'b list option \<times> 'e option" where
  "MapWithError source converter =
     (case source of None \<Rightarrow> (None, None) | Some xs \<Rightarrow> map_error_loop converter xs [])"

fun map_index_loop :: "(nat \<Rightarrow> 'a \<Rightarrow> 'b) \<Rightarrow> nat \<Rightarrow> 'a list \<Rightarrow> 'b list \<Rightarrow> 'b list" where
  "map_index_loop converter i [] result = result"
| "map_index_loop converter i (item # items) result =
     map_index_loop converter (Suc i) items (result @ [converter i item])"

definition MapWithIndex :: "'a list option \<Rightarrow> (nat \<Rightarrow> 'a \<Rightarrow> 'b) \<Rightarrow> 'b list option" where
  "MapWithIndex source converter =
     (case source of None \<Rightarrow> None | Some xs \<Rightarrow> Some (map_index_loop converter 0 xs []))"

text \<open>The sets are maps to \<open>bool\<close>; a missing key reads as false. A \<open>nil\<close> slice ranges like an empty one.\<close>

fun mark_all :: "'a list \<Rightarrow> ('a \<rightharpoonup> bool) \<Rightarrow> ('a \<rightharpoonup> bool)" where
  "mark_all [] m = m"
| "mark_all (item # items) m = mark_all items (m(item \<mapsto> True))"

definition has_mark :: "('a \<rightharpoonup> bool) \<Rightarrow> 'a \<Rightarrow> bool" where
  "has_mark m x = (case m x of None \<Rightarrow> False | Some b \<Rightarrow> b)"

fun unmarked_loop :: "('a \<rightharpoonup> bool) \<Rightarrow> 'a list \<Rightarrow> 'a list \<Rightarrow> 'a list" where
  "unmarked_loop m [] result = result"
| "unmarked_loop m (item # items) result =
     unmarked_loop m items (if \<not> has_mark m item then result @ [item] else result)"

definition Difference :: "'a list \<Rightarrow> 'a list \<Rightarrow> 'a list" where
  "Difference a b = unmarked_loop (mark_all b Map.empty) a []"

definition SymmetricDifference :: "'a list \<Rightarrow> 'a list \<Rightarrow> 'a list" where
  "SymmetricDifference a b =
     (let aMap = mark_all a Map.empty; bMap = mark_all b Map.empty
      in unmarked_loop aMap b (unmarked_loop bMap a []))"

lemma map_loop_eq: "map_loop f xs acc = acc @ List.map f xs"
  by (induction xs arbitrary: acc) auto

lemma map_index_loop_eq:
  "map_index_loop f i xs acc = acc @ List.map (\<lambda>(j, x). f j x) (List.zip [i..<i + length xs] xs)"
proof (induction xs arbitrary: i acc)
  case (Cons x xs)
  have "[i..<i + length (x # xs)] = i # [Suc i..<Suc i + length xs]"
    using upt_conv_Cons [of i "i + length (x # xs)"] by simp
  with Cons show ?case by simp
qed simp

lemma map_error_loop_eq:
  "map_error_loop f xs acc =
     (case find (\<lambda>x. isl (f x)) xs of
        Some x \<Rightarrow> (None, Some (projl (f x)))
      | None \<Rightarrow> (Some (acc @ List.map (projr \<circ> f) xs), None))"
  by (induction xs arbitrary: acc) (auto split: sum.splits option.splits)

lemma mark_all_dom: "has_mark (mark_all xs m) x \<longleftrightarrow> x \<in> set xs \<or> has_mark m x"
  by (induction xs arbitrary: m) (auto simp: has_mark_def)

lemma has_mark_empty [simp]: "\<not> has_mark Map.empty x"
  by (simp add: has_mark_def)

lemma unmarked_loop_eq: "unmarked_loop m xs acc = acc @ filter (\<lambda>x. \<not> has_mark m x) xs"
  by (induction xs arbitrary: acc) auto

text \<open>
  C35: The helpers for slices compute what their names say: each conversion is the \<open>map\<close> of the library
  on the elements, \<open>nil\<close> staying \<open>nil\<close>; \<open>MapWithError\<close> stops at the first element that cannot be converted
  and returns its error and no slice; \<open>Difference\<close> keeps, in order and with their repetitions, the elements
  of the first slice that are not in the second; \<open>SymmetricDifference\<close> is the differences both ways.
\<close>

theorem arrays_match_reference:
  "Map source f = map_option (List.map f) source \<and>
   MapWithIndex source g = map_option (\<lambda>xs. List.map (\<lambda>i. g i (xs ! i)) [0..<length xs]) source \<and>
   MapWithError source h =
     (case source of
        None \<Rightarrow> (None, None)
      | Some xs \<Rightarrow>
          (case find (\<lambda>x. isl (h x)) xs of
             Some x \<Rightarrow> (None, Some (projl (h x)))
           | None \<Rightarrow> (Some (List.map (projr \<circ> h) xs), None))) \<and>
   Difference a b = filter (\<lambda>x. x \<notin> set b) a \<and>
   SymmetricDifference a b = Difference a b @ Difference b a"
proof -
  have "List.map (\<lambda>(j, x). g j x) (List.zip [0..<length xs] xs) = List.map (\<lambda>i. g i (xs ! i)) [0..<length xs]" for xs
    by (rule nth_equalityI) auto
  then have "MapWithIndex source g = map_option (\<lambda>xs. List.map (\<lambda>i. g i (xs ! i)) [0..<length xs]) source"
    by (simp add: MapWithIndex_def map_index_loop_eq split: option.split)
  moreover have "Map source f = map_option (List.map f) source"
    by (simp add: Map_def map_loop_eq split: option.split)
  ultimately show ?thesis
    by (simp add: MapWithError_def map_error_loop_eq Difference_def SymmetricDifference_def
        unmarked_loop_eq mark_all_dom Let_def split: option.split)
qed

section \<open>The delayed converter\<close>

record ('a, 'b) convOne =
  form :: "'a list"
  receiver :: "'b list"

definition NewDelayConverter :: "('a, 'b) convOne list" where
  "NewDelayConverter = []"

definition StoreTask :: "'a list \<Rightarrow> 'b list \<Rightarrow> ('a, 'b) convOne list \<Rightarrow> ('a, 'b) convOne list" where
  "StoreTask from to convTask = convTask @ [\<lparr>form = from, receiver = to\<rparr>]"

text \<open>One task: its receiver after the loop, and the error that ended it.\<close>

fun conv_task :: "('a \<Rightarrow> 'e + 'b) \<Rightarrow> 'a list \<Rightarrow> 'b list \<Rightarrow> 'b list \<times> 'e option" where
  "conv_task fn [] rs = (rs, None)"
| "conv_task fn (f # fs) rs =
     (case fn f of Inl err \<Rightarrow> (rs, Some err) | Inr r \<Rightarrow> conv_task fn fs (rs @ [r]))"

fun Conv :: "('a \<Rightarrow> 'e + 'b) \<Rightarrow> ('a, 'b) convOne list \<Rightarrow> ('a, 'b) convOne list \<times> 'e option" where
  "Conv fn [] = ([], None)"
| "Conv fn (task # tasks) =
     (case conv_task fn (form task) (receiver task) of
        (rs, Some err) \<Rightarrow> (task\<lparr>receiver := rs\<rparr> # tasks, Some err)
      | (rs, None) \<Rightarrow>
          (case Conv fn tasks of (tasks', err) \<Rightarrow> (task\<lparr>receiver := rs\<rparr> # tasks', err)))"

lemma conv_task_total:
  "(\<forall>x \<in> set xs. fn x = Inr (g x)) \<Longrightarrow> conv_task fn xs rs = (rs @ List.map g xs, None)"
  by (induction xs arbitrary: rs) auto

text \<open>The results are in the tasks, which nobody can read: the slice a caller has handed in is a value.\<close>

lemma Conv_total:
  assumes "\<forall>task \<in> set tasks. \<forall>x \<in> set (form task). fn x = Inr (g x)"
  shows "Conv fn tasks = (List.map (\<lambda>t. t\<lparr>receiver := receiver t @ List.map g (form t)\<rparr>) tasks, None)"
  using assms by (induction tasks) (simp_all add: conv_task_total [where g = g])

section \<open>Short identifiers\<close>

definition base62Chars :: string where
  "base62Chars = ''0123456789ABCDEFGHIJKLMNOPQRSTUVWXYZabcdefghijklmnopqrstuvwxyz''"

text \<open>\<open>b % 62\<close> and \<open>b / 62\<close> on bytes.\<close>

fun encode_bytes :: "8 word list \<Rightarrow> string \<Rightarrow> string" where
  "encode_bytes [] result = result"
| "encode_bytes (b # bs) result =
     (let idx1 = b mod 62; idx2 = b div 62
      in encode_bytes bs (result @ [base62Chars ! unat idx1, base62Chars ! unat idx2]))"

text \<open>\<open>u\<close> are the sixteen bytes of the UUID.\<close>

definition ShortUUID :: "8 word list \<Rightarrow> string" where
  "ShortUUID u = take 16 (encode_bytes (take 10 u) [])"

definition byte_digits :: "8 word \<Rightarrow> string" where
  "byte_digits b = [base62Chars ! (unat b mod 62), base62Chars ! (unat b div 62)]"

lemma encode_bytes_eq: "encode_bytes bs acc = acc @ concat (List.map byte_digits bs)"
  by (induction bs arbitrary: acc) (auto simp: Let_def byte_digits_def unat_mod unat_div)

lemma take_digits: "take (2 * n) (concat (List.map byte_digits bs)) = concat (List.map byte_digits (take n bs))"
  by (induction bs arbitrary: n) (auto simp: byte_digits_def take_Cons split: nat.splits)

lemma ShortUUID_eq: "ShortUUID u = concat (List.map byte_digits (take 8 u))"
  using take_digits [of 8 "take 10 u"] by (simp add: ShortUUID_def encode_bytes_eq min_def)

lemma base62_distinct: "distinct base62Chars" "length base62Chars = 62"
  by (simp_all add: base62Chars_def)

lemma byte_div_62: "unat (x :: 8 word) div 62 < 62"
proof -
  have "unat x < 2 ^ LENGTH(8)" by (rule unsigned_less)
  then show ?thesis by simp
qed

lemma byte_digits_inj: "byte_digits a = byte_digits b \<Longrightarrow> a = b"
proof -
  assume e: "byte_digits a = byte_digits b"
  have "unat a mod 62 = unat b mod 62" "unat a div 62 = unat b div 62"
    using e base62_distinct byte_div_62 by (auto simp: byte_digits_def nth_eq_iff_index_eq)
  then have "unat a = unat b" by (metis div_mult_mod_eq)
  then show "a = b" by (simp add: word_unat_eq_iff)
qed

lemma digits_inj:
  "length xs = length ys \<Longrightarrow>
    concat (List.map byte_digits xs) = concat (List.map byte_digits ys) \<longleftrightarrow> xs = ys"
proof (induction xs ys rule: list_induct2)
  case (Cons x xs y ys)
  have "length (byte_digits x) = length (byte_digits y)" by (simp add: byte_digits_def)
  with Cons show ?case by (auto dest: byte_digits_inj)
qed simp

text \<open>
  \<open>ShortUUID\<close> returns sixteen letters and digits, and two UUIDs get the same one exactly if they
  agree in their first eight bytes (of the ten that the code sets aside, the last two are cut off).
\<close>

theorem short_uuid_exact:
  assumes "length u = 16" "length v = 16"
  shows "length (ShortUUID u) = 16 \<and> set (ShortUUID u) \<subseteq> set base62Chars \<and>
    (ShortUUID u = ShortUUID v \<longleftrightarrow> take 8 u = take 8 v)"
proof -
  have len: "length (concat (List.map byte_digits xs)) = 2 * length xs" for xs
    by (induction xs) (auto simp: byte_digits_def)
  have "set (byte_digits b) \<subseteq> set base62Chars" for b
    using base62_distinct(2) byte_div_62 [of b] by (auto simp: byte_digits_def)
  then have "set (ShortUUID u) \<subseteq> set base62Chars" by (auto simp: ShortUUID_eq)
  moreover have "length (ShortUUID u) = 16" using assms by (simp add: ShortUUID_eq len)
  moreover have "ShortUUID u = ShortUUID v \<longleftrightarrow> take 8 u = take 8 v"
    unfolding ShortUUID_eq using assms by (intro digits_inj) simp
  ultimately show ?thesis by blast
qed

theorem short_uuid_exact_witness:
  "ShortUUID (replicate 8 255 @ replicate 8 0) = ShortUUID (replicate 8 255 @ replicate 8 1)"
  using short_uuid_exact [of "replicate 8 255 @ replicate 8 0" "replicate 8 255 @ replicate 8 1"] by simp

section \<open>Error codes\<close>

record 'd error_code =
  Model :: string
  Code :: string
  Msg :: string
  Data :: "'d option"

text \<open>\<open>New\<close> looks the key up and never stores it: the map is what it was.\<close>

definition New :: "(string \<rightharpoonup> 'd error_code) \<Rightarrow> string \<Rightarrow> string \<Rightarrow> string \<Rightarrow> 'd error_code outcome" where
  "New codeMap model code msg =
     (if codeMap (model @ '':'' @ code) \<noteq> None then Panic ''code already exists''
      else Return \<lparr>Model = model, Code = code, Msg = msg, Data = None\<rparr>)"

text \<open>\<open>Error\<close> is the JSON of the code; an error of \<open>Marshal\<close> is dropped and leaves the empty text.\<close>

definition error_text :: "('d error_code \<Rightarrow> 'e + string) \<Rightarrow> 'd error_code \<Rightarrow> string" where
  "error_text marshal r = (case marshal r of Inl e \<Rightarrow> '''' | Inr s \<Rightarrow> s)"

definition SetData :: "'d error_code \<Rightarrow> 'd \<Rightarrow> 'd error_code" where
  "SetData r d = r\<lparr>Data := Some d\<rparr>"

text \<open>\<open>target\<close> is what \<open>errors.As\<close> finds in the other error, if it finds an \<open>ErrorCode\<close>.\<close>

definition Is :: "'d error_code \<Rightarrow> 'd error_code option \<Rightarrow> bool" where
  "Is r target = (case target of None \<Rightarrow> False | Some t \<Rightarrow> Model r = Model t \<and> Code r = Code t)"

text \<open>The loop of \<open>MsgParams\<close> computes the replaced text and drops it; \<open>replace_all\<close> is \<open>strings.ReplaceAll\<close>.\<close>

fun msg_params_loop :: "(string \<Rightarrow> string \<Rightarrow> string \<Rightarrow> string) \<Rightarrow> nat \<Rightarrow> string list \<Rightarrow> 'd error_code \<Rightarrow> 'd error_code" where
  "msg_params_loop replace_all i [] r = r"
| "msg_params_loop replace_all i (arg # args) r =
     (let _ = replace_all (Msg r) (''{'' @ dec i @ ''}'') arg in msg_params_loop replace_all (Suc i) args r)"

definition MsgParams :: "(string \<Rightarrow> string \<Rightarrow> string \<Rightarrow> string) \<Rightarrow> 'd error_code \<Rightarrow> string list \<Rightarrow> 'd error_code" where
  "MsgParams replace_all r args = msg_params_loop replace_all 0 args r"

lemma MsgParams_unchanged: "MsgParams replace_all r args = r"
proof -
  have "msg_params_loop replace_all i args r = r" for i
    by (induction args arbitrary: i) (simp_all add: Let_def)
  then show ?thesis by (simp add: MsgParams_def)
qed

section \<open>Conversion through JSON\<close>

text \<open>The result is a fresh value, filled as far as \<open>Unmarshal\<close> came, next to its error.\<close>

definition Convert :: "('o \<Rightarrow> 'e + string) \<Rightarrow> (string \<Rightarrow> 'r \<Rightarrow> 'r \<times> 'e option) \<Rightarrow> 'r \<Rightarrow> 'o \<Rightarrow> 'r option \<times> 'e option" where
  "Convert marshal unmarshal zero obj =
     (case marshal obj of
        Inl err \<Rightarrow> (None, Some err)
      | Inr data \<Rightarrow> (case unmarshal data zero of (res, err) \<Rightarrow> (Some res, err)))"

end
