(* ===== verification/Web.thy ===== *)
theory Web
  imports Redis_Value Util
begin

text \<open>
  The web layer \<open>ginx\<close>: parameters of a handler (\<open>params.go\<close>), handlers and their registration
  (\<open>handler.go\<close>), and the middleware that turns whatever a chain of handlers does into one answer
  (\<open>middleware_basic.go\<close>, \<open>model.go\<close>).

  Of \<open>gin\<close> the model has what the code relies on: the handlers of a route run in order until one
  aborts or panics, \<open>JSON\<close> and \<open>AbortWithStatus\<close> write to the client, \<open>Written\<close> says whether
  anything was written. A request may be written to more than once; \<open>writes\<close> keeps each write.
  Parameters: binding of a JSON body, uploaded files, \<open>strconv.ParseFloat\<close>, and the user's functions.
  Logging is left out; the timeout middleware is in \<open>Web_Timeout\<close>.
\<close>

section \<open>Values\<close>

text \<open>
  An \<open>any\<close>. \<open>Err_Code\<close> is an \<open>errorx.ErrorCode\<close> by value; every other error, a pointer to an
  \<open>ErrorCode\<close> and an error that wraps one included, is \<open>Err\<close>.
\<close>

datatype 'd any =
    Nil_Any
  | A_Str string
  | A_Int int
  | A_Float "64 word"
  | A_Bool bool
  | Err_Code "'d error_code"
  | Err string
  | Opaque 'd

definition RespSuccess :: string where "RespSuccess = ''S000''"
definition RespErr :: string where "RespErr = ''F000''"

text \<open>The body of a response: a \<open>Response\<close> or an \<open>ErrorCode\<close>, as JSON.\<close>

datatype 'd body =
    Response_Body string string "'d any"
  | Error_Body "'d error_code"

record request =
  query :: "string \<Rightarrow> string"
  path_param :: "string \<Rightarrow> string"
  header :: "string \<Rightarrow> string"
  raw_body :: string

text \<open>What is kept under \<open>ContextFuncResult\<close>: a slice of results, or something a middleware has put there.\<close>

datatype 'd stored = Results "'d any list" | Not_Results 'd

text \<open>\<open>invoked\<close> records the calls of the user's function, with their arguments.\<close>

record 'd gin_ctx =
  request :: request
  func_result :: "'d stored option"
  aborted :: bool
  writes :: "(nat \<times> 'd body option) list"
  invoked :: "'d any list list"

definition Written :: "'d gin_ctx \<Rightarrow> bool" where
  "Written c \<longleftrightarrow> writes c \<noteq> []"

definition JSON :: "nat \<Rightarrow> 'd body \<Rightarrow> 'd gin_ctx \<Rightarrow> 'd gin_ctx" where
  "JSON status b c = c\<lparr>writes := writes c @ [(status, Some b)]\<rparr>"

definition AbortWithStatusJSON :: "nat \<Rightarrow> 'd body \<Rightarrow> 'd gin_ctx \<Rightarrow> 'd gin_ctx" where
  "AbortWithStatusJSON status b c = JSON status b (c\<lparr>aborted := True\<rparr>)"

definition AbortWithStatus :: "nat \<Rightarrow> 'd gin_ctx \<Rightarrow> 'd gin_ctx" where
  "AbortWithStatus status c = c\<lparr>aborted := True, writes := writes c @ [(status, None)]\<rparr>"

section \<open>Parameters\<close>

datatype param_type = P_STRING | P_INT | P_FLOAT | P_BOOL | P_Other string

definition err_any :: "redis_error \<Rightarrow> 'd any" where
  "err_any e = Err (case e of ErrSyntax \<Rightarrow> ''invalid syntax'' | ErrRange \<Rightarrow> ''value out of range'' | _ \<Rightarrow> ''error'')"

text \<open>
  A result and an error, the error being \<open>Nil_Any\<close> where the code returns \<open>nil\<close>. With the range error
  \<open>strconv.Atoi\<close> returns the nearest integer, and \<open>ParseFloat\<close> has a result beside its errors, too.
\<close>

definition atoi_error :: "string \<Rightarrow> redis_error \<Rightarrow> int" where
  "atoi_error s e =
     (if e \<noteq> ErrRange then 0 else if fst (parse_sign s) then - (2 ^ 63) else 2 ^ 63 - 1)"

definition strConvert :: "(nat \<Rightarrow> string \<Rightarrow> 64 word \<times> redis_error option) \<Rightarrow> string \<Rightarrow> param_type \<Rightarrow> 'd any \<times> 'd any" where
  "strConvert rd value type =
     (case type of
        P_STRING \<Rightarrow> (A_Str value, Nil_Any)
      | P_INT \<Rightarrow> (case parseInt 64 value of Inl e \<Rightarrow> (A_Int (atoi_error value e), err_any e) | Inr n \<Rightarrow> (A_Int n, Nil_Any))
      | P_FLOAT \<Rightarrow> (case rd 64 value of (x, e) \<Rightarrow> (A_Float x, case e of None \<Rightarrow> Nil_Any | Some e \<Rightarrow> err_any e))
      | P_BOOL \<Rightarrow> (case parseBool value of Inl e \<Rightarrow> (A_Bool False, err_any e) | Inr b \<Rightarrow> (A_Bool b, Nil_Any))
      | P_Other t \<Rightarrow> (Nil_Any, Err ''invalid data type''))"

datatype 'd param =
    FormFileParam string
  | BodyParam
  | HeaderParam string
  | QueryParamItem string param_type
  | PathParamItem string param_type
  | User_Param "request \<Rightarrow> 'd any \<times> 'd any"

record 'd web_lib =
  form_file :: "request \<Rightarrow> string \<Rightarrow> 'd any \<times> 'd any"
  bind_json :: "string \<Rightarrow> 'd any \<times> 'd any"
  parse_float :: "nat \<Rightarrow> string \<Rightarrow> 64 word \<times> redis_error option"

fun GetParam :: "'d web_lib \<Rightarrow> 'd param \<Rightarrow> request \<Rightarrow> 'd any \<times> 'd any" where
  "GetParam lib (FormFileParam name) r =
     (case form_file lib r name of (file, err) \<Rightarrow> if err \<noteq> Nil_Any then (Nil_Any, err) else (file, Nil_Any))"
| "GetParam lib BodyParam r = bind_json lib (raw_body r)"
| "GetParam lib (HeaderParam key) r = (A_Str (header r key), Nil_Any)"
| "GetParam lib (QueryParamItem key type) r = strConvert (parse_float lib) (query r key) type"
| "GetParam lib (PathParamItem key type) r = strConvert (parse_float lib) (path_param r key) type"
| "GetParam lib (User_Param f) r = f r"

section \<open>Handlers\<close>

text \<open>A handler of \<open>gin\<close>: the context after it, and the value it panicked with, if it did.\<close>

type_synonym 'd gin_handler = "'d gin_ctx \<Rightarrow> 'd gin_ctx \<times> 'd any option"

text \<open>The user's function, called by reflection: its results, or a panic (wrong arguments included).\<close>

type_synonym 'd func = "'d any list \<Rightarrow> 'd any + 'd any list"

text \<open>The loop over the parameters: the first error is the panic.\<close>

fun get_args :: "'d web_lib \<Rightarrow> request \<Rightarrow> 'd param list \<Rightarrow> 'd any + 'd any list" where
  "get_args lib r [] = Inr []"
| "get_args lib r (p # ps) =
     (case GetParam lib p r of (arg, err) \<Rightarrow>
        if err \<noteq> Nil_Any then Inl err
        else (case get_args lib r ps of Inl e \<Rightarrow> Inl e | Inr args \<Rightarrow> Inr (arg # args)))"

definition process :: "'d web_lib \<Rightarrow> 'd func \<Rightarrow> 'd param list \<Rightarrow> 'd gin_ctx \<Rightarrow> 'd gin_ctx \<times> ('d any + 'd any list)" where
  "process lib fn params c =
     (case get_args lib (request c) params of
        Inl err \<Rightarrow> (c, Inl err)
      | Inr args \<Rightarrow> (c\<lparr>invoked := invoked c @ [args]\<rparr>, fn args))"

definition getHandler :: "'d web_lib \<Rightarrow> 'd func \<Rightarrow> 'd param list \<Rightarrow> 'd gin_handler" where
  "getHandler lib fn params c =
     (case process lib fn params c of
        (c', Inl a) \<Rightarrow> (c', Some a)
      | (c', Inr resArr) \<Rightarrow> (c'\<lparr>func_result := Some (Results resArr)\<rparr>, None))"

section \<open>Answers\<close>

text \<open>\<open>getStackTrace\<close> slices \<open>buf[512:n]\<close>, \<open>n\<close> being the length of the trace within the buffer.\<close>

definition getStackTrace :: "nat \<Rightarrow> 'd any option" where
  "getStackTrace n = (if min n 2048 < 512 then Some (Err ''slice bounds out of range'') else None)"

text \<open>The message, which asks to contact the administrator, in UTF-8.\<close>

definition admin_msg :: string where
  "admin_msg =
     [CHR 0xE8, CHR 0xAF, CHR 0xB7, CHR 0xE8, CHR 0x81, CHR 0x94,
      CHR 0xE7, CHR 0xB3, CHR 0xBB, CHR 0xE7, CHR 0xAE, CHR 0xA1,
      CHR 0xE7, CHR 0x90, CHR 0x86, CHR 0xE5, CHR 0x91, CHR 0x98]"

definition sys_error :: "'d error_code" where
  "sys_error = \<lparr>Model = '''', Code = RespErr, Msg = admin_msg, Data = None\<rparr>"

definition wrapError :: "nat \<Rightarrow> 'd any \<Rightarrow> bool \<Rightarrow> 'd gin_handler" where
  "wrapError stack a isPanic c =
     (case a of
        Err_Code appErr \<Rightarrow> (AbortWithStatusJSON 200 (Error_Body appErr) c, None)
      | _ \<Rightarrow>
          (case getStackTrace stack of
             Some r \<Rightarrow> (c, Some r)
           | None \<Rightarrow>
               if isPanic then (AbortWithStatusJSON 500 (Error_Body sys_error) c, None)
               else (AbortWithStatusJSON 200 (Error_Body sys_error) c, None)))"

definition wrapResponse :: "nat \<Rightarrow> 'd gin_handler" where
  "wrapResponse stack c =
     (if Written c then (c, None)
      else case func_result c of
        None \<Rightarrow> (JSON 200 (Response_Body RespSuccess '''' Nil_Any) c, None)
      | Some (Not_Results d) \<Rightarrow> (c, Some (Err ''interface conversion''))
      | Some (Results funcResults) \<Rightarrow>
          if length funcResults \<noteq> 2 then (AbortWithStatus 500 c, None)
          else if funcResults ! 1 \<noteq> Nil_Any then wrapError stack (funcResults ! 1) False c
          else (JSON 200 (Response_Body RespSuccess '''' (funcResults ! 0)) c, None))"

text \<open>A \<open>HandlerFunc\<close> returns an error; \<open>handlerConvert\<close> makes handlers of them.\<close>

datatype 'd returned = Returns "'d any" | Panics "'d any"

type_synonym 'd handler_func = "'d gin_ctx \<Rightarrow> 'd gin_ctx \<times> 'd returned"

definition convert_one :: "nat \<Rightarrow> 'd handler_func \<Rightarrow> 'd gin_handler" where
  "convert_one stack h c =
     (case h c of
        (c', Panics a) \<Rightarrow> (c', Some a)
      | (c', Returns err) \<Rightarrow> if err \<noteq> Nil_Any then wrapError stack err False c' else (c', None))"

definition handlerConvert :: "nat \<Rightarrow> 'd handler_func list \<Rightarrow> 'd gin_handler list" where
  "handlerConvert stack hs = List.map (convert_one stack) hs"

text \<open>\<open>ctx.Next()\<close>: the rest of the chain, until a handler aborts or panics.\<close>

fun next_handlers :: "'d gin_handler list \<Rightarrow> 'd gin_handler" where
  "next_handlers [] c = (c, None)"
| "next_handlers (h # hs) c =
     (if aborted c then (c, None)
      else case h c of
        (c', Some a) \<Rightarrow> (c', Some a)
      | (c', None) \<Rightarrow> next_handlers hs c')"

definition handlePanic :: "nat \<Rightarrow> 'd any option \<Rightarrow> 'd gin_handler" where
  "handlePanic stack a c = (case a of None \<Rightarrow> (c, None) | Some r \<Rightarrow> wrapError stack r True c)"

definition BasicMiddleware :: "nat \<Rightarrow> 'd gin_handler list \<Rightarrow> 'd gin_handler" where
  "BasicMiddleware stack hs c =
     (case next_handlers hs c of
        (c1, Some a) \<Rightarrow> handlePanic stack (Some a) c1
      | (c1, None) \<Rightarrow> (case wrapResponse stack c1 of (c2, p) \<Rightarrow> handlePanic stack p c2))"

text \<open>\<open>checkFun\<close>: what is registered must be a function.\<close>

definition checkFun :: "'d func option \<Rightarrow> 'd func outcome" where
  "checkFun fn = (case fn of None \<Rightarrow> Panic ''not func'' | Some f \<Rightarrow> Return f)"

declare checkFun_def [simp]

text \<open>\<open>POST\<close>, \<open>GET\<close> and \<open>Any\<close>: the chain they register, or their panic if \<open>fun\<close> is not a function.\<close>

definition register_route ::
  "nat \<Rightarrow> 'd web_lib \<Rightarrow> 'd handler_func list \<Rightarrow> 'd func option \<Rightarrow> 'd param list \<Rightarrow> 'd gin_handler list outcome" where
  "register_route stack lib mid fn params =
     bind_outcome (checkFun fn) (\<lambda>f. Return (handlerConvert stack mid @ [getHandler lib f params]))"

end
