(* ===== verification/Web_Props.thy ===== *)
theory Web_Props
  imports Web
begin

text \<open>
  What a client gets: one answer per request, and which; when a handler runs at all.
\<close>

section \<open>Answers, as a table\<close>

definition error_answer :: "bool \<Rightarrow> 'd any \<Rightarrow> nat \<times> 'd body option" where
  "error_answer isPanic a =
     (case a of
        Err_Code e \<Rightarrow> (200, Some (Error_Body e))
      | _ \<Rightarrow> (if isPanic then 500 else 200, Some (Error_Body sys_error)))"

definition result_answer :: "'d any list \<Rightarrow> nat \<times> 'd body option" where
  "result_answer rs =
     (if length rs \<noteq> 2 then (500, None)
      else if rs ! 1 \<noteq> Nil_Any then error_answer False (rs ! 1)
      else (200, Some (Response_Body RespSuccess '''' (rs ! 0))))"

text \<open>What the middlewares of a route leave: the context they hand on, or the answer of the first that fails.\<close>

fun run_guards :: "'d handler_func list \<Rightarrow> 'd gin_ctx \<Rightarrow> 'd gin_ctx + (nat \<times> 'd body option)" where
  "run_guards [] c = Inl c"
| "run_guards (h # hs) c =
     (case h c of
        (c', Panics a) \<Rightarrow> Inr (error_answer True a)
      | (c', Returns err) \<Rightarrow> if err \<noteq> Nil_Any then Inr (error_answer False err) else run_guards hs c')"

definition answer ::
  "'d web_lib \<Rightarrow> 'd handler_func list \<Rightarrow> 'd func \<Rightarrow> 'd param list \<Rightarrow> 'd gin_ctx \<Rightarrow> nat \<times> 'd body option" where
  "answer lib mid fn params c =
     (case run_guards mid c of
        Inr w \<Rightarrow> w
      | Inl c' \<Rightarrow>
          (case get_args lib (request c') params of
             Inl err \<Rightarrow> error_answer True err
           | Inr args \<Rightarrow> (case fn args of Inl a \<Rightarrow> error_answer True a | Inr rs \<Rightarrow> result_answer rs)))"

text \<open>A middleware that leaves answering to the framework.\<close>

definition same_answer_state :: "'d gin_ctx \<Rightarrow> 'd gin_ctx \<Rightarrow> bool" where
  "same_answer_state c c' \<longleftrightarrow>
     writes c' = writes c \<and> aborted c' = aborted c \<and> func_result c' = func_result c"

definition quiet :: "'d handler_func \<Rightarrow> bool" where
  "quiet h \<longleftrightarrow> (\<forall>c. same_answer_state c (fst (h c)))"

definition fresh :: "'d gin_ctx \<Rightarrow> bool" where
  "fresh c \<longleftrightarrow> writes c = [] \<and> \<not> aborted c \<and> func_result c = None"

lemma fresh_quiet: "quiet h \<Longrightarrow> h c = (c', r) \<Longrightarrow> fresh c \<Longrightarrow> fresh c'"
  by (metis fresh_def fst_conv quiet_def same_answer_state_def)

lemma wrapError_answer:
  assumes "512 \<le> stack"
  shows "\<exists>c'. wrapError stack a isPanic c = (c', None) \<and> writes c' = writes c @ [error_answer isPanic a]
    \<and> aborted c' \<and> invoked c' = invoked c \<and> func_result c' = func_result c"
  using assms by (cases a)
    (auto simp: wrapError_def error_answer_def getStackTrace_def AbortWithStatusJSON_def JSON_def)

lemma wrapResponse_written: "writes c \<noteq> [] \<Longrightarrow> wrapResponse stack c = (c, None)"
  by (simp add: wrapResponse_def Written_def)

lemma wrapResponse_results:
  assumes "512 \<le> stack" "writes c = []" "func_result c = Some (Results rs)"
  shows "\<exists>c'. wrapResponse stack c = (c', None) \<and> writes c' = [result_answer rs]"
  using assms wrapError_answer [OF assms(1), of "rs ! 1" False c]
  by (auto simp: wrapResponse_def Written_def result_answer_def AbortWithStatus_def JSON_def)

lemma next_handlers_append:
  "next_handlers (hs @ gs) c =
     (case next_handlers hs c of (c', Some a) \<Rightarrow> (c', Some a) | (c', None) \<Rightarrow> next_handlers gs c')"
proof (induction hs arbitrary: c)
  case (Cons h hs)
  have "aborted c \<Longrightarrow> next_handlers gs c = (c, None)" by (cases gs) auto
  with Cons show ?case by (auto split: prod.splits option.splits)
qed simp

lemma guards_fail:
  assumes "512 \<le> stack" "\<forall>h \<in> set mid. quiet h" "fresh c" "run_guards mid c = Inr w"
  shows "\<exists>c'. BasicMiddleware stack (handlerConvert stack mid @ rest) c = (c', None) \<and> writes c' = [w]"
  using assms(2-)
proof (induction mid arbitrary: c)
  case (Cons h mid)
  obtain c' r where h: "h c = (c', r)" by fastforce
  have c': "fresh c'" using fresh_quiet [of h c c' r] h Cons.prems by simp
  have c: "\<not> aborted c" using Cons.prems by (simp add: fresh_def)
  show ?case
  proof (cases "r = Returns Nil_Any")
    case True
    with h c have "next_handlers (handlerConvert stack (h # mid) @ rest) c =
        next_handlers (handlerConvert stack mid @ rest) c'"
      by (simp add: handlerConvert_def convert_one_def)
    then show ?thesis
      using Cons.IH [OF _ c'] Cons.prems h True by (simp add: BasicMiddleware_def)
  next
    case False
    define p where "p = (case r of Panics a \<Rightarrow> True | _ \<Rightarrow> False)"
    define a where "a = (case r of Panics a \<Rightarrow> a | Returns a \<Rightarrow> a)"
    have w: "w = error_answer p a"
      using Cons.prems(3) h False by (cases r) (auto simp: p_def a_def split: if_splits)
    obtain c2 where c2: "wrapError stack a p c' = (c2, None)" "writes c2 = [w]" "aborted c2"
      using wrapError_answer [OF assms(1), of a p c'] c' w by (auto simp: fresh_def)
    have "aborted c2 \<Longrightarrow> next_handlers gs c2 = (c2, None)" for gs by (cases gs) auto
    then show ?thesis
      using h c c2 False wrapResponse_written [of c2]
      by (cases r) (auto simp: BasicMiddleware_def handlerConvert_def convert_one_def handlePanic_def p_def a_def)
  qed
qed simp

lemma guards_pass:
  assumes "\<forall>h \<in> set mid. quiet h" "fresh c" "run_guards mid c = Inl c'"
  shows "fresh c' \<and> next_handlers (handlerConvert stack mid @ rest) c = next_handlers rest c'"
  using assms
proof (induction mid arbitrary: c)
  case (Cons h mid)
  obtain d r where h: "h c = (d, r)" by fastforce
  then have r: "r = Returns Nil_Any" "run_guards mid d = Inl c'"
    using Cons.prems(3) by (cases r; auto split: if_splits)+
  have d: "fresh d" using fresh_quiet [of h c d r] h Cons.prems by simp
  then show ?case
    using Cons.IH [OF _ d r(2)] Cons.prems h r(1) by (auto simp: handlerConvert_def convert_one_def fresh_def)
qed (simp add: handlerConvert_def)

section \<open>Properties\<close>

text \<open>
  C12: Every request gets exactly one answer, and this is which. For a route as \<open>POST\<close>, \<open>GET\<close> or \<open>Any\<close>
  register it, with middlewares that do not write themselves: the first middleware that fails decides,
  then the first parameter that cannot be read, then the function. A business error, returned or
  thrown, is sent as it is with status 200; any other error is replaced by the general one, with status
  500 if it was thrown; results that are not a pair give 500 without a body. No panic leaves the middleware,
  if the stack trace is as long as \<open>getStackTrace\<close> takes for granted.
\<close>

theorem one_answer_per_request:
  assumes "register_route stack lib mid (Some fn) params = Return chain" "\<forall>h \<in> set mid. quiet h"
    and "fresh c" "512 \<le> stack"
  shows "\<exists>c'. BasicMiddleware stack chain c = (c', None) \<and> writes c' = [answer lib mid fn params c]"
proof -
  have chain: "chain = handlerConvert stack mid @ [getHandler lib fn params]"
    using assms(1) by (simp add: register_route_def)
  show ?thesis
  proof (cases "run_guards mid c")
    case (Inr w)
    then show ?thesis
      using guards_fail [OF assms(4,2,3)] by (simp add: chain answer_def)
  next
    case (Inl d)
    have d: "fresh d" "next_handlers chain c = next_handlers [getHandler lib fn params] d"
      using guards_pass [OF assms(2,3) Inl] by (auto simp: chain)
    consider (panics) e a where "getHandler lib fn params d = (e, Some a)" "writes e = []"
        "answer lib mid fn params c = error_answer True a"
      | (results) e rs where "getHandler lib fn params d = (e, None)" "writes e = []"
        "func_result e = Some (Results rs)" "answer lib mid fn params c = result_answer rs"
    proof (cases "get_args lib (request d) params")
      case (Inl err)
      with d(1) \<open>run_guards mid c = Inl d\<close> show ?thesis
        by (intro panics) (auto simp: getHandler_def process_def answer_def fresh_def)
    next
      case (Inr args)
      then show ?thesis
        using d(1) \<open>run_guards mid c = Inl d\<close>
        by (cases "fn args"; intro panics results)
          (auto simp: getHandler_def process_def answer_def fresh_def)
    qed
    then show ?thesis
    proof cases
      case panics
      then show ?thesis
        using d wrapError_answer [OF assms(4), of a True e]
        by (auto simp: BasicMiddleware_def handlePanic_def fresh_def)
    next
      case results
      then show ?thesis
        using d wrapResponse_results [OF assms(4), of e rs]
        by (auto simp: BasicMiddleware_def handlePanic_def fresh_def)
    qed
  qed
qed

text \<open>Whether all middlewares let a request through, with the context they hand on.\<close>

fun admitted :: "'d handler_func list \<Rightarrow> 'd gin_ctx \<Rightarrow> 'd gin_ctx option" where
  "admitted [] c = (if aborted c then None else Some c)"
| "admitted (h # hs) c =
     (if aborted c then None
      else case h c of
        (c', Panics a) \<Rightarrow> None
      | (c', Returns err) \<Rightarrow> if err = Nil_Any then admitted hs c' else None)"

lemma wrapError_keeps:
  "wrapError stack a isPanic c = (c', p) \<Longrightarrow> invoked c' = invoked c \<and> (p = None \<longrightarrow> aborted c')"
  by (auto simp: wrapError_def AbortWithStatusJSON_def JSON_def split: any.splits option.splits if_splits)

lemma answering_keeps_invoked:
  "invoked (fst (wrapResponse stack c)) = invoked c" "invoked (fst (handlePanic stack p c)) = invoked c"
  by (auto simp: wrapResponse_def handlePanic_def JSON_def AbortWithStatus_def split: option.splits stored.splits)
    (metis prod.collapse wrapError_keeps)+

lemma Basic_invoked: "invoked (fst (BasicMiddleware stack hs c)) = invoked (fst (next_handlers hs c))"
  by (auto simp: BasicMiddleware_def split: prod.splits option.splits)
    (metis answering_keeps_invoked fst_conv)+

lemma guarded_invocations:
  assumes "\<forall>h \<in> set mid. \<forall>d. invoked (fst (h d)) = invoked d"
  shows "invoked (fst (next_handlers (handlerConvert stack mid @ [getHandler lib fn params]) c)) = invoked c @
    (case admitted mid c of None \<Rightarrow> [] | Some c' \<Rightarrow>
       (case get_args lib (request c') params of Inl e \<Rightarrow> [] | Inr args \<Rightarrow> [args]))"
  using assms
proof (induction mid arbitrary: c)
  case Nil
  then show ?case
    by (auto simp: handlerConvert_def getHandler_def process_def split: sum.splits)
next
  case (Cons h mid)
  obtain d r where h: "h c = (d, r)" by fastforce
  then have d: "invoked d = invoked c" using Cons.prems by (metis fst_conv list.set_intros(1))
  have stop: "aborted e \<Longrightarrow> next_handlers gs e = (e, None)" for gs and e :: "'a gin_ctx" by (cases gs) auto
  show ?case
  proof (cases r)
    case (Panics a)
    with h d show ?thesis by (simp add: handlerConvert_def convert_one_def)
  next
    case (Returns err)
    show ?thesis
    proof (cases "err = Nil_Any")
      case True
      then show ?thesis
        using h d Returns Cons by (simp add: handlerConvert_def convert_one_def)
    next
      case False
      obtain e p where e: "wrapError stack err False d = (e, p)" by fastforce
      then show ?thesis
        using h d Returns False wrapError_keeps [OF e] stop
        by (cases p) (auto simp: handlerConvert_def convert_one_def)
    qed
  qed
qed

text \<open>
  C23: A middleware protects the function behind it. Whatever the middlewares of a route do otherwise (write,
  abort, change the request), the user's function is called at most once per request, and only if
  every one of them returned \<open>nil\<close> without aborting and every parameter could be read from the request
  they leave.
\<close>

theorem guards_protect_handler:
  assumes "register_route stack lib mid (Some fn) params = Return chain"
    and "\<forall>h \<in> set mid. \<forall>d. invoked (fst (h d)) = invoked d"
  shows "invoked (fst (BasicMiddleware stack chain c)) = invoked c @
    (case admitted mid c of None \<Rightarrow> [] | Some c' \<Rightarrow>
       (case get_args lib (request c') params of Inl e \<Rightarrow> [] | Inr args \<Rightarrow> [args]))"
  using guarded_invocations [OF assms(2)] assms(1) by (auto simp: Basic_invoked register_route_def)

section \<open>Instances\<close>

definition plain_request :: request where
  "plain_request = \<lparr>query = (\<lambda>k. if k = ''n'' then ''12'' else ''''), path_param = (\<lambda>_. ''''),
     header = (\<lambda>k. if k = ''auth'' then ''yes'' else ''''), raw_body = ''''\<rparr>"

definition new_ctx :: "request \<Rightarrow> unit gin_ctx" where
  "new_ctx r = \<lparr>request = r, func_result = None, aborted = False, writes = [], invoked = []\<rparr>"

definition no_lib :: "unit web_lib" where
  "no_lib = \<lparr>form_file = (\<lambda>r n. (Nil_Any, Err ''no file'')), bind_json = (\<lambda>b. (Nil_Any, Err ''no body'')),
     parse_float = (\<lambda>w s. (0, Some ErrSyntax))\<rparr>"

definition need_auth :: "unit handler_func" where
  "need_auth c = (c, Returns (if header (request c) ''auth'' = ''yes'' then Nil_Any
     else Err_Code \<lparr>Model = ''system'', Code = ''E001'', Msg = ''no auth'', Data = None\<rparr>))"

definition echo :: "unit func" where
  "echo args = Inr (args @ [Nil_Any])"

lemma parse_12: "parseInt 64 ''12'' = Inr 12"
  by (simp add: parseInt_def parseUint_def parse_sign_def is_digit_def)

theorem one_answer_per_request_witness:
  "\<exists>chain c'. register_route 600 no_lib [need_auth] (Some echo) [QueryParamItem ''n'' P_INT] = Return chain \<and>
    BasicMiddleware 600 chain (new_ctx plain_request) = (c', None) \<and>
    writes c' = [(200, Some (Response_Body ''S000'' '''' (A_Int 12)))]"
proof -
  obtain chain where r: "register_route 600 no_lib [need_auth] (Some echo) [QueryParamItem ''n'' P_INT] = Return chain"
    by (simp add: register_route_def)
  have q: "\<forall>h \<in> set [need_auth]. quiet h" by (simp add: quiet_def need_auth_def same_answer_state_def)
  have f: "fresh (new_ctx plain_request)" by (simp add: fresh_def new_ctx_def)
  have "answer no_lib [need_auth] echo [QueryParamItem ''n'' P_INT] (new_ctx plain_request) =
      (200, Some (Response_Body ''S000'' '''' (A_Int 12)))"
    by (simp add: answer_def need_auth_def new_ctx_def plain_request_def strConvert_def parse_12 echo_def
        result_answer_def RespSuccess_def)
  with one_answer_per_request [OF r q f, simplified] r show ?thesis by auto
qed

theorem guards_protect_handler_witness:
  "\<exists>chain. register_route 600 no_lib [need_auth] (Some echo) [] = Return chain \<and>
    invoked (fst (BasicMiddleware 600 chain (new_ctx (plain_request\<lparr>header := (\<lambda>_. '''')\<rparr>)))) = []"
proof -
  obtain chain where r: "register_route 600 no_lib [need_auth] (Some echo) [] = Return chain"
    by (simp add: register_route_def)
  have k: "\<forall>h \<in> set [need_auth]. \<forall>d. invoked (fst (h d)) = invoked d" by (simp add: need_auth_def)
  from guards_protect_handler [OF r k, of "new_ctx (plain_request\<lparr>header := (\<lambda>_. '''')\<rparr>)"] r
  show ?thesis by (simp add: need_auth_def new_ctx_def)
qed

text \<open>
  A handler that has answered and then panics gets a second answer appended to the first; a parameter
  that cannot be read is answered with 500, like a crash of the server.
\<close>

lemma panic_after_answer:
  "\<exists>c'. BasicMiddleware 600 [\<lambda>c. (JSON 200 (Response_Body ''S000'' '''' Nil_Any) c, Some (Err ''late''))]
      (new_ctx plain_request) = (c', None) \<and> length (writes c') = 2"
  by (simp add: BasicMiddleware_def handlePanic_def wrapError_def getStackTrace_def AbortWithStatusJSON_def
      JSON_def new_ctx_def)

lemma unreadable_parameter:
  "GetParam lib p (request c) = (x, Err e) \<Longrightarrow>
    answer lib [] fn (p # params) c = (500, Some (Error_Body sys_error))"
  by (simp add: answer_def error_answer_def)

end
