(* ===== verification/Web_Timeout.thy ===== *)
theory Web_Timeout
  imports Web_Props
begin

text \<open>
  The timeout middleware of \<open>ginx/middleware_basic.go\<close>. \<open>MidTimeOut\<close> starts a goroutine that waits for
  the end of the request's context and aborts the request with 504 if that was its deadline; the rest of
  the chain runs inside the middleware, by \<open>ctx.Next()\<close>. The deadline may be hit before a handler, while
  it runs, or after the last one and before \<open>cancel\<close>; for each handler of the chain two flags say whether
  it is hit then. A hit while a handler runs takes effect when the handler is done. Of \<open>gin\<close> the
  model adds that nothing is written by \<open>AbortWithStatus\<close> once an answer has been.

  What is left out: the goroutine may be scheduled only after the request has ended, when \<open>gin\<close> may have
  handed the context to another request.
\<close>

section \<open>The middleware\<close>

definition expire :: "bool \<Rightarrow> 'd gin_ctx \<Rightarrow> 'd gin_ctx" where
  "expire hit c =
     (if \<not> hit then c
      else if Written c then c\<lparr>aborted := True\<rparr>
      else AbortWithStatus 504 c)"

type_synonym 'd timed = "bool \<times> bool \<times> 'd handler_func"

fun timed_next :: "nat \<Rightarrow> bool \<Rightarrow> 'd timed list \<Rightarrow> 'd gin_handler" where
  "timed_next stack late [] c = (expire late c, None)"
| "timed_next stack late ((before, during, f) # hs) c =
     (let c0 = expire before c in
      if aborted c0 then (c0, None)
      else case f c0 of
        (c1, Panics a) \<Rightarrow> (expire during c1, Some a)
      | (c1, Returns err) \<Rightarrow>
          (let c2 = expire during c1 in
           if err = Nil_Any then timed_next stack late hs c2
           else case wrapError stack err False c2 of
             (c3, Some a) \<Rightarrow> (c3, Some a)
           | (c3, None) \<Rightarrow> timed_next stack late hs c3))"

text \<open>The handler that \<open>MidTimeOut\<close> makes, with the rest of the chain.\<close>

definition time_out_hand :: "nat \<Rightarrow> bool \<Rightarrow> 'd timed list \<Rightarrow> 'd handler_func" where
  "time_out_hand stack late rest c =
     (case timed_next stack late rest c of
        (c', Some a) \<Rightarrow> (c', Panics a)
      | (c', None) \<Rightarrow> (c', Returns Nil_Any))"

text \<open>\<open>timeOutMap\<close> keeps one handler for each number of seconds.\<close>

definition MidTimeOut :: "(nat \<Rightarrow> 'h) \<Rightarrow> nat \<Rightarrow> (nat \<rightharpoonup> 'h) \<Rightarrow> 'h \<times> (nat \<rightharpoonup> 'h)" where
  "MidTimeOut mk seconds timeOutMap =
     (case timeOutMap seconds of
        Some hand \<Rightarrow> (hand, timeOutMap)
      | None \<Rightarrow> (let hand = mk seconds in (hand, timeOutMap(seconds \<mapsto> hand))))"

text \<open>The last handler of a route as one of the chain.\<close>

definition as_func :: "'d gin_handler \<Rightarrow> 'd handler_func" where
  "as_func h c = (case h c of (c', Some a) \<Rightarrow> (c', Panics a) | (c', None) \<Rightarrow> (c', Returns Nil_Any))"

text \<open>\<open>GinCtxSet\<close> (\<open>ginx/ctx.go\<close>): the value goes into the context of \<open>gin\<close> and into that of the request.\<close>

definition GinCtxSet :: "string \<Rightarrow> 'v \<Rightarrow> (string \<rightharpoonup> 'v) \<times> (string \<rightharpoonup> 'v) \<Rightarrow> (string \<rightharpoonup> 'v) \<times> (string \<rightharpoonup> 'v)" where
  "GinCtxSet key v ctx = ((fst ctx)(key \<mapsto> v), (snd ctx)(key \<mapsto> v))"

section \<open>Properties\<close>

lemma convert_as_func: "convert_one stack (as_func h) = h"
  by (auto simp: fun_eq_iff convert_one_def as_func_def split: prod.splits option.splits)

definition silent :: "'d handler_func \<Rightarrow> bool" where
  "silent f \<longleftrightarrow> (\<forall>c. writes (fst (f c)) = writes c \<and> aborted (fst (f c)) = aborted c)"

definition open_ctx :: "'d gin_ctx \<Rightarrow> bool" where
  "open_ctx c \<longleftrightarrow> writes c = [] \<and> \<not> aborted c"

lemma silent_open: "silent f \<Longrightarrow> f c = (c', r) \<Longrightarrow> open_ctx c \<Longrightarrow> open_ctx c'"
  by (metis fst_conv open_ctx_def silent_def)

lemma expire_simps [simp]:
  "expire False c = c"
  "open_ctx c \<Longrightarrow> writes (expire True c) = [(504, None)]"
  "aborted (expire True c)" "invoked (expire h c) = invoked c"
  by (simp_all add: expire_def open_ctx_def Written_def AbortWithStatus_def)

lemma timed_aborted: "aborted c \<Longrightarrow> writes c \<noteq> [] \<Longrightarrow> \<exists>c'. timed_next stack late hs c = (c', None) \<and>
    writes c' = writes c \<and> invoked c' = invoked c"
proof (cases hs)
  case (Cons h hs')
  assume "aborted c" "writes c \<noteq> []"
  with Cons show ?thesis by (cases h) (auto simp: expire_def Written_def Let_def)
qed (auto simp: expire_def Written_def)

fun timed_handlers :: "'d timed list \<Rightarrow> 'd handler_func list" where
  "timed_handlers [] = []"
| "timed_handlers ((before, during, f) # hs) = f # timed_handlers hs"

lemma timed_pass:
  assumes "\<forall>(b, d, f) \<in> set pre. \<not> b \<and> \<not> d \<and> silent f" "open_ctx c"
    and "run_guards (timed_handlers pre) c = Inl c'"
  shows "open_ctx c' \<and> timed_next stack late (pre @ hs) c = timed_next stack late hs c'"
  using assms
proof (induction pre arbitrary: c)
  case (Cons x pre)
  obtain f where x: "x = (False, False, f)" "silent f" using Cons.prems(1) by (cases x) auto
  obtain e r where f: "f c = (e, r)" by fastforce
  have "run_guards (f # timed_handlers pre) c = Inl c'" using Cons.prems(3) by (simp add: x(1))
  with f have r: "r = Returns Nil_Any" "run_guards (timed_handlers pre) e = Inl c'"
    by (cases r; simp split: if_splits)+
  have "open_ctx e" by (rule silent_open [OF x(2) f Cons.prems(2)])
  with Cons.IH [OF _ this r(2)] Cons.prems(1,2) show ?case
    by (simp add: x f r(1) open_ctx_def)
qed simp

lemma timed_without_hits:
  "timed_next stack False (map (\<lambda>f. (False, False, f)) fs) c = next_handlers (handlerConvert stack fs) c"
proof (induction fs arbitrary: c)
  case (Cons f fs)
  obtain c' r where f: "f c = (c', r)" by fastforce
  obtain e p where w: "wrapError stack err False c' = (e, p)" if "r = Returns err" for err
    by (cases r) fastforce+
  show ?case
  proof (cases "aborted c")
    case False
    then show ?thesis using f w Cons.IH
      by (cases r; cases p) (simp_all add: handlerConvert_def convert_one_def)
  qed (simp add: handlerConvert_def)
qed (simp add: handlerConvert_def)

lemma time_out_request:
  "BasicMiddleware stack [convert_one stack (time_out_hand stack late hs)] c =
     (case timed_next stack late hs c of
        (c1, Some a) \<Rightarrow> handlePanic stack (Some a) c1
      | (c1, None) \<Rightarrow> (case wrapResponse stack c1 of (c2, p) \<Rightarrow> handlePanic stack p c2))" if "\<not> aborted c"
  using that by (simp add: BasicMiddleware_def convert_one_def time_out_hand_def split: prod.split option.split)


definition idle_ctx :: "unit gin_ctx" where
  "idle_ctx = \<lparr>request = \<lparr>query = (\<lambda>_. ''''), path_param = (\<lambda>_. ''''), header = (\<lambda>_. ''''), raw_body = ''''\<rparr>,
     func_result = None, aborted = False, writes = [], invoked = []\<rparr>"


end
