(* ===== verification/Mongo.thy ===== *)
theory Mongo
  imports Resource_Manager "HOL-Library.Word"
begin

text \<open>
  The MongoDB layer \<open>mongox\<close>: filters (\<open>filter.go\<close>), the common part of documents (\<open>model.go\<close>), object ids
  from times (\<open>objectId.go\<close>) and the operations of a collection (\<open>collection.go\<close>). An operation is the
  commands it sends, in order, and the answer it hands back; the server (\<open>run\<close>) is a parameter, as
  are filters, updates and options a caller passes through. Documents of a call are distinct objects.
\<close>

section \<open>Filters\<close>

text \<open>A field of a filter is a map of operators, or anything else a caller has put there.\<close>

datatype 'v fval = M "string \<rightharpoonup> 'v" | Not_M 'v

type_synonym 'v mongo_filter = "string \<rightharpoonup> 'v fval"

definition op_eq :: string where "op_eq = ''$eq''"
definition op_lt :: string where "op_lt = ''$lt''"
definition op_in :: string where "op_in = ''$in''"

definition Eq :: "string \<Rightarrow> 'v \<Rightarrow> 'v mongo_filter" where
  "Eq key value = [key \<mapsto> M [op_eq \<mapsto> value]]"

definition In :: "string \<Rightarrow> 'v \<Rightarrow> 'v mongo_filter" where
  "In key value = [key \<mapsto> M [op_in \<mapsto> value]]"

definition Lt :: "string \<Rightarrow> 'v \<Rightarrow> 'v mongo_filter" where
  "Lt key value = [key \<mapsto> M [op_lt \<mapsto> value]]"

text \<open>The method changes the filter it is called on and returns it.\<close>

definition filter_set :: "string \<Rightarrow> string \<Rightarrow> 'v \<Rightarrow> 'v mongo_filter \<Rightarrow> 'v mongo_filter outcome" where
  "filter_set opt key value f =
     (case f key of
        None \<Rightarrow> Return (f(key \<mapsto> M [opt \<mapsto> value]))
      | Some (M vmap) \<Rightarrow> Return (f(key \<mapsto> M (vmap(opt \<mapsto> value))))
      | Some (Not_M v) \<Rightarrow> Panic ''interface conversion'')"

definition filter_Eq :: "string \<Rightarrow> 'v \<Rightarrow> 'v mongo_filter \<Rightarrow> 'v mongo_filter outcome" where
  "filter_Eq key value f = filter_set op_eq key value f"

definition filter_Lt :: "string \<Rightarrow> 'v \<Rightarrow> 'v mongo_filter \<Rightarrow> 'v mongo_filter outcome" where
  "filter_Lt key value f = filter_set op_lt key value f"

definition filter_In :: "string \<Rightarrow> 'v \<Rightarrow> 'v mongo_filter \<Rightarrow> 'v mongo_filter outcome" where
  "filter_In key value f = filter_set op_in key value f"

text \<open>The condition a filter puts on a field with an operator.\<close>

definition condition :: "'v mongo_filter \<Rightarrow> string \<times> string \<rightharpoonup> 'v" where
  "condition f = (\<lambda>(key, opt). case f key of Some (M vmap) \<Rightarrow> vmap opt | _ \<Rightarrow> None)"

definition only_maps :: "'v mongo_filter \<Rightarrow> bool" where
  "only_maps f \<longleftrightarrow> (\<forall>key v. f key \<noteq> Some (Not_M v))"

lemma filter_set_condition:
  "only_maps f \<Longrightarrow> \<exists>f'. filter_set opt key value f = Return f' \<and> only_maps f' \<and>
     condition f' = (condition f)((key, opt) \<mapsto> value)"
proof -
  assume f: "only_maps f"
  define vmap where "vmap = (case f key of Some (M m) \<Rightarrow> m | _ \<Rightarrow> Map.empty)"
  define f' where "f' = f(key \<mapsto> M (vmap(opt \<mapsto> value)))"
  have "filter_set opt key value f = Return f'"
    using f by (auto simp: filter_set_def f'_def vmap_def only_maps_def split: option.split fval.split)
  moreover have "only_maps f'" using f by (simp add: only_maps_def f'_def)
  moreover have "condition f' x = ((condition f)((key, opt) \<mapsto> value)) x" for x
    using f by (cases x) (auto simp: condition_def f'_def vmap_def only_maps_def split: option.split fval.split)
  ultimately show ?thesis by blast
qed

text \<open>A chain of calls, each an operator with a key and a value.\<close>

datatype 'v filter_call = Call_Eq string 'v | Call_Lt string 'v | Call_In string 'v

fun start :: "'v filter_call \<Rightarrow> 'v mongo_filter" where
  "start (Call_Eq k v) = Eq k v"
| "start (Call_Lt k v) = Lt k v"
| "start (Call_In k v) = In k v"

fun chain :: "'v filter_call list \<Rightarrow> 'v mongo_filter \<Rightarrow> 'v mongo_filter outcome" where
  "chain [] f = Return f"
| "chain (Call_Eq k v # cs) f = bind_outcome (filter_Eq k v f) (chain cs)"
| "chain (Call_Lt k v # cs) f = bind_outcome (filter_Lt k v f) (chain cs)"
| "chain (Call_In k v # cs) f = bind_outcome (filter_In k v f) (chain cs)"

fun asks :: "'v filter_call \<Rightarrow> (string \<times> string) \<times> 'v" where
  "asks (Call_Eq k v) = ((k, op_eq), v)"
| "asks (Call_Lt k v) = ((k, op_lt), v)"
| "asks (Call_In k v) = ((k, op_in), v)"

lemma chain_condition:
  "only_maps f \<Longrightarrow> \<exists>f'. chain cs f = Return f' \<and> only_maps f' \<and>
     condition f' = condition f ++ map_of (List.map asks (rev cs))"
proof (induction cs arbitrary: f)
  case (Cons c cs)
  obtain opt k v where c: "asks c = ((k, opt), v)" "chain (c # cs) f = bind_outcome (filter_set opt k v f) (chain cs)"
    by (cases c) (auto simp: filter_Eq_def filter_Lt_def filter_In_def)
  obtain f1 where f1: "filter_set opt k v f = Return f1" "only_maps f1"
      "condition f1 = (condition f)((k, opt) \<mapsto> v)"
    using filter_set_condition [OF Cons.prems] by blast
  obtain f' where "chain cs f1 = Return f'" "only_maps f'"
      "condition f' = condition f1 ++ map_of (List.map asks (rev cs))"
    using Cons.IH [OF f1(2)] by blast
  moreover have "(condition f)((k, opt) \<mapsto> v) ++ map_of (List.map asks (rev cs)) =
      condition f ++ map_of (List.map asks (rev (c # cs)))"
    by (simp add: c(1) map_of_append map_add_assoc [symmetric] del: map_add_assoc)
      (auto simp: map_add_def fun_eq_iff split: option.split)
  ultimately show ?case by (auto simp: c(2) f1)
qed simp

text \<open>
  A filter built by \<open>Eq\<close>, \<open>Lt\<close> or \<open>In\<close> and any further such calls asks for the conjunction of what the
  calls say, and the last call wins for each field and operator: the filter is the map from fields and
  operators to values that the calls update one after the other. It never panics.
\<close>

theorem filter_refines_map:
  "\<exists>f. chain cs (start c) = Return f \<and> condition f = map_of (List.map asks (rev (c # cs)))"
proof -
  have "only_maps (start c) \<and> condition (start c) = map_of [asks c]"
    by (cases c) (auto simp: only_maps_def condition_def Eq_def Lt_def In_def fun_eq_iff)
  then show ?thesis using chain_condition [of "start c" cs] by (auto simp: map_of_append)
qed

section \<open>Object ids from times\<close>

text \<open>\<open>uint32(date.Unix())\<close> in big-endian order, then eight zero bytes.\<close>

definition put_uint32 :: "32 word \<Rightarrow> 8 word list" where
  "put_uint32 w = [ucast (drop_bit 24 w), ucast (drop_bit 16 w), ucast (drop_bit 8 w), ucast w]"

definition TimeToObjectId :: "int \<Rightarrow> 8 word list" where
  "TimeToObjectId unix = put_uint32 (word_of_int unix) @ replicate 8 0"

definition be_value :: "8 word list \<Rightarrow> nat" where
  "be_value bs = foldl (\<lambda>acc b. 256 * acc + unat b) 0 bs"

lemma unat_byte: "unat (ucast (drop_bit n (w :: 32 word)) :: 8 word) = (unat w div 2 ^ n) mod 256"
proof -
  have "unat w < 2 ^ LENGTH(32)" by (rule unsigned_less)
  then show ?thesis
    by (simp add: unsigned_ucast_eq unsigned_drop_bit_eq take_bit_eq_mod) (simp add: drop_bit_eq_div)
qed

lemma put_uint32_value: "be_value (put_uint32 w) = unat w"
proof -
  have "unat w < 2 ^ LENGTH(32)" by (rule unsigned_less)
  then have w: "unat w div 16777216 mod 256 = unat w div 16777216" by simp
  have d: "unat w div 16777216 = unat w div 65536 div 256" "unat w div 65536 = unat w div 256 div 256"
    by (simp_all add: div_mult2_eq [symmetric])
  have bytes: "unat (ucast (drop_bit 24 w) :: 8 word) = unat w div 16777216"
    "unat (ucast (drop_bit 16 w) :: 8 word) = unat w div 65536 mod 256"
    "unat (ucast (drop_bit 8 w) :: 8 word) = unat w div 256 mod 256"
    "unat (ucast w :: 8 word) = unat w mod 256"
    using w unat_byte [of 24 w] unat_byte [of 16 w] unat_byte [of 8 w] unat_byte [of 0 w] by simp_all
  have join: "256 * (unat w div 16777216) + unat w div 65536 mod 256 = unat w div 65536"
    "256 * (unat w div 65536) + unat w div 256 mod 256 = unat w div 256"
    "256 * (unat w div 256) + unat w mod 256 = unat w"
    by (simp_all only: d(1)) (simp_all only: d(2) mult_div_mod_eq)
  have "be_value [b3, b2, b1, b0] = 256 * (256 * (256 * unat b3 + unat b2) + unat b1) + unat b0" for b3 b2 b1 b0
    by (simp add: be_value_def)
  then show ?thesis by (simp only: put_uint32_def bytes join)
qed

text \<open>Comparing bytes from the left compares the numbers they stand for.\<close>

lemma be_value_append: "be_value (xs @ ys) = be_value xs * 256 ^ length ys + be_value ys"
proof -
  have "foldl (\<lambda>acc b. 256 * acc + unat b) n ys = n * 256 ^ length ys + be_value ys" for n and ys :: "8 word list"
  proof (induction ys arbitrary: n)
    case (Cons y ys)
    have "(256 * n + unat y) * 256 ^ length ys = n * (256 * 256 ^ length ys) + unat y * 256 ^ length ys"
      by (simp only: add_mult_distrib mult.assoc mult.left_commute [of 256 n])
    moreover have "be_value (y # ys) = unat y * 256 ^ length ys + be_value ys"
      using Cons.IH [of "unat y"] by (simp only: be_value_def foldl_Cons mult_0_right add_0_left)
    ultimately show ?case
      by (simp only: foldl_Cons Cons.IH list.size power_Suc add.assoc One_nat_def add_Suc_right add_0_right)
  qed (simp add: be_value_def)
  from this [of "be_value xs" ys] show ?thesis
    by (simp only: be_value_def [of "xs @ ys"] be_value_def [of xs, symmetric] foldl_append)
qed

lemma be_byte_less: "unat (b :: 8 word) < 256"
proof -
  have "unat b < 2 ^ LENGTH(8)" by (rule unsigned_less)
  then show ?thesis by simp
qed

lemma be_value_bound: "be_value xs < 256 ^ length xs"
proof (induction xs rule: rev_induct)
  case (snoc x xs)
  then show ?case using be_byte_less [of x] be_value_append [of xs "[x]"] by (simp add: be_value_def)
qed (simp add: be_value_def)

lemma be_value_Cons: "be_value (x # xs) = unat x * 256 ^ length xs + be_value xs"
  using be_value_append [of "[x]" xs] by (simp add: be_value_def)

lemma lex_be_value:
  "length xs = length ys \<Longrightarrow> ord_class.lexordp_eq xs ys \<longleftrightarrow> be_value xs \<le> be_value ys"
proof (induction xs ys rule: list_induct2)
  case (Cons x xs y ys)
  let ?B = "(256 :: nat) ^ length ys"
  have b: "be_value xs < ?B" "be_value ys < ?B"
    using be_value_bound [of xs] be_value_bound [of ys] Cons.hyps by simp_all
  have step: "a * ?B + be_value xs < c * ?B + be_value ys" if "a < c" for a c
  proof -
    have "a * ?B + be_value xs < Suc a * ?B" using b(1) by simp
    also have "\<dots> \<le> c * ?B" using that by (intro mult_le_mono1) simp
    finally show ?thesis by simp
  qed
  have step': "c * ?B + be_value ys < a * ?B + be_value xs" if "c < a" for a c
  proof -
    have "c * ?B + be_value ys < Suc c * ?B" using b(2) by simp
    also have "\<dots> \<le> a * ?B" using that by (intro mult_le_mono1) simp
    finally show ?thesis by simp
  qed
  consider "x < y" | "x = y" | "y < x" by force
  then show ?case
    using Cons step [of "unat x" "unat y"] step' [of "unat y" "unat x"]
    by cases (auto simp: be_value_Cons word_less_nat_alt)
qed simp

lemma be_value_zeros: "be_value (replicate n 0) = 0"
  by (induction n) (simp_all add: be_value_Cons, simp add: be_value_def)

text \<open>
  The object ids made from times compare like the times, byte by byte from the left as the server
  compares them, as long as the times fit in 32 bits; outside of that range (before 1970, from February
  2106 on) the seconds are taken modulo 2 ^ 32.
\<close>

theorem object_ids_ordered:
  assumes "0 \<le> s" "s < 2 ^ 32" "0 \<le> t" "t < 2 ^ 32"
  shows "(ord_class.lexordp_eq (TimeToObjectId s) (TimeToObjectId t) \<longleftrightarrow> s \<le> t) \<and>
    length (TimeToObjectId s) = 12 \<and> TimeToObjectId (s + 2 ^ 32) = TimeToObjectId s"
proof -
  have v: "unat (word_of_int u :: 32 word) = nat u" if "0 \<le> u" "u < 2 ^ 32" for u
    using that by (simp add: unsigned_of_int take_bit_eq_mod unat_eq_nat_uint uint_word_of_int)
  have id: "be_value (TimeToObjectId u) = nat u * 256 ^ 8" if "0 \<le> u" "u < 2 ^ 32" for u
    using v [OF that] be_value_zeros [of 8]
    by (simp only: TimeToObjectId_def be_value_append put_uint32_value length_replicate add_0_right)
  have "ord_class.lexordp_eq (TimeToObjectId s) (TimeToObjectId t) \<longleftrightarrow>
      be_value (TimeToObjectId s) \<le> be_value (TimeToObjectId t)"
    by (rule lex_be_value) (simp add: TimeToObjectId_def put_uint32_def)
  also have "\<dots> \<longleftrightarrow> s \<le> t" using id assms by (simp add: nat_le_eq_zle)
  moreover have "(word_of_int (s + 2 ^ 32) :: 32 word) = word_of_int s"
    by (simp add: word_of_int_eq_iff take_bit_eq_mod)
  then have "TimeToObjectId (s + 2 ^ 32) = TimeToObjectId s" by (simp only: TimeToObjectId_def)
  moreover have "length (TimeToObjectId s) = 12" by (simp add: TimeToObjectId_def put_uint32_def)
  ultimately show ?thesis by blast
qed

end
