(* ===== verification/Mongo_Collection.thy ===== *)
theory Mongo_Collection
  imports Mongo
begin

text \<open>
  Documents and collections of \<open>mongox\<close> (\<open>model.go\<close>, \<open>collection.go\<close>): what \<open>Write\<close> does to the common
  part of a document, and which commands the operations of a collection send.
\<close>

section \<open>The common part of documents\<close>

text \<open>An id is absent when it is zero; times are what the clock says.\<close>

record 'id base =
  Id :: "'id option"
  TenantId :: string
  UpdateTime :: int

text \<open>The context holds the tenant as a string, or something else, or is \<open>nil\<close>.\<close>

datatype ctx_value = Ctx_Str string | Ctx_Other
datatype ctx = Nil_Ctx | Ctx "string \<rightharpoonup> ctx_value"

definition ContextTenantId :: string where "ContextTenantId = ''tenantId''"

definition setTenantId :: "ctx \<Rightarrow> 'id base \<Rightarrow> 'id base" where
  "setTenantId ctx b =
     (case ctx of
        Nil_Ctx \<Rightarrow> b
      | Ctx values \<Rightarrow>
          (case values ContextTenantId of
             Some (Ctx_Str tenantId) \<Rightarrow> b\<lparr>TenantId := tenantId\<rparr>
           | _ \<Rightarrow> b))"

text \<open>\<open>newId\<close> is what \<open>bson.NewObjectID\<close> would return here, \<open>now\<close> the time.\<close>

definition base_Write :: "ctx \<Rightarrow> 'id \<Rightarrow> int \<Rightarrow> 'id base \<Rightarrow> 'id base" where
  "base_Write ctx newId now b =
     (let b1 = (if Id b = None then b\<lparr>Id := Some newId\<rparr> else b);
          b2 = b1\<lparr>UpdateTime := now\<rparr>
      in if TenantId b2 = '''' then setTenantId ctx b2 else b2)"

definition GetId :: "'id base \<Rightarrow> 'id option" where
  "GetId b = Id b"

definition NewBase :: "ctx \<Rightarrow> 'id \<Rightarrow> int \<Rightarrow> 'id base" where
  "NewBase ctx newId now = base_Write ctx newId now \<lparr>Id = None, TenantId = '''', UpdateTime = 0\<rparr>"

section \<open>Collections\<close>

text \<open>
  \<open>InitDB\<close> (\<open>database.go\<close>): the package's database is set when the connection answers, and left as it was
  otherwise. \<open>connect\<close>, \<open>ping\<close> and \<open>open_db\<close> are the driver.
\<close>

definition InitDB ::
  "(string \<Rightarrow> string + 'client) \<Rightarrow> ('client \<Rightarrow> string option) \<Rightarrow> ('client \<Rightarrow> string \<Rightarrow> 'db) \<Rightarrow> string \<Rightarrow> string
     \<Rightarrow> 'db option \<Rightarrow> string option \<times> 'db option" where
  "InitDB connect ping open_db uri dbname old =
     (case connect uri of
        Inl e \<Rightarrow> (Some e, old)
      | Inr conn \<Rightarrow>
          (case ping conn of
             Some e \<Rightarrow> (Some e, old)
           | None \<Rightarrow> (None, Some (open_db conn dbname))))"

text \<open>
  A selection is \<open>bson.M{"_id": id}\<close> or what the caller gives, an update \<open>bson.M{"$set": doc}\<close> or what
  the caller gives. \<open>'x\<close> stands for a value the code passes on.
\<close>

datatype ('id, 'x) selection = By_Id "'id option" | Given 'x
datatype ('id, 'x) change = Set_Doc "'id base \<times> 'x" | Change 'x

datatype ('id, 'x) command =
    Create_Indexes string "'x list"
  | Find_One string "('id, 'x) selection"
  | Find_Many string 'x
  | Aggregate_Cmd string "'x list"
  | Insert_One string "'id base \<times> 'x"
  | Insert_Raw string 'x              \<comment> \<open>a document that is not a \<open>CollInterface\<close>\<close>
  | Insert_Many string "('id base \<times> 'x) list"
  | Update_One string "('id, 'x) selection" "('id, 'x) change"
  | Bulk_Write string "(('id, 'x) selection \<times> ('id, 'x) change \<times> bool) list"
  | Bulk_Given string "'x list"

record 'x coll =
  CollName :: string
  Indexes :: "'x list"

text \<open>
  \<open>getColl\<close>, through the manager of \<open>syncx\<close>: the first use of a name creates the collection and its
  indexes, and the error of their creation is logged and dropped. \<open>colls\<close> is what the manager holds. The
  package's database has been set by \<open>InitDB\<close>.
\<close>

type_synonym ('id, 'x) sent = "('id, 'x) command list"

definition getColl :: "'x coll \<Rightarrow> (string \<rightharpoonup> string) \<Rightarrow> ('id, 'x) sent \<times> string \<times> (string \<rightharpoonup> string)" where
  "getColl coll colls =
     (let create = (CollName coll, None :: string option);
          ((resource, _), colls') = get_resource (CollName coll) create colls
      in (if colls (CollName coll) = None \<and> length (Indexes coll) \<noteq> 0
          then [Create_Indexes (CollName coll) (Indexes coll)] else [], resource, colls'))"

definition GetColl :: "'x coll \<Rightarrow> (string \<rightharpoonup> string) \<Rightarrow> ('id, 'x) sent \<times> string \<times> (string \<rightharpoonup> string)" where
  "GetColl t colls = getColl t colls"

text \<open>
  An operation: the commands it sends, the answer it returns, and the manager afterwards. \<open>run\<close> is the
  driver: its answer to a command, errors included.
\<close>

definition on_coll ::
  "'x coll \<Rightarrow> (string \<Rightarrow> ('id, 'x) command) \<Rightarrow> (('id, 'x) command \<Rightarrow> 'r) \<Rightarrow> (string \<rightharpoonup> string)
     \<Rightarrow> ('id, 'x) sent \<times> 'r \<times> (string \<rightharpoonup> string)" where
  "on_coll t cmd run colls = (case getColl t colls of (es, c, colls') \<Rightarrow> (es @ [cmd c], run (cmd c), colls'))"

text \<open>\<open>run\<close> of the first two is \<open>FindOne\<close> of the driver with \<open>Decode\<close>.\<close>

definition FindOne ::
  "'x coll \<Rightarrow> 'x \<Rightarrow> (('id, 'x) command \<Rightarrow> 'r option \<times> string option) \<Rightarrow> (string \<rightharpoonup> string)
     \<Rightarrow> ('id, 'x) sent \<times> ('r option \<times> string option) \<times> (string \<rightharpoonup> string)" where
  "FindOne t flt = on_coll t (\<lambda>c. Find_One c (Given flt))"

definition FindById ::
  "'x coll \<Rightarrow> 'id option \<Rightarrow> (('id, 'x) command \<Rightarrow> 'r option \<times> string option) \<Rightarrow> (string \<rightharpoonup> string)
     \<Rightarrow> ('id, 'x) sent \<times> ('r option \<times> string option) \<times> (string \<rightharpoonup> string)" where
  "FindById t i = on_coll t (\<lambda>c. Find_One c (By_Id i))"

text \<open>
  A query has a cursor for its answer, which is read to the end: \<open>query\<close> is \<open>Find\<close> or \<open>Aggregate\<close> of the
  driver, \<open>all_of\<close> is \<open>All\<close>, and \<open>res\<close> the value that stands where the results go.
\<close>

definition read_cursor ::
  "('cmd \<Rightarrow> string + 'cur) \<Rightarrow> ('cur \<Rightarrow> 'r \<times> string option) \<Rightarrow> 'r \<Rightarrow> 'cmd \<Rightarrow> 'r \<times> string option" where
  "read_cursor query all_of res cmd =
     (case query cmd of Inl e \<Rightarrow> (res, Some e) | Inr cur \<Rightarrow> all_of cur)"

definition Find ::
  "'x coll \<Rightarrow> 'x \<Rightarrow> (('id, 'x) command \<Rightarrow> string + 'cur) \<Rightarrow> ('cur \<Rightarrow> 'r list \<times> string option) \<Rightarrow> (string \<rightharpoonup> string)
     \<Rightarrow> ('id, 'x) sent \<times> ('r list \<times> string option) \<times> (string \<rightharpoonup> string)" where
  "Find t flt query all_of = on_coll t (\<lambda>c. Find_Many c flt) (read_cursor query all_of [])"

definition Aggregate ::
  "'x coll \<Rightarrow> 'x list \<Rightarrow> (('id, 'x) command \<Rightarrow> string + 'cur) \<Rightarrow> ('cur \<Rightarrow> 'r \<times> string option) \<Rightarrow> 'r \<Rightarrow> (string \<rightharpoonup> string)
     \<Rightarrow> ('id, 'x) sent \<times> ('r \<times> string option) \<times> (string \<rightharpoonup> string)" where
  "Aggregate t pipeline query all_of res = on_coll t (\<lambda>c. Aggregate_Cmd c pipeline) (read_cursor query all_of res)"

text \<open>A document: one with the methods of \<open>CollInterface\<close>, here those of \<open>Base\<close>, or any other value.\<close>

datatype ('id, 'x) document = Coll_Doc "'id base" 'x | Plain_Doc 'x

definition InsertOne ::
  "'x coll \<Rightarrow> ctx \<Rightarrow> 'id \<Rightarrow> int \<Rightarrow> ('id, 'x) document \<Rightarrow> (('id, 'x) command \<Rightarrow> 'r) \<Rightarrow> (string \<rightharpoonup> string) \<Rightarrow> ('id, 'x) sent \<times> 'r \<times> (string \<rightharpoonup> string)" where
  "InsertOne t ctx newId now document =
     (case document of
        Coll_Doc b x \<Rightarrow> on_coll t (\<lambda>c. Insert_One c (base_Write ctx newId now b, x))
      | Plain_Doc x \<Rightarrow> on_coll t (\<lambda>c. Insert_Raw c x))"

text \<open>The loops over documents, with the ids \<open>newIds\<close> would hand out one after the other.\<close>

fun write_all :: "ctx \<Rightarrow> (nat \<Rightarrow> 'id) \<Rightarrow> (nat \<Rightarrow> int) \<Rightarrow> nat \<Rightarrow> ('id base \<times> 'x) list \<Rightarrow> ('id base \<times> 'x) list" where
  "write_all ctx newIds now i [] = []"
| "write_all ctx newIds now i ((b, x) # documents) =
     (base_Write ctx (newIds i) (now i) b, x) # write_all ctx newIds now (Suc i) documents"

definition InsertMany ::
  "'x coll \<Rightarrow> ctx \<Rightarrow> (nat \<Rightarrow> 'id) \<Rightarrow> (nat \<Rightarrow> int) \<Rightarrow> ('id base \<times> 'x) list \<Rightarrow> (('id, 'x) command \<Rightarrow> 'r) \<Rightarrow> (string \<rightharpoonup> string)
     \<Rightarrow> ('id, 'x) sent \<times> 'r \<times> (string \<rightharpoonup> string)" where
  "InsertMany t ctx newIds now documents =
     on_coll t (\<lambda>c. Insert_Many c (write_all ctx newIds now 0 documents))"

definition UpdateOne ::
  "'x coll \<Rightarrow> ('id, 'x) selection \<Rightarrow> ('id, 'x) change \<Rightarrow> (('id, 'x) command \<Rightarrow> 'r) \<Rightarrow> (string \<rightharpoonup> string) \<Rightarrow> ('id, 'x) sent \<times> 'r \<times> (string \<rightharpoonup> string)" where
  "UpdateOne t flt update = on_coll t (\<lambda>c. Update_One c flt update)"

definition SetById ::
  "'x coll \<Rightarrow> ctx \<Rightarrow> 'id \<Rightarrow> int \<Rightarrow> 'id base \<times> 'x \<Rightarrow> (('id, 'x) command \<Rightarrow> 'r) \<Rightarrow> (string \<rightharpoonup> string) \<Rightarrow> ('id, 'x) sent \<times> 'r \<times> (string \<rightharpoonup> string)" where
  "SetById t ctx newId now obj =
     (case obj of (b, x) \<Rightarrow>
        (let b' = base_Write ctx newId now b in UpdateOne t (By_Id (GetId b')) (Set_Doc (b', x))))"

text \<open>A model of the bulk write: selection, update, upsert.\<close>

fun upsert_models :: "ctx \<Rightarrow> (nat \<Rightarrow> 'id) \<Rightarrow> (nat \<Rightarrow> int) \<Rightarrow> nat \<Rightarrow> ('id base \<times> 'x) list
    \<Rightarrow> (('id, 'x) selection \<times> ('id, 'x) change \<times> bool) list" where
  "upsert_models ctx newIds now i [] = []"
| "upsert_models ctx newIds now i ((b, x) # documents) =
     (let b' = base_Write ctx (newIds i) (now i) b
      in (By_Id (GetId b'), Set_Doc (b', x), True) # upsert_models ctx newIds now (Suc i) documents)"

definition BulkWrite :: "'x coll \<Rightarrow> 'x list \<Rightarrow> (('id, 'x) command \<Rightarrow> 'r) \<Rightarrow> (string \<rightharpoonup> string) \<Rightarrow> ('id, 'x) sent \<times> 'r \<times> (string \<rightharpoonup> string)" where
  "BulkWrite t models = on_coll t (\<lambda>c. Bulk_Given c models)"

definition UpsertManyById ::
  "'x coll \<Rightarrow> ctx \<Rightarrow> (nat \<Rightarrow> 'id) \<Rightarrow> (nat \<Rightarrow> int) \<Rightarrow> ('id base \<times> 'x) list \<Rightarrow> (('id, 'x) command \<Rightarrow> 'r) \<Rightarrow> (string \<rightharpoonup> string)
     \<Rightarrow> ('id, 'x) sent \<times> 'r \<times> (string \<rightharpoonup> string)" where
  "UpsertManyById t ctx newIds now documents =
     on_coll t (\<lambda>c. Bulk_Write c (upsert_models ctx newIds now 0 documents))"

section \<open>What reaches the server\<close>

text \<open>The tenant of a context, if it has one.\<close>

definition tenant_of :: "ctx \<Rightarrow> string option" where
  "tenant_of ctx = (case ctx of Nil_Ctx \<Rightarrow> None | Ctx values \<Rightarrow>
     (case values ContextTenantId of Some (Ctx_Str s) \<Rightarrow> Some s | _ \<Rightarrow> None))"

text \<open>A document as it is stored: it has an id, its old one if it had one, and belongs to a tenant.\<close>

definition stamped :: "ctx \<Rightarrow> 'id base \<Rightarrow> 'id base \<Rightarrow> bool" where
  "stamped ctx b b' \<longleftrightarrow> Id b' \<noteq> None \<and> (Id b \<noteq> None \<longrightarrow> Id b' = Id b) \<and>
     TenantId b' = (if TenantId b \<noteq> '''' then TenantId b
       else case tenant_of ctx of None \<Rightarrow> '''' | Some s \<Rightarrow> s)"

lemma base_Write_stamped [simp]:
  "stamped ctx b (base_Write ctx newId now b)" "UpdateTime (base_Write ctx newId now b) = now"
  by (auto simp: stamped_def base_Write_def setTenantId_def tenant_of_def Let_def
      split: ctx.splits option.splits ctx_value.splits)

lemma write_all_stamped:
  "list_all2 (\<lambda>(b, x) (b', x'). stamped ctx b b' \<and> x' = x) docs (write_all ctx newIds now i docs)"
  by (induction ctx newIds now i docs rule: write_all.induct) auto

lemma upsert_models_eq:
  "upsert_models ctx newIds now i docs =
     List.map (\<lambda>(b', x). (By_Id (Id b'), Set_Doc (b', x), True)) (write_all ctx newIds now i docs)"
  by (induction ctx newIds now i docs rule: write_all.induct) (auto simp: GetId_def Let_def)

text \<open>The documents a command stores, each with the id that selects it where there is a selection.\<close>

fun stored_by :: "('id, 'x) command \<Rightarrow> (('id, 'x) selection option \<times> 'id base \<times> 'x) list" where
  "stored_by (Insert_One c d) = [(None, d)]"
| "stored_by (Insert_Many c ds) = List.map (Pair None) ds"
| "stored_by (Update_One c s (Set_Doc d)) = [(Some s, d)]"
| "stored_by (Bulk_Write c ms) =
     List.map_filter (\<lambda>(s, ch, up). case ch of Set_Doc d \<Rightarrow> Some (Some s, d) | Change x \<Rightarrow> None) ms"
| "stored_by _ = []"

definition stores_stamped ::
  "ctx \<Rightarrow> ('id base \<times> 'x) list \<Rightarrow> (('id, 'x) selection option \<times> 'id base \<times> 'x) list \<Rightarrow> bool" where
  "stores_stamped ctx docs ws \<longleftrightarrow>
     list_all2 (\<lambda>(b, x) (s, b', x'). stamped ctx b b' \<and> x' = x \<and> (s = None \<or> s = Some (By_Id (Id b')))) docs ws"

lemma stores_stamped_map:
  assumes "\<And>d. f d = None \<or> f d = Some (By_Id (Id (fst d)))"
  shows "stores_stamped ctx docs (List.map (\<lambda>d. (f d, d)) (write_all ctx newIds now i docs))"
  unfolding stores_stamped_def list_all2_map2
proof (rule list_all2_mono [OF write_all_stamped [of ctx docs newIds now i]])
  fix d :: "'a base \<times> 'b" and d' :: "'a base \<times> 'b"
  assume d: "(case d of (b, x) \<Rightarrow> \<lambda>(b', x'). stamped ctx b b' \<and> x' = x) d'"
  obtain b x b' x' where "d = (b, x)" "d' = (b', x')" by (cases d; cases d') auto
  with d assms [of d'] show "(case d of (b, x) \<Rightarrow> \<lambda>(s, b', x').
      stamped ctx b b' \<and> x' = x \<and> (s = None \<or> s = Some (By_Id (Id b')))) (f d', d')"
    by simp
qed

text \<open>The indexes go out before the first command of a collection, and once.\<close>

lemma on_coll_sends:
  "on_coll t cmd run colls = (es, ans, colls') \<Longrightarrow> colls (CollName t) \<in> {None, Some (CollName t)} \<Longrightarrow>
    es = (if colls (CollName t) = None \<and> Indexes t \<noteq> [] then [Create_Indexes (CollName t) (Indexes t)] else [])
      @ [cmd (CollName t)] \<and> ans = run (cmd (CollName t)) \<and> colls' (CollName t) = Some (CollName t)"
  by (auto simp: on_coll_def getColl_def rc.get_eq Let_def split: option.splits if_splits)



text \<open>A document that is not a \<open>CollInterface\<close>, such as a struct by value, is inserted without \<open>Write\<close>.\<close>

lemma plain_documents_unstamped:
  "fst (InsertOne t ctx newId now (Plain_Doc x) run [CollName t \<mapsto> CollName t]) = [Insert_Raw (CollName t) x]"
  by (simp add: InsertOne_def on_coll_def getColl_def rc.get_eq)

end
