(* ===== verification/Identifiers.thy ===== *)
theory Identifiers
  imports Go_Prelude "HOL-Library.Word"
begin

text \<open>
  The small helpers of \<open>util\<close>: random and unique identifiers (\<open>random/cryptoRand.go\<close>,
  \<open>random/snoyflake.go\<close>; \<open>ShortUUID\<close> is in \<open>Util\<close>), the keyed hash (\<open>hash/hash.go\<close>) and the check of mail
  addresses (\<open>email.go\<close>), with hexadecimal encoding and the part of regular expressions it needs written
  out. Parameters: what \<open>rand.Read\<close> returns, HMAC-SHA256 and the next id of the generator.
\<close>

section \<open>Hexadecimal\<close>

definition hex_digit :: "nat \<Rightarrow> char" where
  "hex_digit n = ''0123456789abcdef'' ! n"

fun hex_encode :: "8 word list \<Rightarrow> string" where
  "hex_encode [] = []"
| "hex_encode (b # bs) = hex_digit (unat b div 16) # hex_digit (unat b mod 16) # hex_encode bs"

text \<open>\<open>RandHex\<close>: \<open>rand.Read\<close> has filled \<open>got\<close> bytes of the buffer of 16, or failed.\<close>

definition RandHex :: "nat \<Rightarrow> string option \<Rightarrow> 8 word list \<Rightarrow> string outcome" where
  "RandHex got err bytes =
     (case err of Some e \<Rightarrow> Panic e | None \<Rightarrow> Return (hex_encode (take got bytes)))"

definition HMACSha256 :: "(string \<Rightarrow> string \<Rightarrow> 8 word list) \<Rightarrow> string \<Rightarrow> string \<Rightarrow> string" where
  "HMACSha256 mac body salt = hex_encode (mac salt body)"

text \<open>
  \<open>flake\<close> is nil when no machine id was found; the error of \<open>NextID\<close> is dropped, and its id is 0 then.
\<close>

definition Snoyflake :: "(string + 64 word) option \<Rightarrow> 64 word outcome" where
  "Snoyflake flake =
     (case flake of
        None \<Rightarrow> Panic ''nil pointer dereference''
      | Some (Inl e) \<Rightarrow> Return 0
      | Some (Inr i) \<Rightarrow> Return i)"

definition SnoyflakeString :: "(string + 64 word) option \<Rightarrow> string outcome" where
  "SnoyflakeString flake = bind_outcome (Snoyflake flake) (\<lambda>i. Return (dec (unat i)))"

section \<open>Mail addresses\<close>

text \<open>
  A regular expression that is a sequence of classes with a least number of repetitions, anchored at
  both ends. \<open>One\<close> is exactly one character.
\<close>

datatype re_item = One "char \<Rightarrow> bool" | AtLeast nat "char \<Rightarrow> bool"

function re_match :: "re_item list \<Rightarrow> string \<Rightarrow> bool" where
  "re_match [] s \<longleftrightarrow> s = []"
| "re_match (One P # is) [] \<longleftrightarrow> False"
| "re_match (One P # is) (c # cs) \<longleftrightarrow> P c \<and> re_match is cs"
| "re_match (AtLeast 0 P # is) [] \<longleftrightarrow> re_match is []"
| "re_match (AtLeast (Suc n) P # is) [] \<longleftrightarrow> False"
| "re_match (AtLeast 0 P # is) (c # cs) \<longleftrightarrow> re_match is (c # cs) \<or> P c \<and> re_match (AtLeast 0 P # is) cs"
| "re_match (AtLeast (Suc n) P # is) (c # cs) \<longleftrightarrow> P c \<and> re_match (AtLeast n P # is) cs"
  by pat_completeness auto
termination
  by (relation "measures [\<lambda>(is, s). length s, \<lambda>(is, s). length is]") auto

definition is_letter :: "char \<Rightarrow> bool" where
  "is_letter c \<longleftrightarrow> of_char c \<in> {97..122::nat} \<or> of_char c \<in> {65..90::nat}"

definition local_char :: "char \<Rightarrow> bool" where
  "local_char c \<longleftrightarrow> is_letter c \<or> is_digit c \<or> c \<in> set ''._%+-''"

definition domain_char :: "char \<Rightarrow> bool" where
  "domain_char c \<longleftrightarrow> is_letter c \<or> is_digit c \<or> c \<in> set ''.-''"

definition mailRegex :: "re_item list" where
  "mailRegex = [AtLeast 1 local_char, One (\<lambda>c. c = CHR ''@''), AtLeast 1 domain_char,
     One (\<lambda>c. c = CHR ''.''), AtLeast 2 is_letter]"

text \<open>The two messages, in UTF-8.\<close>

definition mail_empty :: string where
  "mail_empty =
     [CHR 0xE9, CHR 0x82, CHR 0xAE, CHR 0xE7, CHR 0xAE, CHR 0xB1,
      CHR 0xE4, CHR 0xB8, CHR 0x8D, CHR 0xE8, CHR 0x83, CHR 0xBD,
      CHR 0xE4, CHR 0xB8, CHR 0xBA, CHR 0xE7, CHR 0xA9, CHR 0xBA]"

definition mail_invalid :: string where
  "mail_invalid =
     [CHR 0xE9, CHR 0x82, CHR 0xAE, CHR 0xE7, CHR 0xAE, CHR 0xB1,
      CHR 0xE6, CHR 0xA0, CHR 0xBC, CHR 0xE5, CHR 0xBC, CHR 0x8F,
      CHR 0xE4, CHR 0xB8, CHR 0x8D, CHR 0xE6, CHR 0xAD, CHR 0xA3,
      CHR 0xE7, CHR 0xA1, CHR 0xAE]"

definition IsEmail :: "string \<Rightarrow> string option" where
  "IsEmail email =
     (if email = '''' then Some mail_empty
      else if \<not> re_match mailRegex email then Some mail_invalid
      else None)"

section \<open>Properties\<close>

lemma hex_digit_inj: "m < 16 \<Longrightarrow> n < 16 \<Longrightarrow> hex_digit m = hex_digit n \<longleftrightarrow> m = n"
proof -
  have "distinct ''0123456789abcdef''" by simp
  then show "m < 16 \<Longrightarrow> n < 16 \<Longrightarrow> hex_digit m = hex_digit n \<longleftrightarrow> m = n"
    unfolding hex_digit_def by (intro nth_eq_iff_index_eq) simp_all
qed

lemma hex_encode_inj: "hex_encode xs = hex_encode ys \<longleftrightarrow> xs = ys"
proof (induction xs arbitrary: ys)
  case Nil
  then show ?case by (cases ys) simp_all
next
  case (Cons x xs)
  have digits: "hex_digit (unat x div 16) = hex_digit (unat y div 16) \<and> hex_digit (unat x mod 16) = hex_digit (unat y mod 16)
      \<longleftrightarrow> x = y" for y :: "8 word"
  proof -
    have "unat x < 256" "unat y < 256" using unsigned_less [of x] unsigned_less [of y] by simp_all
    then show ?thesis
      by (simp add: hex_digit_inj) (metis div_mult_mod_eq word_unat_eq_iff)
  qed
  show ?case
  proof (cases ys)
    case (Cons y ys')
    with digits [of y] Cons.IH show ?thesis by auto
  qed simp
qed

lemma hex_encode_length: "length (hex_encode bs) = 2 * length bs"
  by (induction bs) simp_all

text \<open>
  The identifiers. \<open>RandHex\<close> has 32 hexadecimal digits and is as unique as the 16 bytes it was read from;
  \<open>HMACSha256\<close> tells two hashes apart; ids of \<open>SnoyflakeString\<close> are equal exactly if the numbers are,
  and every failed one is \<open>0\<close>.
\<close>

theorem rand_hex_exact:
  assumes "length xs = 16" "length ys = 16"
  shows "\<exists>s t. RandHex 16 None xs = Return s \<and> RandHex 16 None ys = Return t \<and> length s = 32 \<and> (s = t \<longleftrightarrow> xs = ys)"
  using assms by (simp add: RandHex_def hex_encode_length hex_encode_inj)

theorem snoyflake_failures_collide:
  "SnoyflakeString (Some (Inl e)) = Return ''0'' \<and> SnoyflakeString (Some (Inl e)) = SnoyflakeString (Some (Inl e'))"
  by (simp add: SnoyflakeString_def Snoyflake_def dec.simps digit_char_def char_of_eq_iff)

lemma re_match_one: "re_match (One P # is) s \<longleftrightarrow> (\<exists>c v. s = c # v \<and> P c \<and> re_match is v)"
  by (cases s) auto

lemma re_match_at_least:
  "re_match (AtLeast n P # is) s \<longleftrightarrow> (\<exists>u v. s = u @ v \<and> n \<le> length u \<and> list_all P u \<and> re_match is v)"
proof (induction s arbitrary: n)
  case Nil
  then show ?case by (cases n) auto
next
  case (Cons c cs)
  have split: "(\<exists>u v. c # cs = u @ v \<and> Q u v) \<longleftrightarrow> Q [] (c # cs) \<or> (\<exists>u v. cs = u @ v \<and> Q (c # u) v)" for Q
    unfolding Cons_eq_append_conv by blast
  show ?case unfolding split by (cases n) (simp_all add: Cons.IH, blast+)
qed

text \<open>
  \<open>IsEmail\<close> accepts exactly the texts of the form \<open>local@domain.top\<close>, the local part and the domain not
  empty and of the admitted characters, the top level of at least two letters.
\<close>

theorem is_email_exact:
  "IsEmail s = None \<longleftrightarrow>
    (\<exists>l d t. s = l @ ''@'' @ d @ ''.'' @ t \<and> l \<noteq> [] \<and> list_all local_char l \<and> d \<noteq> [] \<and> list_all domain_char d \<and>
      2 \<le> length t \<and> list_all is_letter t)"
proof -
  have m: "re_match mailRegex s \<longleftrightarrow> (\<exists>l d t. s = l @ ''@'' @ d @ ''.'' @ t \<and> l \<noteq> [] \<and> list_all local_char l \<and>
      d \<noteq> [] \<and> list_all domain_char d \<and> 2 \<le> length t \<and> list_all is_letter t)" for s
    unfolding mailRegex_def re_match_at_least re_match_one by (auto simp: Suc_le_eq) blast+
  have "\<not> re_match mailRegex ''''" unfolding m by simp
  then show ?thesis using m by (auto simp: IsEmail_def)
qed

end
