(* ===== verification/Spec2Isabelle.thy ===== *)
theory Spec2Isabelle
  imports Registry_Props Resource_Manager Pg_Example Pg_History Pg_Typing Cache_History Dist_Flight_Items Dist_Start Composition
    Security_Token Gen_Props Worker_Pool Message_Queue_Props Web_Timeout Mongo_Collection Identifiers
begin

text \<open>
  Verification of \<open>g-micor\<close>, a Go toolkit for micro services: a registration center with which
  services find each other (\<open>discover\<close>), helpers for concurrent work (\<open>syncx\<close>), access to
  PostgreSQL (\<open>pgsql\<close>), Redis (\<open>redisx\<close>) and MongoDB (\<open>mongox\<close>), and the web, log and start-up
  layers around them.

  \<^bold>\<open>How the parts interact.\<close> A service registers its names with the center and subscribes to the names it
  asks for; the center calls back when an address appears or dies. \<open>pgsql\<close> derives a table from a
  struct type once and keeps it in a \<open>ResourceManager\<close>, which runs its constructor under a
  \<open>SingleFlight\<close>; the operations of a table render their statement with the builders of
  \<open>where.go\<close> and \<open>update.go\<close>, send the field values through \<open>getValue\<close> and read rows back with
  the scan plan of the table. The caches of \<open>redisx\<close> put a codec and a key prefix before the
  commands of the server.

  \<^bold>\<open>Theories and sources.\<close>
  \<^item> \<open>Go_Prelude\<close>: outcomes of calls, reachable states with the locale \<open>transition_invariant\<close>,
    decimal numerals. \<open>Go_Slice\<close>: slices as views of shared arrays, with \<open>append\<close>, re-slicing and
    the compaction loop the center uses; the locale \<open>slice_ops\<close> states which slices an operation
    may disturb and is interpreted on that heap.
  \<^item> \<open>Keyed_Store\<close>: the locale \<open>keyed_store\<close> states what clients of a cache or a repository rely on, look-ups and
    changes that act on a map, and what follows for any sequence of accesses.
  \<^item> \<open>Registry\<close> (\<open>discover/server.go\<close>): the record \<open>service\<close> is the struct \<open>Service\<close>, one
    definition per critical section (\<open>register_commit\<close>, \<open>discover_subscribe\<close>,
    \<open>unhealthy_commit\<close>, \<open>remove_subscriber\<close>) and their composition into \<open>register\<close>, \<open>discover\<close>,
    \<open>handle_unhealthy\<close>, \<open>perform_health_check\<close> and \<open>startHealthCheck\<close>, which makes one pass per
    tick; \<open>Run_center\<close> is the life of the server. \<open>Registry_Spec\<close> holds the invariant and its
    preservation, \<open>Registry_Props\<close> what the operations do, in isolation and interleaved.
  \<^item> \<open>Singleflight\<close> (\<open>syncx/singleflight.go\<close>): a machine with one step per critical section of
    \<open>DoEx\<close>, \<open>createCall\<close> and \<open>makeCall\<close>, for any number of goroutines and any function body.
    \<open>Singleflight_Props\<close>: mutual exclusion, agreement of the results, no lost wake-up, and the
    locale \<open>exclusive_body\<close> for bodies that own state while they run.
  \<^item> \<open>Resource_Manager\<close> (\<open>syncx/resourcemanager.go\<close>): the closure of \<open>GetResource\<close> as such a body,
    \<open>Inject\<close>, and the sequential view \<open>get_resource\<close> that the clients use (locale
    \<open>resource_cache\<close>).
  \<^item> \<open>Sql_Text\<close> and \<open>Sql_Builder\<close> (\<open>pgsql/where.go\<close>, \<open>pgsql/update.go\<close>): the builders and the
    text they render. \<open>Sql_Props\<close> reads statements the way the server does, placeholder by
    placeholder, and shows what each builder means under that reading; the locales
    \<open>sql_fragment\<close> and \<open>sql_statement\<close> compose fragments whose placeholders are numbered in turn.
  \<^item> \<open>Pg_Value\<close> (\<open>pgsql/table.go\<close>): Go types and values as far as the code asks \<open>reflect\<close> about
    them, \<open>classifyScanKind\<close>, \<open>getValue\<close>, \<open>ptrScanSlot.apply\<close>. \<open>Pg_Value_Props\<close>: the round trip of
    a field, and the fields that do not make it.
  \<^item> \<open>Pg_Table\<close> (\<open>pgsql/table.go\<close>): \<open>GetTable\<close> and its cache, argument extraction, the scan plan.
    \<open>Pg_Table_Props\<close>: what a table says of its type, the round trip of an entity.
  \<^item> \<open>Pg_Operation\<close> (\<open>pgsql/table_operation.go\<close>, \<open>pgsql/pool.go\<close>): the operations of a table
    against a database that is a parameter. \<open>Pg_Operation_Props\<close>: the statements they send, the
    ids they assign, the window of a page. \<open>Pg_Typing\<close>: rows are read type-safely.
  \<^item> \<open>Pg_Repository\<close>: what the statements of \<open>InsertOne\<close>, \<open>FindByID\<close> and \<open>UpdateByID\<close> mean for a table
    of rows, and that on a database which executes them by that meaning (\<open>executes\<close>) the three
    operations make a table a map from ids to entities. \<open>table_db\<close> is such a database.
    \<open>Pg_History\<close>: the same as a \<open>keyed_store\<close>, hence what is found after any operations.
    \<open>Pg_Example\<close> (\<open>pgsql/example\<close>): the example program, as an instance of that contract.
  \<^item> \<open>Redis_Value\<close> (\<open>redisx/operation.go\<close>): simple values as text, with \<open>strconv\<close> for integers and
    booleans written out. \<open>Redis_Operation\<close> (the same file, \<open>common.go\<close> and the three caches): the
    commands against a server that is a parameter. \<open>Redis_Props\<close>: the round trip and the exact
    range of integers; the locale \<open>read_through\<close>, interpreted on the three caches, by which a cache
    is a partial map, and, by a \<open>sublocale\<close>, a \<open>keyed_store\<close>; \<open>Cache_History\<close>: what is read after any operations.

  \<^item> \<open>Dist_Flight\<close> (\<open>redisx/singleFlight.go\<close>): the distributed flight on any number of nodes, one
    command or critical section per step, with the server's lock, the watchdogs and the pollers.
    \<open>Dist_Flight_Props\<close>: mutual exclusion and what a panic does; \<open>Dist_Flight_Items\<close>: which result
    the callers that joined are given. \<open>Dist_Start\<close> (the same file): how flights are created and how
    the messages of the subscription reach the flight of their channel.
  \<^item> \<open>Message_Queue\<close> (\<open>redisx/mq.go\<close>, \<open>redisx/init.go\<close>): the loop of \<open>Listen\<close> as the trace of its
    effects, given what the server and the handler answer. \<open>Message_Queue_Props\<close>: the delivery contract.
  \<^item> \<open>Discover_Client\<close> (\<open>discover/clientV2.go\<close>): the resolver of a client, composed with the center.
    \<open>Composition\<close>: \<open>App_Start\<close>, the center and the resolver together, from the start of a service to the
    addresses its clients use.
  \<^item> \<open>Worker_Pool\<close> (\<open>syncx/go.go\<close>, \<open>syncx/map.go\<close>): workers, submitters and \<open>Close\<close> as a step relation;
    when \<open>Wait\<close> returns, and that the pool drains in a bounded number of steps.
  \<^item> \<open>Web\<close> (\<open>ginx\<close>): parameters, handlers, the basic middleware, with each write to the client kept.
    \<open>Web_Props\<close>: one answer per request, and when a handler runs. \<open>Web_Timeout\<close>: the timeout middleware, with
    the moments at which the deadline is hit as part of the chain.
  \<^item> \<open>Log_Buffer\<close> (\<open>logx\<close>): attributes, the buffer, the flushing goroutines and \<open>Close\<close>; no record is lost
    or sent twice on the way.
  \<^item> \<open>Mongo\<close>, \<open>Mongo_Collection\<close> (\<open>mongox\<close>): filters as maps, object ids from times, documents and the
    commands of a collection.
  \<^item> \<open>Security_Token\<close> (\<open>security\<close>): tokens, with base64 written out.
  \<^item> \<open>Gen\<close>, \<open>Gen_Props\<close> (\<open>gen.go\<close>): the scanner of proto files, the templates and what a run does to the
    files, with the whole program as a sequence of steps on them.
  \<^item> \<open>Util\<close> (\<open>util/arrays\<close>, \<open>util/conv\<close>, \<open>util/random/uuid.go\<close>, \<open>errorx\<close>, \<open>jsonx\<close>): the small helpers.
    \<open>Identifiers\<close> (\<open>util/random\<close>, \<open>util/hash\<close>, \<open>util/email.go\<close>): random and unique identifiers, the keyed
    hash, and the check of mail addresses with the matching of its regular expression.
    \<open>App_Start\<close> (\<open>config\<close>, \<open>app\<close>): configuration files, the log handler and the order of the start-up.

  \<^bold>\<open>Bounds and fuel.\<close> Integers of Go are \<open>int\<close> with their range in \<open>has_type\<close>, and words where the code
  computes with them unchecked (\<open>set_int\<close>, \<open>page_where\<close>). The only fuel is the counter of
  \<open>notify_loop\<close>: the \<open>range\<close> loop of \<open>notifySubscribers\<close> fixes its number of rounds from the
  length of the slice before the first round, and that length is the counter. \<open>re_match\<close> terminates
  by the text that is left, then by the items of the expression.

  \<^bold>\<open>Parameters.\<close> The database, the Redis server, \<open>encoding/json\<close>, \<open>proto\<close>, \<open>yaml\<close>, the keyed hash, the
  tools of Go, \<open>protoc\<close>, the conversion of floats, the user's functions and the network are arguments
  of the definitions; what is assumed of them is a named hypothesis of the theorems (\<open>redis_ok\<close>,
  \<open>executes\<close>, \<open>json_ok\<close>, \<open>faithful_column\<close>, \<open>lossless\<close>, \<open>unmarshal_typed\<close>, \<open>go_tools_ok\<close>), and each theorem has a witness
  at a concrete instance. Of \<open>gin\<close> the model has the order of handlers, \<open>Abort\<close> and the writes.

  \<^bold>\<open>Not modelled.\<close> Sockets, the timing of tickers, command line flags and the output of the logger, since
  they only call libraries: their outcome is an argument where the code acts on it (\<open>Run_center\<close>,
  \<open>InitDB\<close>, \<open>newPool\<close>, \<open>config_Init\<close>). The waits for servers that run for ever (\<open>wg.Wait\<close> in \<open>app.Run\<close>).
  The goroutine of the timeout middleware when it is scheduled after its request has ended: what it
  does then is up to the pool of contexts in \<open>gin\<close>. Errors of the file system when the generator writes.
  Code generated by \<open>protoc\<close> (\<open>discover.pb.go\<close>, \<open>discover_grpc.pb.go\<close>), and \<open>mongox/update.go\<close>, which is commented
  out as a whole.
\<close>

end
